(* ===== verification/Prelude.thy ===== *)
theory Prelude
  imports Main "HOL-Library.Word"
begin

text \<open>
  The vocabulary every theory of this development shares: machine words and their
  little-endian image in memory (the program copies \<open>int\<close> and \<open>uint32_t\<close> values to and
  from byte buffers through pointer casts, on a little-endian machine), C strings, writing
  a block into a byte image, and the faults that stand for undefined behaviour.
\<close>

unbundle bit_operations_syntax

section \<open>Machine types and faults\<close>

type_synonym byte = "8 word"
type_synonym u32 = "32 word"

definition INT_MAX :: nat where "INT_MAX = 2147483647"

text \<open>
  What the C++ standard leaves undefined and the code can reach is a value of its own:
  reading past the end of a heap block, writing past it, following a null or deleted
  pointer, using a value that was never set, and a request for an array of negative size.
\<close>

datatype fault =
    Overread
  | Overwrite
  | Null_deref
  | Use_after_free
  | Uninitialised
  | Bad_array_length

named_theorems wire \<open>encoding and decoding of words and frames\<close>
named_theorems posix \<open>behaviour of sockets and streams\<close>
named_theorems pool_simps \<open>field access through pointer updates\<close>

section \<open>Sums as results\<close>

definition sbind :: "'e + 'a \<Rightarrow> ('a \<Rightarrow> 'e + 'b) \<Rightarrow> 'e + 'b" where
  "sbind m f = (case m of Inl e \<Rightarrow> Inl e | Inr x \<Rightarrow> f x)"

lemma sbind_simps [simp]: "sbind (Inl e) f = Inl e" "sbind (Inr x) f = f x"
  by (simp_all add: sbind_def)

lemma sbind_eq_Inr: "sbind m f = Inr y \<longleftrightarrow> (\<exists>x. m = Inr x \<and> f x = Inr y)"
  by (cases m) auto

section \<open>Little-endian words\<close>

definition le32 :: "u32 \<Rightarrow> byte list" where
  "le32 w = [ucast w, ucast (drop_bit 8 w), ucast (drop_bit 16 w), ucast (drop_bit 24 w)]"

definition un_le32 :: "byte \<Rightarrow> byte \<Rightarrow> byte \<Rightarrow> byte \<Rightarrow> u32" where
  "un_le32 a b c d =
     ucast a OR push_bit 8 (ucast b) OR push_bit 16 (ucast c) OR push_bit 24 (ucast d)"

text \<open>A four-byte load at index \<open>i\<close> of a block; \<open>None\<close> when it leaves the block.\<close>

definition rd32 :: "byte list \<Rightarrow> nat \<Rightarrow> u32 option" where
  "rd32 bs i =
     (if i + 4 \<le> length bs
      then Some (un_le32 (bs ! i) (bs ! (i + 1)) (bs ! (i + 2)) (bs ! (i + 3)))
      else None)"

text \<open>The value of a four-byte variable whose bytes were all stored.\<close>

definition load32 :: "byte list \<Rightarrow> u32" where
  "load32 bs = un_le32 (bs ! 0) (bs ! 1) (bs ! 2) (bs ! 3)"

lemma length_le32 [simp]: "length (le32 w) = 4"
  by (simp add: le32_def)

lemma un_le32_le32 [wire]:
  "un_le32 (ucast w) (ucast (drop_bit 8 w)) (ucast (drop_bit 16 w)) (ucast (drop_bit 24 w)) = w"
proof (rule bit_word_eqI)
  fix n assume "n < LENGTH(32)"
  then have "n < 32" by simp
  then consider "n < 8" | "8 \<le> n" "n < 16" | "16 \<le> n" "n < 24" | "24 \<le> n" "n < 32"
    by linarith
  then show "bit (un_le32 (ucast w) (ucast (drop_bit 8 w)) (ucast (drop_bit 16 w))
      (ucast (drop_bit 24 w))) n = bit w n"
    by cases (auto simp: un_le32_def bit_simps)
qed


lemma rd32_le32 [wire]: "rd32 (xs @ le32 w @ ys) (length xs) = Some w"
  by (simp add: rd32_def le32_def nth_append un_le32_le32)

lemma load32_le32 [wire, simp]: "load32 (le32 w) = w"
  by (simp add: load32_def le32_def un_le32_le32)

lemma rd32_0 [wire]: "rd32 (le32 w @ ys) 0 = Some w"
  using rd32_le32 [of "[]"] by simp

lemma rd32_Cons [wire]: "rd32 (x # xs) (Suc i) = rd32 xs i"
  by (simp add: rd32_def add.commute)

lemma rd32_le32_skip [wire]: "rd32 (le32 v @ xs) (n + 4) = rd32 xs n"
  by (simp add: rd32_def le32_def add.commute)

lemma rd32_None [simp]: "length bs < i + 4 \<Longrightarrow> rd32 bs i = None"
  by (simp add: rd32_def)

text \<open>Sizes that fit their width read back as themselves.\<close>

lemma unat_of_nat_u32 [simp]: "n < 2 ^ 32 \<Longrightarrow> unat (of_nat n :: u32) = n"
  by (simp add: unat_of_nat take_bit_eq_mod)

lemma sint_nonneg:
  assumes "0 \<le> sint w"
  shows "sint w = int (unat (w :: u32))"
proof -
  have "sint w < 2 ^ 31" using sint_lt [of w] by simp
  moreover have "word_of_int (sint w) = w" by simp
  moreover have "uint (word_of_int (sint w) :: u32) = sint w mod 2 ^ 32"
    by (simp only: uint_word_of_int) simp
  ultimately have "uint w = sint w" using assms by simp
  then show ?thesis by simp
qed

lemma sint_of_nat_u32: "n < 2 ^ 31 \<Longrightarrow> sint (of_nat n :: u32) = int n"
  using sint_sbintrunc' [of "int n", where 'a = 32]
  by (simp add: signed_take_bit_int_eq_self)

lemma unat_u32_bound [simp]: "unat (w :: u32) < 4294967296"
  using unsigned_less [of w] by simp

lemma unat_add_u32: "unat (a + b :: u32) = (unat a + unat b) mod 4294967296"
  by (simp add: unat_word_ariths)

lemma mod_sum_eq_0:
  assumes "(x + y) mod m = 0" and "0 < y" and "x < m" and "y < m"
  shows "x = m - (y :: nat)"
proof (cases "x + y < m")
  case True
  with assms(1,2) show ?thesis by simp
next
  case False
  with assms have "(x + y - m) mod m = x + y - m" and "(x + y) mod m = (x + y - m) mod m"
    by (simp_all add: le_mod_geq)
  with assms(1) False show ?thesis by linarith
qed

lemma unat_minus_u32:
  assumes "a \<noteq> 0"
  shows "unat (- a :: u32) = 4294967296 - unat a"
proof -
  have "(unat (- a) + unat a) mod 4294967296 = 0"
    using unat_add_u32 [of "- a" a] by simp
  moreover have "0 < unat a"
    using assms by (simp add: unat_gt_0)
  moreover have "unat (- a) < 4294967296" and "unat a < 4294967296"
    by simp_all
  ultimately show ?thesis by (rule mod_sum_eq_0)
qed

section \<open>Blocks inside a byte image\<close>

text \<open>\<open>overwrite p w xs\<close> is \<open>xs\<close> with the block \<open>w\<close> stored at index \<open>p\<close>.\<close>

definition overwrite :: "nat \<Rightarrow> 'a list \<Rightarrow> 'a list \<Rightarrow> 'a list" where
  "overwrite p w xs = take p xs @ w @ drop (p + length w) xs"

lemma length_overwrite [simp]:
  "p + length w \<le> length xs \<Longrightarrow> length (overwrite p w xs) = length xs"
  by (simp add: overwrite_def)

lemma overwrite_Nil [simp]: "overwrite p [] xs = xs"
  by (simp add: overwrite_def)

lemma overwrite_block:
  "p + length w \<le> length xs \<Longrightarrow> take (length w) (drop p (overwrite p w xs)) = w"
  by (simp add: overwrite_def)

lemma nth_overwrite_outside:
  assumes "p + length w \<le> length xs" and "i < p \<or> p + length w \<le> i"
  shows "overwrite p w xs ! i = xs ! i"
  using assms by (auto simp: overwrite_def nth_append)

lemma take_drop_overwrite_disjoint:
  assumes "p + length w \<le> length xs" and "q + n \<le> length xs"
    and "q + n \<le> p \<or> p + length w \<le> q"
  shows "take n (drop q (overwrite p w xs)) = take n (drop q xs)"
proof (rule nth_equalityI)
  show "length (take n (drop q (overwrite p w xs))) = length (take n (drop q xs))"
    using assms by simp
next
  fix i assume "i < length (take n (drop q (overwrite p w xs)))"
  then have "i < n" and "i < length xs - q" using assms by auto
  then show "take n (drop q (overwrite p w xs)) ! i = take n (drop q xs) ! i"
    using assms nth_overwrite_outside [of p w xs "q + i"] by auto
qed

section \<open>C strings\<close>

text \<open>The characters of a buffer up to its first NUL, as \<open>strlen\<close> and \<open>std::string(char*)\<close> read it.\<close>

definition cstr :: "char list \<Rightarrow> string" where
  "cstr = takeWhile (\<lambda>c. c \<noteq> CHR 0x00)"

text \<open>\<open>tolower\<close> in the C locale.\<close>

definition tolower :: "char \<Rightarrow> char" where
  "tolower c = (if 65 \<le> (of_char c :: nat) \<and> (of_char c :: nat) \<le> 90
     then char_of ((of_char c :: nat) + 32) else c)"

lemma cstr_no_nul: "CHR 0x00 \<notin> set (cstr s)"
  by (auto simp: cstr_def dest: set_takeWhileD)

lemma cstr_append_nul [simp]: "CHR 0x00 \<notin> set s \<Longrightarrow> cstr (s @ CHR 0x00 # t) = s"
  unfolding cstr_def by (subst takeWhile_append2) auto

section \<open>Characters and bytes\<close>

definition bytes_of :: "string \<Rightarrow> byte list" where
  "bytes_of = map of_char"

definition chars_of :: "byte list \<Rightarrow> string" where
  "chars_of = map (\<lambda>b. char_of (unat b))"

lemma length_bytes_of [simp]: "length (bytes_of s) = length s"
  by (simp add: bytes_of_def)

lemma chars_of_append: "chars_of (a @ b) = chars_of a @ chars_of b"
  by (simp add: chars_of_def)

lemma bytes_of_append: "bytes_of (a @ b) = bytes_of a @ bytes_of b"
  by (simp add: bytes_of_def)

lemma chars_of_bytes_of [simp]: "chars_of (bytes_of s) = s"
proof -
  have "char_of (unat (of_char c :: byte)) = c" for c
  proof -
    have "unat (of_nat (of_char c) :: byte) = of_char c" by (simp add: unat_of_nat take_bit_eq_mod)
    then have "unat (of_char c :: byte) = of_char c" by (simp only: of_nat_of_char)
    then show ?thesis by simp
  qed
  then show ?thesis by (simp add: chars_of_def bytes_of_def comp_def map_idI)
qed

lemma bytes_of_chars_of [simp]: "bytes_of (chars_of bs) = bs"
proof -
  have "of_char (char_of (unat b)) = b" for b :: byte
  proof -
    have "unat b < 256" by (rule order.strict_trans2 [OF unsigned_less]) simp
    then have "(of_char (char_of (unat b) :: char) :: nat) = unat b"
      by (simp add: of_char_of)
    then have "of_nat (of_char (char_of (unat b) :: char)) = b" by simp
    then show ?thesis by (simp only: of_nat_of_char)
  qed
  then show ?thesis by (simp add: chars_of_def bytes_of_def comp_def map_idI)
qed

end
