(* ===== verification/Posix.thy ===== *)
theory Posix
  imports Prelude
begin

text \<open>
  What the program uses of the operating system and the C library, with their documented
  behaviour: \<open>read\<close> on a stream socket, \<open>fopen\<close>ed streams with \<open>fseek\<close>, \<open>fread\<close> and
  \<open>fwrite\<close>, and the indeterminate contents of memory fresh from \<open>new\<close>.  Nothing here models
  a file of the repository; the components are stated over these operations.
\<close>

section \<open>Stream sockets\<close>

text \<open>
  What arrives on a socket is a sequence of events: a segment of data, or an error reported by
  the next \<open>read\<close>.  The end of the sequence is the peer's orderly shutdown.  One \<open>read\<close> returns
  at most the requested number of bytes and never joins two segments, so a message the peer
  sent in one piece may take several reads, as POSIX allows.
\<close>

datatype 'b rx = Data "'b list" | Rx_error

fun sock_read :: "nat \<Rightarrow> 'b rx list \<Rightarrow> int \<times> 'b list \<times> 'b rx list" where
  "sock_read n [] = (0, [], [])"
| "sock_read n (Rx_error # evs) = (-1, [], evs)"
| "sock_read n (Data bs # evs) =
     (int (length (take n bs)), take n bs,
      (if length bs \<le> n then evs else Data (drop n bs) # evs))"

fun rx_size :: "'b rx list \<Rightarrow> nat" where
  "rx_size [] = 0"
| "rx_size (Rx_error # evs) = Suc (rx_size evs)"
| "rx_size (Data bs # evs) = Suc (length bs) + rx_size evs"

lemma sock_read_length [posix]:
  "sock_read n evs = (r, got, evs') \<Longrightarrow> length got \<le> n \<and> r \<le> int n \<and> -1 \<le> r"
  by (cases "(n, evs)" rule: sock_read.cases) auto

lemma sock_read_count [posix]:
  "sock_read n evs = (r, got, evs') \<Longrightarrow> 0 \<le> r \<Longrightarrow> r = int (length got)"
  by (cases "(n, evs)" rule: sock_read.cases) auto

lemma sock_read_size: "sock_read n evs = (r, got, evs') \<Longrightarrow> rx_size evs' \<le> rx_size evs"
  by (cases "(n, evs)" rule: sock_read.cases) (auto split: if_splits)

lemma sock_read_progress:
  "sock_read n evs = (r, got, evs') \<Longrightarrow> 0 < r \<Longrightarrow> rx_size evs' < rx_size evs"
  by (cases "(n, evs)" rule: sock_read.cases) (auto split: if_splits)

text \<open>The form in which the termination conditions of the reading loops present it.\<close>

lemma sock_read_terminates:
  "(r, got, evs') = sock_read n evs \<Longrightarrow> 0 < r \<Longrightarrow> rx_size evs' < rx_size evs"
  "(r, got, evs') = sock_read n evs \<Longrightarrow> 0 < r \<Longrightarrow> (q, got', evs'') = sock_read m evs' \<Longrightarrow>
   rx_size evs'' < rx_size evs"
  by (metis sock_read_progress) (metis sock_read_progress sock_read_size order.strict_trans1)

lemma sock_read_error_progress:
  "sock_read n evs = (r, got, evs') \<Longrightarrow> evs \<noteq> [] \<Longrightarrow> 0 < n \<Longrightarrow> rx_size evs' < rx_size evs"
  by (cases "(n, evs)" rule: sock_read.cases) (auto split: if_splits)

lemma sock_read_Data [simp]:
  "length xs = n \<Longrightarrow> ys \<noteq> [] \<Longrightarrow>
   sock_read n (Data (xs @ ys) # evs) = (int n, xs, Data ys # evs)"
  by (cases ys) simp_all

lemma sock_read_Data_all [simp]:
  "length xs = n \<Longrightarrow> sock_read n (Data xs # evs) = (int n, xs, evs)"
  by simp

section \<open>Memory fresh from the allocator\<close>

text \<open>
  The bytes of a block \<open>new\<close> returns are indeterminate: \<open>junk k i\<close> is the \<open>i\<close>-th byte of the
  \<open>k\<close>-th block the run allocates.  Every theorem holds for every \<open>junk\<close>.  \<open>deposit\<close> is such a
  block of \<open>n\<close> bytes after a read has stored \<open>got\<close> at its start.
\<close>

definition deposit :: "(nat \<Rightarrow> 'b) \<Rightarrow> nat \<Rightarrow> 'b list \<Rightarrow> 'b list" where
  "deposit blk n got = got @ map blk [length got..<n]"

text \<open>The bytes \<open>a\<close> to \<open>b\<close> of such a block that nothing has stored.\<close>

definition uninit :: "(nat \<Rightarrow> 'b) \<Rightarrow> nat \<Rightarrow> nat \<Rightarrow> 'b list" where
  "uninit blk a b = map blk [a..<b]"

lemma length_uninit [simp]: "length (uninit blk a b) = b - a"
  by (simp add: uninit_def)

lemma drop_uninit: "drop k (uninit blk a b) = uninit blk (a + k) b"
  by (simp add: uninit_def drop_map)

lemma length_deposit [simp]: "length got \<le> n \<Longrightarrow> length (deposit blk n got) = n"
  by (simp add: deposit_def)

lemma deposit_full [simp]: "length got = n \<Longrightarrow> deposit blk n got = got"
  by (simp add: deposit_def)

lemma take_deposit: "take (length got) (deposit blk n got) = got"
  by (simp add: deposit_def)

section \<open>Streams of the C library\<close>

text \<open>
  A regular file opened with \<open>fopen\<close>: its contents as the process sees them, the file position,
  and the largest size the device under it will let the file reach.  \<open>fread\<close> returns short at
  the end of the file; \<open>fwrite\<close> past the end fills the gap with zeros and returns short when the
  device is full.
\<close>

record stream_file =
  f_data :: "byte list"
  f_pos :: nat
  f_room :: nat

definition fseek_set :: "nat \<Rightarrow> stream_file \<Rightarrow> int \<times> stream_file" where
  "fseek_set off f = (0, f\<lparr>f_pos := off\<rparr>)"

definition fread :: "nat \<Rightarrow> stream_file \<Rightarrow> byte list \<times> stream_file" where
  "fread n f =
     (let got = take n (drop (f_pos f) (f_data f))
      in (got, f\<lparr>f_pos := f_pos f + length got\<rparr>))"

definition fwrite :: "byte list \<Rightarrow> stream_file \<Rightarrow> nat \<times> stream_file" where
  "fwrite bs f =
     (let w = take (f_room f - f_pos f) bs
      in if w = [] then (0, f)
         else (length w,
               f\<lparr>f_data := overwrite (f_pos f) w
                   (f_data f @ replicate (f_pos f - length (f_data f)) 0),
                 f_pos := f_pos f + length w\<rparr>))"

lemma fseek_set_simps [posix, simp]:
  "fst (fseek_set off f) = 0"
  "f_data (snd (fseek_set off f)) = f_data f"
  "f_room (snd (fseek_set off f)) = f_room f"
  "f_pos (snd (fseek_set off f)) = off"
  by (simp_all add: fseek_set_def)

lemma fread_data [posix, simp]:
  "f_data (snd (fread n f)) = f_data f" "f_room (snd (fread n f)) = f_room f"
  by (simp_all add: fread_def Let_def)

lemma fst_fread [posix]: "fst (fread n f) = take n (drop (f_pos f) (f_data f))"
  by (simp add: fread_def Let_def)

lemma length_fst_fread [simp]: "length (fst (fread n f)) \<le> n"
  by (simp add: fst_fread)

lemma fwrite_room [posix, simp]: "f_room (snd (fwrite bs f)) = f_room f"
  by (simp add: fwrite_def Let_def)

lemma fwrite_inside [posix]:
  assumes "f_pos f + length bs \<le> length (f_data f)" and "length (f_data f) \<le> f_room f"
  shows "fst (fwrite bs f) = length bs"
    and "f_data (snd (fwrite bs f)) = overwrite (f_pos f) bs (f_data f)"
  using assms by (auto simp: fwrite_def Let_def)

lemma overwrite_grows: "length xs \<le> length (overwrite p w (xs @ replicate (p - length xs) z))"
  by (auto simp: overwrite_def)

lemma fwrite_grows [posix]: "length (f_data f) \<le> length (f_data (snd (fwrite bs f)))"
  by (simp add: fwrite_def Let_def overwrite_grows)

lemma fwrite_full [posix]: "f_room f \<le> f_pos f \<Longrightarrow> fwrite bs f = (0, f)"
  by (simp add: fwrite_def)

section \<open>The interface the servers rely on\<close>

text \<open>
  A random-access byte store: position, read a block, write a block.  The laws are what a server
  that positions the stream before every transfer needs.  They are proved of the C streams below.
\<close>

locale random_access =
  fixes seek :: "nat \<Rightarrow> 'f \<Rightarrow> int \<times> 'f"
    and get :: "nat \<Rightarrow> 'f \<Rightarrow> byte list \<times> 'f"
    and put :: "byte list \<Rightarrow> 'f \<Rightarrow> nat \<times> 'f"
    and bytes :: "'f \<Rightarrow> byte list"
    and room :: "'f \<Rightarrow> nat"
  assumes seek_ok: "0 \<le> fst (seek off f)"
    and seek_bytes: "bytes (snd (seek off f)) = bytes f"
    and seek_room: "room (snd (seek off f)) = room f"
    and get_bytes: "bytes (snd (get n f)) = bytes f"
    and get_room: "room (snd (get n f)) = room f"
    and get_at: "fst (get n (snd (seek off f))) = take n (drop off (bytes f))"
    and put_room: "room (snd (put bs f)) = room f"
    and put_at: "off + length bs \<le> length (bytes f) \<Longrightarrow> length (bytes f) \<le> room f \<Longrightarrow>
          bytes (snd (put bs (snd (seek off f)))) = overwrite off bs (bytes f)"
    and put_grows: "length (bytes f) \<le> length (bytes (snd (put bs f)))"
begin

lemma get_after_put:
  assumes "off + length bs \<le> length (bytes f)" and "length (bytes f) \<le> room f"
  shows "fst (get (length bs) (snd (seek off (snd (put bs (snd (seek off f))))))) = bs"
  using assms by (simp add: get_at put_at overwrite_block)

lemma get_elsewhere_after_put:
  assumes "off + length bs \<le> length (bytes f)" and "length (bytes f) \<le> room f"
    and "q + n \<le> length (bytes f)" and "q + n \<le> off \<or> off + length bs \<le> q"
  shows "fst (get n (snd (seek q (snd (put bs (snd (seek off f)))))))
       = fst (get n (snd (seek q f)))"
  using assms by (simp add: get_at put_at take_drop_overwrite_disjoint)

lemma put_keeps_length:
  assumes "off + length bs \<le> length (bytes f)" and "length (bytes f) \<le> room f"
  shows "length (bytes (snd (put bs (snd (seek off f))))) = length (bytes f)"
  using assms by (simp add: put_at)

end

interpretation stdio: random_access fseek_set fread fwrite f_data f_room
  by unfold_locales (simp_all add: posix)

end
