(* ===== verification/Wire.thy ===== *)
theory Wire
  imports Prelude
begin

text \<open>
  The SaWa protocol as \<^verbatim>\<open>server/sawa.h\<close>, \<^verbatim>\<open>server/sawa_client_interface.h\<close> and
  \<^verbatim>\<open>protocol.md\<close> fix it: operation and response codes, and the frame of a command (a
  four-byte length, the operation byte, the operands, the data).  The encoders of the client
  and of the block driver are proved to produce these frames, the server to consume them.
\<close>

definition SAWA_INFO :: byte where "SAWA_INFO = 1"
definition SAWA_READ :: byte where "SAWA_READ = 2"
definition SAWA_WRITE :: byte where "SAWA_WRITE = 3"
definition SAWA_STOP :: byte where "SAWA_STOP = 4"
definition SAWA_STAT :: byte where "SAWA_STAT = 5"

definition SAWA_MSG_OK :: byte where "SAWA_MSG_OK = 0x42"
definition SAWA_MSG_ERR :: byte where "SAWA_MSG_ERR = 0x43"
definition SAWA_MSG_NOAUTH :: byte where "SAWA_MSG_NOAUTH = 0x44"

lemmas op_defs = SAWA_INFO_def SAWA_READ_def SAWA_WRITE_def SAWA_STOP_def SAWA_STAT_def
lemmas msg_defs = SAWA_MSG_OK_def SAWA_MSG_ERR_def SAWA_MSG_NOAUTH_def

lemma op_distinct [simp]:
  "SAWA_READ \<noteq> SAWA_INFO" "SAWA_WRITE \<noteq> SAWA_INFO" "SAWA_WRITE \<noteq> SAWA_READ"
  "SAWA_INFO \<noteq> SAWA_READ" "SAWA_INFO \<noteq> SAWA_WRITE" "SAWA_READ \<noteq> SAWA_WRITE"
  by (simp_all add: op_defs)

lemma msg_distinct [simp]:
  "SAWA_MSG_ERR \<noteq> SAWA_MSG_OK" "SAWA_MSG_ERR \<noteq> SAWA_MSG_NOAUTH" "SAWA_MSG_NOAUTH \<noteq> SAWA_MSG_OK"
  "SAWA_MSG_OK \<noteq> SAWA_MSG_ERR" "SAWA_MSG_NOAUTH \<noteq> SAWA_MSG_ERR" "SAWA_MSG_OK \<noteq> SAWA_MSG_NOAUTH"
  by (simp_all add: msg_defs)

section \<open>Commands and their frames\<close>

datatype command = Info | Read u32 u32 | Write u32 "byte list"

fun body :: "command \<Rightarrow> byte list" where
  "body Info = [SAWA_INFO]"
| "body (Read off n) = SAWA_READ # le32 off @ le32 n"
| "body (Write off bs) = SAWA_WRITE # le32 off @ bs"

definition frame :: "command \<Rightarrow> byte list" where
  "frame c = le32 (of_nat (length (body c))) @ body c"

lemma body_nonempty [simp]: "body c \<noteq> []"
  by (cases c) simp_all

lemma length_body [simp]:
  "length (body Info) = 1" "length (body (Read off n)) = 9"
  "length (body (Write off bs)) = 5 + length bs"
  by simp_all

lemma frame_nonempty [simp]: "frame c \<noteq> []"
  by (simp add: frame_def)

end
