(* ===== verification/Connection_Thread.thy ===== *)
theory Connection_Thread
  imports Prelude
begin

text \<open>
  The per-connection record of \<^verbatim>\<open>server/thread_pool.h\<close> that the servers, the pool and the
  administrative interface share, its constructor, the statistics counters the servers
  bump (\<^verbatim>\<open>Server::updateScreen\<close>), and the memory image of a \<^verbatim>\<open>ThreadStat\<close>.
\<close>

text \<open>
  A pointer to a \<open>ConnectionThread\<close> is the address of an object or null (\<open>None\<close>).
  \<open>has_thread\<close> tells whether the handle \<open>thread\<close> is that of a thread: only a successful
  \<open>pthread_create\<close> stores it, until then it is uninitialised memory.  The
  condition variable and the mutex of the class are initialised and never used by the code.
\<close>

type_synonym ptr = "nat option"

record connection_thread =
  nb :: nat
  has_thread :: bool
  client_sock :: int
  nb_connections :: nat
  info :: "nat list"
  next_ptr :: ptr
  next_all :: ptr

text \<open>
  The constructor sets \<open>next\<close>, \<open>client_sock\<close>, \<open>nb_connections\<close> and the counters; \<open>nb\<close> and
  \<open>next_all\<close> get their values in \<open>ThreadPool::newThread\<close> before the object is published.
\<close>

definition ConnectionThread :: "int \<Rightarrow> connection_thread" where
  "ConnectionThread sock =
     \<lparr>nb = 0, has_thread = False, client_sock = sock, nb_connections = 1, info = [0, 0, 0],
      next_ptr = None, next_all = None\<rparr>"

text \<open>\<open>thread_info->info[idx]++\<close>; the display that \<open>refresh\<close> redraws is not part of the state.\<close>

definition updateScreen :: "nat \<Rightarrow> connection_thread \<Rightarrow> connection_thread" where
  "updateScreen idx t = t\<lparr>info := (info t)[idx := Suc (info t ! idx)]\<rparr>"

lemma updateScreen_simps [simp]:
  "nb (updateScreen i t) = nb t" "has_thread (updateScreen i t) = has_thread t"
  "client_sock (updateScreen i t) = client_sock t"
  "nb_connections (updateScreen i t) = nb_connections t"
  "next_ptr (updateScreen i t) = next_ptr t" "next_all (updateScreen i t) = next_all t"
  "length (info (updateScreen i t)) = length (info t)"
  by (simp_all add: updateScreen_def)

lemma info_updateScreen:
  "length (info t) = 3 \<Longrightarrow> i < 3 \<Longrightarrow>
   info (updateScreen i t) ! j = (if j = i then Suc (info t ! j) else info t ! j)"
  by (simp add: updateScreen_def nth_list_update)

text \<open>What the pool and the display throw when a mutex cannot be initialised.\<close>

definition FAILURE_MUTEX_INIT :: int where "FAILURE_MUTEX_INIT = 0x103"

section \<open>ThreadStat\<close>

text \<open>
  \<open>struct\<close> layout on the build's target: four \<open>int\<close>s, one \<open>char\<close>, and three bytes of
  padding, so \<open>sizeof(ThreadStat)\<close> is 20.
\<close>

record thread_stat =
  st_nb_connections :: nat
  st_info :: "nat list"
  st_active :: bool

definition sizeof_ThreadStat :: nat where
  "sizeof_ThreadStat = 20"

definition loadFrom :: "connection_thread \<Rightarrow> thread_stat" where
  "loadFrom t =
     \<lparr>st_nb_connections = nb_connections t,
      st_info = map (\<lambda>i. info t ! i) [0..<3],
      st_active = (0 \<le> client_sock t)\<rparr>"

text \<open>The bytes of one entry in a buffer that was cleared with \<open>memset\<close>: the padding stays 0.\<close>

definition stat_bytes :: "thread_stat \<Rightarrow> byte list" where
  "stat_bytes st =
     le32 (of_nat (st_nb_connections st)) @
     le32 (of_nat (st_info st ! 0)) @ le32 (of_nat (st_info st ! 1)) @ le32 (of_nat (st_info st ! 2)) @
     [if st_active st then 1 else 0, 0, 0, 0]"

lemma length_stat_bytes [simp]: "length (stat_bytes st) = 20"
  by (simp add: stat_bytes_def)

end
