(* ===== verification/Sawa_Server.thy ===== *)
theory Sawa_Server
  imports Posix Wire Connection_Thread
begin

text \<open>
  \<^verbatim>\<open>server/sawa_srv.cpp\<close>: the file server.  The state is what one connection's handler can
  touch: the server object (\<open>nb_sectors\<close>, the stream \<open>fp\<close> on the filesystem file), the bytes
  it has sent on its socket, the statistics of its thread, and the allocator.  A read that
  leaves its heap block ends the run with a fault.  The debug traces are not modelled.
\<close>

record sawa_state =
  nb_sectors :: u32
  fp :: stream_file
  tx :: "byte list"
  thread_info :: connection_thread
  allocs :: nat
  junk :: "nat \<Rightarrow> nat \<Rightarrow> byte"

definition SAWA_INFO_COL :: nat where "SAWA_INFO_COL = 0"
definition SAWA_READ_COL :: nat where "SAWA_READ_COL = 1"
definition SAWA_WRITE_COL :: nat where "SAWA_WRITE_COL = 2"

lemmas col_defs = SAWA_INFO_COL_def SAWA_READ_COL_def SAWA_WRITE_COL_def

section \<open>The operations\<close>

definition sendInfo :: "sawa_state \<Rightarrow> sawa_state" where
  "sendInfo s = s\<lparr>tx := tx s @ le32 (nb_sectors s)\<rparr>"

text \<open>All three quantities are \<open>uint32_t\<close>: the sum and the product wrap around.\<close>

definition checkValidRequest :: "u32 \<Rightarrow> u32 \<Rightarrow> sawa_state \<Rightarrow> bool \<times> sawa_state" where
  "checkValidRequest offset sz s =
     (if sz + offset \<le> nb_sectors s * 512 then (True, s)
      else (False, s\<lparr>tx := tx s @ [SAWA_MSG_NOAUTH]\<rparr>))"

definition readFile :: "u32 \<Rightarrow> u32 \<Rightarrow> sawa_state \<Rightarrow> sawa_state" where
  "readFile offset sz s =
     (let (ok, s) = checkValidRequest offset sz s
      in if \<not> ok then s
         else
           let f1 = snd (fseek_set (unat offset) (fp s));
               (got, f2) = fread (unat sz) f1;
               buffer = deposit (junk s (allocs s)) (unat sz) got
           in s\<lparr>fp := f2, allocs := Suc (allocs s), tx := tx s @ buffer\<rparr>)"

text \<open>
  \<open>addr\<close> is the rest of the request's heap block from the data on.  The result of \<open>fwrite\<close> is
  a \<open>size_t\<close>, so the comparison with 0 is one of natural numbers.
\<close>

definition writeFile :: "byte list \<Rightarrow> u32 \<Rightarrow> u32 \<Rightarrow> sawa_state \<Rightarrow> fault + sawa_state" where
  "writeFile addr offset sz s =
     (let (ok, s) = checkValidRequest offset sz s
      in if \<not> ok then Inr s
         else
           let (rc, f1) = fseek_set (unat offset) (fp s)
           in if 0 \<le> rc then
                (if length addr < unat sz then Inl Overread
                 else
                   let (n, f2) = fwrite (take (unat sz) addr) f1
                   in if (0 :: nat) \<le> n
                      then Inr (s\<lparr>fp := f2, tx := tx s @ [SAWA_MSG_OK]\<rparr>)
                      else Inr (s\<lparr>fp := f2, tx := tx s @ [SAWA_MSG_ERR]\<rparr>))
              else Inr (s\<lparr>fp := f1, tx := tx s @ [SAWA_MSG_ERR]\<rparr>))"

definition sawa_updateScreen :: "nat \<Rightarrow> sawa_state \<Rightarrow> sawa_state" where
  "sawa_updateScreen idx s = s\<lparr>thread_info := updateScreen idx (thread_info s)\<rparr>"

text \<open>\<open>addr\<close> is the request's heap block; \<open>size\<close> is its length as the header announced it.\<close>

definition sawa_processRequest :: "byte list \<Rightarrow> u32 \<Rightarrow> sawa_state \<Rightarrow> fault + sawa_state" where
  "sawa_processRequest addr sz s =
     (case addr of
        [] \<Rightarrow> Inl Overread
      | op # _ \<Rightarrow>
          if op = SAWA_INFO then Inr (sawa_updateScreen SAWA_INFO_COL (sendInfo s))
          else
            (case rd32 addr 1 of
               None \<Rightarrow> Inl Overread
             | Some offset \<Rightarrow>
                 if op = SAWA_READ then
                   (case rd32 addr 5 of
                      None \<Rightarrow> Inl Overread
                    | Some sz \<Rightarrow> Inr (sawa_updateScreen SAWA_READ_COL (readFile offset sz s)))
                 else if op = SAWA_WRITE then
                   (let sz = sz - 5
                    in sbind (writeFile (drop 5 addr) offset sz s)
                         (\<lambda>s. Inr (sawa_updateScreen SAWA_WRITE_COL s)))
                 else Inr s))"

text \<open>
  The loop of \<open>readData\<close> on what the socket delivers.  It ends at a short header, an announced
  sz above 32768, or a failed read of the body; a short body is not noticed.
\<close>

function sawa_readData :: "byte rx list \<Rightarrow> sawa_state \<Rightarrow> fault + sawa_state \<times> byte rx list" where
  "sawa_readData evs s =
     (let (n, hdr, evs1) = sock_read 4 evs
      in if n < 4 then Inr (s, evs1)
         else
           let expected_size = load32 hdr
           in if 32768 < expected_size then Inr (s, evs1)
              else if 0 < expected_size then
                (let (m, got, evs2) = sock_read (unat expected_size) evs1;
                     buffer_in = deposit (junk s (allocs s)) (unat expected_size) got;
                     s1 = s\<lparr>allocs := Suc (allocs s)\<rparr>
                 in if m < 0 then Inr (s1, evs2)
                    else (case sawa_processRequest buffer_in expected_size s1 of
                            Inl e \<Rightarrow> Inl e
                          | Inr s2 \<Rightarrow> sawa_readData evs2 s2))
              else sawa_readData evs1 s)"
  by pat_completeness auto
termination
  by (relation "measure (\<lambda>(evs, s). rx_size evs)") (auto intro: sock_read_terminates)

declare sawa_readData.simps [simp del]

section \<open>What each operation leaves alone\<close>

named_theorems sawa_frame \<open>fields a server operation does not write\<close>

lemma checkValidRequest_frame [sawa_frame, simp]:
  "nb_sectors (snd (checkValidRequest off sz s)) = nb_sectors s"
  "fp (snd (checkValidRequest off sz s)) = fp s"
  "thread_info (snd (checkValidRequest off sz s)) = thread_info s"
  "allocs (snd (checkValidRequest off sz s)) = allocs s"
  "junk (snd (checkValidRequest off sz s)) = junk s"
  by (simp_all add: checkValidRequest_def)

lemma sendInfo_frame [sawa_frame, simp]:
  "nb_sectors (sendInfo s) = nb_sectors s" "fp (sendInfo s) = fp s"
  "thread_info (sendInfo s) = thread_info s" "allocs (sendInfo s) = allocs s"
  "junk (sendInfo s) = junk s" "tx (sendInfo s) = tx s @ le32 (nb_sectors s)"
  by (simp_all add: sendInfo_def)

lemma sawa_updateScreen_frame [sawa_frame, simp]:
  "nb_sectors (sawa_updateScreen i s) = nb_sectors s" "fp (sawa_updateScreen i s) = fp s"
  "tx (sawa_updateScreen i s) = tx s" "allocs (sawa_updateScreen i s) = allocs s"
  "junk (sawa_updateScreen i s) = junk s"
  "thread_info (sawa_updateScreen i s) = updateScreen i (thread_info s)"
  by (simp_all add: sawa_updateScreen_def)

lemma readFile_frame [sawa_frame, simp]:
  "nb_sectors (readFile off sz s) = nb_sectors s"
  "f_data (fp (readFile off sz s)) = f_data (fp s)"
  "f_room (fp (readFile off sz s)) = f_room (fp s)"
  "thread_info (readFile off sz s) = thread_info s"
  "junk (readFile off sz s) = junk s"
  by (simp_all add: readFile_def checkValidRequest_def Let_def case_prod_beta)

lemma writeFile_frame [sawa_frame]:
  "writeFile addr off sz s = Inr s' \<Longrightarrow>
   nb_sectors s' = nb_sectors s \<and> thread_info s' = thread_info s \<and> junk s' = junk s \<and>
   f_room (fp s') = f_room (fp s) \<and> length (f_data (fp s)) \<le> length (f_data (fp s'))"
  using fwrite_grows [of "snd (fseek_set (unat off) (fp s))" "take (unat sz) addr"]
  by (auto simp: writeFile_def checkValidRequest_def Let_def case_prod_beta split: if_splits)

text \<open>A reply is appended to what was sent: never retracted, never reordered.\<close>

lemma readFile_tx: "\<exists>reply. tx (readFile off sz s) = tx s @ reply"
  by (auto simp: readFile_def checkValidRequest_def Let_def split: prod.splits)

lemma writeFile_tx:
  "writeFile addr off sz s = Inr s' \<Longrightarrow>
   tx s' = tx s @ [SAWA_MSG_OK] \<or> tx s' = tx s @ [SAWA_MSG_NOAUTH]"
  by (auto simp: writeFile_def checkValidRequest_def Let_def case_prod_beta split: if_splits)

section \<open>The bounds check\<close>

text \<open>The capacity the server announces, in bytes, and the requests that lie inside it.\<close>

definition capacity :: "sawa_state \<Rightarrow> nat" where
  "capacity s = 512 * unat (nb_sectors s)"

definition in_range :: "u32 \<Rightarrow> u32 \<Rightarrow> sawa_state \<Rightarrow> bool" where
  "in_range off sz s \<longleftrightarrow> unat off + unat sz \<le> capacity s"

text \<open>The filesystem file holds the announced sectors and the device has room for them.\<close>

definition sawa_inv :: "sawa_state \<Rightarrow> bool" where
  "sawa_inv s \<longleftrightarrow>
     capacity s < 2 ^ 32 \<and> length (f_data (fp s)) = capacity s \<and> capacity s \<le> f_room (fp s) \<and>
     length (info (thread_info s)) = 3"

lemma unat_capacity: "capacity s < 2 ^ 32 \<Longrightarrow> unat (nb_sectors s * 512) = capacity s"
  by (simp add: capacity_def unat_word_ariths)

lemma fst_checkValidRequest:
  assumes "capacity s < 2 ^ 32"
  shows "fst (checkValidRequest off sz s) \<longleftrightarrow> (unat off + unat sz) mod 2 ^ 32 \<le> capacity s"
  using unat_capacity [OF assms]
  by (simp add: checkValidRequest_def word_le_nat_alt unat_add_u32 add.commute)

lemma checkValidRequest_in_range:
  assumes "capacity s < 2 ^ 32" and "unat off + unat sz < 2 ^ 32"
  shows "checkValidRequest off sz s =
    (if in_range off sz s then (True, s) else (False, s\<lparr>tx := tx s @ [SAWA_MSG_NOAUTH]\<rparr>))"
proof -
  have "sz + off \<le> nb_sectors s * 512 \<longleftrightarrow> in_range off sz s"
    using fst_checkValidRequest [OF assms(1), of off sz] assms(2)
    by (simp add: checkValidRequest_def in_range_def split: if_splits)
  then show ?thesis by (simp add: checkValidRequest_def)
qed

section \<open>Reads and writes inside the range\<close>

lemma readFile_in_range:
  assumes "sawa_inv s" and "in_range off sz s"
  shows "tx (readFile off sz s) = tx s @ take (unat sz) (drop (unat off) (f_data (fp s)))"
proof -
  let ?got = "take (unat sz) (drop (unat off) (f_data (fp s)))"
  have "checkValidRequest off sz s = (True, s)"
    using assms by (subst checkValidRequest_in_range) (auto simp: sawa_inv_def in_range_def)
  moreover have "fst (fread (unat sz) (snd (fseek_set (unat off) (fp s)))) = ?got"
    by (rule stdio.get_at)
  moreover have "length ?got = unat sz"
    using assms by (auto simp: sawa_inv_def in_range_def)
  ultimately show ?thesis
    by (simp add: readFile_def Let_def case_prod_beta)
qed

lemma readFile_out_of_range:
  assumes "capacity s < 2 ^ 32" and "unat off + unat sz < 2 ^ 32" and "\<not> in_range off sz s"
  shows "readFile off sz s = s\<lparr>tx := tx s @ [SAWA_MSG_NOAUTH]\<rparr>"
  using checkValidRequest_in_range [OF assms(1,2)] assms(3) by (simp add: readFile_def)

lemma writeFile_in_range:
  assumes "sawa_inv s" and "in_range off (of_nat (length bs)) s" and "length bs < 2 ^ 32"
  shows "writeFile bs off (of_nat (length bs)) s =
    Inr (s\<lparr>fp := snd (fwrite bs (snd (fseek_set (unat off) (fp s)))),
           tx := tx s @ [SAWA_MSG_OK]\<rparr>)"
proof -
  have "checkValidRequest off (of_nat (length bs)) s = (True, s)"
    using assms by (subst checkValidRequest_in_range) (auto simp: sawa_inv_def in_range_def)
  then show ?thesis
    using assms(3) by (simp add: writeFile_def Let_def case_prod_beta)
qed

lemma writeFile_out_of_range:
  assumes "capacity s < 2 ^ 32" and "unat off + unat sz < 2 ^ 32" and "\<not> in_range off sz s"
  shows "writeFile bs off sz s = Inr (s\<lparr>tx := tx s @ [SAWA_MSG_NOAUTH]\<rparr>)"
  using checkValidRequest_in_range [OF assms(1,2)] assms(3) by (simp add: writeFile_def)

section \<open>One request of the connection loop\<close>

text \<open>A complete frame at the head of the stream is one \<open>processRequest\<close>.\<close>

lemma sawa_readData_unfold:
  assumes "sock_read 4 evs = (n, hdr, evs1)"
    and "sock_read (unat (load32 hdr)) evs1 = (m, got, evs2)"
  shows "sawa_readData evs s =
    (if n < 4 \<or> 32768 < load32 hdr then Inr (s, evs1)
     else if load32 hdr = 0 then sawa_readData evs1 s
     else if m < 0 then Inr (s\<lparr>allocs := Suc (allocs s)\<rparr>, evs2)
     else sbind (sawa_processRequest (deposit (junk s (allocs s)) (unat (load32 hdr)) got)
                   (load32 hdr) (s\<lparr>allocs := Suc (allocs s)\<rparr>))
            (sawa_readData evs2))"
  using assms by (subst sawa_readData.simps) (simp add: sbind_def Let_def word_gt_0)

lemma sawa_readData_nil: "sawa_readData [] s = Inr (s, [])"
  by (subst sawa_readData.simps) simp

lemma sawa_readData_frame:
  assumes "bd \<noteq> []" and "length bd \<le> 32768"
  shows "sawa_readData (Data (le32 (of_nat (length bd)) @ bd @ rest) # evs) s =
    sbind (sawa_processRequest bd (of_nat (length bd)) (s\<lparr>allocs := Suc (allocs s)\<rparr>))
      (sawa_readData (if rest = [] then evs else Data rest # evs))"
proof -
  let ?w = "of_nat (length bd) :: u32"
  have w: "unat ?w = length bd" using assms(2) by simp
  have sz: "\<not> 32768 < ?w" "0 < ?w"
    using assms w by (simp_all add: word_less_nat_alt)
  have hdr: "sock_read 4 (Data (le32 ?w @ bd @ rest) # evs) = (4, le32 ?w, Data (bd @ rest) # evs)"
    using assms(1) by (subst sock_read_Data) auto
  have bdy: "sock_read (length bd) (Data (bd @ rest) # evs) =
      (int (length bd), bd, if rest = [] then evs else Data rest # evs)"
    by (cases "rest = []") (simp_all del: sock_read.simps)
  show ?thesis
    by (subst sawa_readData.simps)
      (simp add: hdr bdy w sz del: sock_read.simps split: sum.split)
qed

section \<open>Opening the filesystem file\<close>

text \<open>
  \<open>existing\<close> is the filesystem file found on disk, \<open>creatable\<close> whether \<open>fopen\<close> can create it.
  An existing file is taken as it is; a new one is filled with zeros.
\<close>

definition FAILURE_OPEN_FILE :: int where "FAILURE_OPEN_FILE = 0x104"

definition getFilesystemFile :: "byte list option \<Rightarrow> bool \<Rightarrow> nat \<Rightarrow> u32 \<Rightarrow> int + stream_file" where
  "getFilesystemFile existing creatable room sectors =
     (case existing of
        Some bs \<Rightarrow> Inr \<lparr>f_data = bs, f_pos = 0, f_room = room\<rparr>
      | None \<Rightarrow>
          if \<not> creatable then Inl FAILURE_OPEN_FILE
          else
            let nb_bytes = unat (sectors * 512)
            in Inr (snd (fwrite (replicate nb_bytes 0) \<lparr>f_data = [], f_pos = 0, f_room = room\<rparr>)))"

text \<open>The server object with the state a new connection on socket \<open>sock\<close> starts from.\<close>

definition SawaServer ::
  "byte list option \<Rightarrow> bool \<Rightarrow> nat \<Rightarrow> int \<Rightarrow> (nat \<Rightarrow> nat \<Rightarrow> byte) \<Rightarrow> int + sawa_state" where
  "SawaServer existing creatable room sock blk =
     (case getFilesystemFile existing creatable room 2048 of
        Inl e \<Rightarrow> Inl e
      | Inr f \<Rightarrow> Inr \<lparr>nb_sectors = 2048, fp = f, tx = [], thread_info = ConnectionThread sock,
                    allocs = 0, junk = blk\<rparr>)"

lemma SawaServer_created:
  "1048576 \<le> room \<Longrightarrow>
   SawaServer None True room sock blk =
     Inr \<lparr>nb_sectors = 2048,
          fp = \<lparr>f_data = replicate 1048576 0, f_pos = 1048576, f_room = room\<rparr>,
          tx = [], thread_info = ConnectionThread sock, allocs = 0, junk = blk\<rparr>"
  by (simp add: SawaServer_def getFilesystemFile_def fwrite_def Let_def overwrite_def)

lemma SawaServer_created_inv:
  "1048576 \<le> room \<Longrightarrow> SawaServer None True room sock blk = Inr s \<Longrightarrow> sawa_inv s"
  by (auto simp: SawaServer_created sawa_inv_def capacity_def ConnectionThread_def)

end
