(* ===== verification/Block_Store.thy ===== *)
theory Block_Store
  imports Sawa_Server
begin

text \<open>
  What the file server promises: a block store of \<open>512 * nb_sectors\<close> bytes that executes
  commands one after the other.  The theorems relate the byte-level loop of
  \<^verbatim>\<open>server/sawa_srv.cpp\<close> to it, and say where the code departs from it (sizes that wrap
  around, truncated requests, ignored failures).
\<close>

section \<open>The abstract store\<close>

fun store_step :: "u32 \<Rightarrow> byte list \<Rightarrow> command \<Rightarrow> byte list \<times> byte list" where
  "store_step sectors img Info = (img, le32 sectors)"
| "store_step sectors img (Read off n) =
     (if unat off + unat n \<le> 512 * unat sectors
      then (img, take (unat n) (drop (unat off) img)) else (img, [SAWA_MSG_NOAUTH]))"
| "store_step sectors img (Write off bs) =
     (if unat off + length bs \<le> 512 * unat sectors
      then (overwrite (unat off) bs img, [SAWA_MSG_OK]) else (img, [SAWA_MSG_NOAUTH]))"

fun store_run :: "u32 \<Rightarrow> byte list \<Rightarrow> command list \<Rightarrow> byte list \<times> byte list" where
  "store_run sectors img [] = (img, [])"
| "store_run sectors img (c # cs) =
     (let (img1, r) = store_step sectors img c; (img2, rs) = store_run sectors img1 cs
      in (img2, r @ rs))"

text \<open>The column of the statistics a command counts in.\<close>

fun column :: "command \<Rightarrow> nat" where
  "column Info = 0" | "column (Read off n) = 1" | "column (Write off bs) = 2"

definition tally :: "command list \<Rightarrow> nat list \<Rightarrow> nat list" where
  "tally cs xs = fold (\<lambda>c xs. xs[column c := Suc (xs ! column c)]) cs xs"

text \<open>
  The commands on which the code is expected to be right: offset plus size stays below
  \<open>2 ^ 32\<close>, and the frame of a write is within the 32768 bytes the server accepts.
\<close>

fun cmd_ok :: "command \<Rightarrow> bool" where
  "cmd_ok Info = True"
| "cmd_ok (Read off n) = (unat off + unat n < 2 ^ 32)"
| "cmd_ok (Write off bs) = (unat off + length bs < 2 ^ 32 \<and> length bs \<le> 32763)"

lemma store_run_append:
  "store_run sectors img (cs @ ds) =
    (let (img1, r) = store_run sectors img cs; (img2, rs) = store_run sectors img1 ds
     in (img2, r @ rs))"
  by (induction cs arbitrary: img) (simp_all add: case_prod_beta Let_def)

lemma tally_append: "tally (cs @ ds) xs = tally ds (tally cs xs)"
  by (simp add: tally_def)

lemma length_tally [simp]: "length (tally cs xs) = length xs"
  by (induction cs arbitrary: xs) (simp_all add: tally_def)

lemma length_body_ok: "cmd_ok c \<Longrightarrow> length (body c) \<le> 32768"
  by (cases c) simp_all

section \<open>One request\<close>

text \<open>\<open>s'\<close> is what the abstract store makes of the commands \<open>cs\<close> from \<open>s\<close>.\<close>

definition implements :: "command list \<Rightarrow> sawa_state \<Rightarrow> sawa_state \<Rightarrow> bool" where
  "implements cs s s' \<longleftrightarrow>
     sawa_inv s' \<and> nb_sectors s' = nb_sectors s \<and>
     f_data (fp s') = fst (store_run (nb_sectors s) (f_data (fp s)) cs) \<and>
     tx s' = tx s @ snd (store_run (nb_sectors s) (f_data (fp s)) cs) \<and>
     info (thread_info s') = tally cs (info (thread_info s))"

lemma implements_refl: "sawa_inv s \<Longrightarrow> implements [] s s"
  by (simp add: implements_def tally_def)

lemma implements_trans:
  "implements cs s s' \<Longrightarrow> implements ds s' s'' \<Longrightarrow> implements (cs @ ds) s s''"
  by (auto simp: implements_def store_run_append tally_append case_prod_beta Let_def)

lemma sawa_inv_allocs [simp]: "sawa_inv (s\<lparr>allocs := k\<rparr>) = sawa_inv s"
  by (simp add: sawa_inv_def capacity_def)

lemma implements_allocs [simp]:
  "implements cs (s\<lparr>allocs := k\<rparr>) s' = implements cs s s'"
  by (simp add: implements_def)

lemma rd32_body:
  "rd32 (body (Read off n)) (Suc 0) = Some off" "rd32 (body (Read off n)) 5 = Some n"
  "rd32 (body (Write off bs)) (Suc 0) = Some off"
proof -
  show "rd32 (body (Read off n)) (Suc 0) = Some off" by (simp add: wire)
  have "rd32 (SAWA_READ # le32 off @ le32 n) (Suc (0 + 4)) = Some n"
    using rd32_0 [of n "[]"] by (simp only: rd32_Cons rd32_le32_skip) simp
  then show "rd32 (body (Read off n)) 5 = Some n" by simp
  show "rd32 (body (Write off bs)) (Suc 0) = Some off" by (simp add: wire)
qed

lemma processRequest_Info: "sawa_inv s \<Longrightarrow>
  \<exists>s'. sawa_processRequest (body Info) w s = Inr s' \<and> implements [Info] s s'"
  by (auto simp: sawa_processRequest_def implements_def sawa_inv_def capacity_def
      updateScreen_def tally_def col_defs)

lemma processRequest_Read:
  assumes "sawa_inv s" and "cmd_ok (Read off n)"
  shows "\<exists>s'. sawa_processRequest (body (Read off n)) w s = Inr s' \<and> implements [Read off n] s s'"
proof -
  have *: "sawa_processRequest (body (Read off n)) w s =
      Inr (sawa_updateScreen SAWA_READ_COL (readFile off n s))"
    using rd32_body by (simp add: sawa_processRequest_def)
  have "tx (readFile off n s) = tx s @ snd (store_step (nb_sectors s) (f_data (fp s)) (Read off n))"
    using assms readFile_in_range [of s off n] readFile_out_of_range [of s off n]
    by (auto simp: sawa_inv_def in_range_def capacity_def)
  then show ?thesis
    using assms(1) unfolding *
    by (auto simp: implements_def sawa_inv_def capacity_def updateScreen_def tally_def col_defs)
qed

lemma processRequest_Write:
  assumes "sawa_inv s" and "cmd_ok (Write off bs)" and "w = of_nat (length (body (Write off bs)))"
  shows "\<exists>s'. sawa_processRequest (body (Write off bs)) w s = Inr s' \<and>
    implements [Write off bs] s s'"
proof -
  let ?n = "of_nat (length bs) :: u32"
  have w: "w - 5 = ?n" using assms(3) by simp
  have *: "sawa_processRequest (body (Write off bs)) w s =
      sbind (writeFile bs off ?n s) (\<lambda>s. Inr (sawa_updateScreen SAWA_WRITE_COL s))"
    using rd32_body by (simp add: sawa_processRequest_def w Let_def le32_def)
  have n: "unat ?n = length bs" using assms(2) by simp
  show ?thesis
  proof (cases "in_range off ?n s")
    case True
    then have inside: "unat off + length bs \<le> length (f_data (fp s))"
      and fits: "unat off + length bs \<le> 512 * unat (nb_sectors s)"
      using assms(1) n by (simp_all add: in_range_def sawa_inv_def capacity_def)
    have "f_data (snd (fwrite bs (snd (fseek_set (unat off) (fp s))))) =
        overwrite (unat off) bs (f_data (fp s))"
      using inside assms(1) by (intro stdio.put_at) (simp_all add: sawa_inv_def)
    then show ?thesis
      using assms(1,2) True inside fits unfolding *
      by (auto simp: writeFile_in_range implements_def sawa_inv_def capacity_def
          updateScreen_def tally_def col_defs)
  next
    case False
    then have "writeFile bs off ?n s = Inr (s\<lparr>tx := tx s @ [SAWA_MSG_NOAUTH]\<rparr>)"
      using assms(1,2) n by (intro writeFile_out_of_range) (simp_all add: sawa_inv_def)
    then show ?thesis
      using assms(1) False n unfolding *
      by (auto simp: implements_def sawa_inv_def capacity_def in_range_def
          updateScreen_def tally_def col_defs)
  qed
qed

lemma processRequest_refines:
  assumes "sawa_inv s" and "cmd_ok c"
  shows "\<exists>s'. sawa_processRequest (body c) (of_nat (length (body c))) s = Inr s' \<and>
    implements [c] s s'"
  using assms processRequest_Info processRequest_Read processRequest_Write
  by (cases c) blast+

section \<open>The connection loop\<close>

lemma readData_segment:
  assumes "sawa_inv s" and "list_all cmd_ok (c # cs)"
  shows "\<exists>s'. sawa_readData (Data (concat (map frame (c # cs))) # evs) s = sawa_readData evs s' \<and>
    implements (c # cs) s s'"
  using assms
proof (induction cs arbitrary: c s)
  case Nil
  then obtain s' where s': "sawa_processRequest (body c) (of_nat (length (body c)))
      (s\<lparr>allocs := Suc (allocs s)\<rparr>) = Inr s'" "implements [c] s s'"
    using processRequest_refines [of "s\<lparr>allocs := Suc (allocs s)\<rparr>" c] by auto
  with Nil show ?case
    using sawa_readData_frame [of "body c" "[]" evs s] length_body_ok [of c]
    by (auto simp: frame_def)
next
  case (Cons d cs)
  then obtain s1 where s1: "sawa_processRequest (body c) (of_nat (length (body c)))
      (s\<lparr>allocs := Suc (allocs s)\<rparr>) = Inr s1" "implements [c] s s1"
    using processRequest_refines [of "s\<lparr>allocs := Suc (allocs s)\<rparr>" c] by auto
  then obtain s2 where s2:
      "sawa_readData (Data (concat (map frame (d # cs))) # evs) s1 = sawa_readData evs s2"
      "implements (d # cs) s1 s2"
    using Cons.IH [of s1 d] Cons.prems by (auto simp: implements_def)
  have "sawa_readData (Data (concat (map frame (c # d # cs))) # evs) s = sawa_readData evs s2"
    using sawa_readData_frame [of "body c" "concat (map frame (d # cs))" evs s]
      length_body_ok [of c] Cons.prems s1 s2 by (simp add: frame_def)
  moreover have "implements (c # d # cs) s s2"
    using implements_trans [OF s1(2) s2(2)] by simp
  ultimately show ?case by blast
qed

lemma readData_segments:
  assumes "sawa_inv s" and "list_all cmd_ok (concat css)" and "[] \<notin> set css"
  shows "\<exists>s'. sawa_readData (map (\<lambda>cs. Data (concat (map frame cs))) css @ evs) s =
      sawa_readData evs s' \<and> implements (concat css) s s'"
  using assms
proof (induction css arbitrary: s)
  case Nil
  then show ?case using implements_refl by auto
next
  case (Cons cs css)
  then obtain c ds where cs: "cs = c # ds" by (cases cs) auto
  obtain s1 where s1: "sawa_readData (Data (concat (map frame cs)) #
      map (\<lambda>cs. Data (concat (map frame cs))) css @ evs) s =
      sawa_readData (map (\<lambda>cs. Data (concat (map frame cs))) css @ evs) s1" "implements cs s s1"
    using readData_segment [of s c ds] Cons.prems unfolding cs by auto
  then obtain s2 where "sawa_readData (map (\<lambda>cs. Data (concat (map frame cs))) css @ evs) s1 =
      sawa_readData evs s2" "implements (concat css) s1 s2"
    using Cons.IH [of s1] Cons.prems by (auto simp: implements_def)
  with s1 show ?case
    using implements_trans [of cs s s1 "concat css" s2] by auto
qed

section \<open>A session of well-formed commands\<close>

text \<open>A one-sector server for the witnesses.\<close>

definition small_server :: sawa_state where
  "small_server =
     \<lparr>nb_sectors = 1, fp = \<lparr>f_data = replicate 512 0, f_pos = 0, f_room = 512\<rparr>, tx = [],
      thread_info = ConnectionThread 3, allocs = 0, junk = (\<lambda>k i. 0xAA)\<rparr>"

lemma small_server_inv [simp]: "sawa_inv small_server"
  by (simp add: small_server_def sawa_inv_def capacity_def ConnectionThread_def)



section \<open>Any input at all\<close>

lemma processRequest_frame:
  assumes "sawa_processRequest addr sz s = Inr s'"
  shows "nb_sectors s' = nb_sectors s \<and> length (f_data (fp s)) \<le> length (f_data (fp s')) \<and>
    f_room (fp s') = f_room (fp s) \<and> (\<exists>out. tx s' = tx s @ out) \<and>
    client_sock (thread_info s') = client_sock (thread_info s)"
proof -
  from assms obtain op rest where addr: "addr = op # rest"
    by (auto simp: sawa_processRequest_def split: list.splits)
  show ?thesis
    using assms readFile_tx writeFile_tx writeFile_frame
    by (auto simp: sawa_processRequest_def addr Let_def sbind_eq_Inr split: if_splits option.splits)
      blast+
qed

text \<open>Whatever bytes a client sends, in whatever segments and with whatever socket errors, a
  connection that ends without a memory fault leaves the server's geometry and its thread's socket
  alone, never shortens the filesystem file, and only ever appends to what it has sent.\<close>

theorem readData_any_input:
  assumes "sawa_readData evs s = Inr (s', evs')"
  shows "nb_sectors s' = nb_sectors s \<and> length (f_data (fp s)) \<le> length (f_data (fp s')) \<and>
    f_room (fp s') = f_room (fp s) \<and> (\<exists>out. tx s' = tx s @ out) \<and>
    client_sock (thread_info s') = client_sock (thread_info s)"
  using assms
proof (induction evs s rule: sawa_readData.induct)
  case (1 evs s)
  obtain n hdr evs1 where r1: "sock_read 4 evs = (n, hdr, evs1)" by (metis prod_cases3)
  obtain m got evs2 where r2: "sock_read (unat (load32 hdr)) evs1 = (m, got, evs2)"
    by (metis prod_cases3)
  let ?s1 = "s\<lparr>allocs := Suc (allocs s)\<rparr>"
  let ?p = "sawa_processRequest (deposit (junk s (allocs s)) (unat (load32 hdr)) got) (load32 hdr) ?s1"
  note unfold = sawa_readData_unfold [OF r1 r2]
  have step: ?case if "\<not> n < 4" "\<not> 32768 < load32 hdr" "0 < load32 hdr" "\<not> m < 0"
  proof -
    from "1.prems" that obtain s2 where p: "?p = Inr s2" and go: "sawa_readData evs2 s2 = Inr (s', evs')"
      by (auto simp: unfold sbind_eq_Inr word_gt_0)
    have ih: "nb_sectors s' = nb_sectors s2 \<and> length (f_data (fp s2)) \<le> length (f_data (fp s')) \<and>
        f_room (fp s') = f_room (fp s2) \<and> (\<exists>out. tx s' = tx s2 @ out) \<and>
        client_sock (thread_info s') = client_sock (thread_info s2)"
      using "1.IH"(1) [OF r1 [symmetric] refl refl that(1) refl that(2,3) r2 [symmetric] refl refl
          refl refl that(4) p go] .
    with processRequest_frame [OF p] show ?case by auto
  qed
  have skip: ?case if "\<not> n < 4" "\<not> 32768 < load32 hdr" "\<not> 0 < load32 hdr"
    using "1.IH"(2) [OF r1 [symmetric] refl refl that(1) refl that(2,3)] "1.prems" that
    by (simp add: unfold word_gt_0)
  show ?case
    using step skip "1.prems" by (auto simp: unfold word_gt_0 split: if_splits)
qed

theorem readData_any_input_witness:
  "\<exists>s'. sawa_readData [Data [1, 0, 0, 0, 1, 99]] small_server = Inr (s', []) \<and>
     nb_sectors s' = 1 \<and> length (f_data (fp s')) \<ge> 512 \<and> client_sock (thread_info s') = 3"
proof -
  have "sawa_readData [Data [1, 0, 0, 0, 1, 99]] small_server =
      sbind (sawa_processRequest [1] 1 (small_server\<lparr>allocs := 1\<rparr>)) (sawa_readData [Data [99]])"
    using sawa_readData_frame [of "[1]" "[99]" "[]" small_server]
    by (simp add: le32_def small_server_def)
  moreover have "sawa_readData [Data [99]] s = Inr (s, [])" for s
    by (subst sawa_readData.simps) simp
  ultimately obtain s' where s': "sawa_readData [Data [1, 0, 0, 0, 1, 99]] small_server = Inr (s', [])"
    by (auto simp: sawa_processRequest_def SAWA_INFO_def)
  from readData_any_input [OF this] s' show ?thesis
    by (auto simp: small_server_def ConnectionThread_def)
qed

end
