(* ===== verification/Server_Limits.thy ===== *)
theory Server_Limits
  imports Block_Store
begin

text \<open>
  Where the file server's checks hold and where they stop: the 32-bit arithmetic of
  \<open>checkValidRequest\<close>, the limits of the framing loop, requests shorter than their operands,
  messages the network splits, and the unobservable failure of \<open>fwrite\<close>.
\<close>

section \<open>The bounds check\<close>

text \<open>
  The offset and size pairs the 32-bit check lets through: those that end inside the store, and
  those whose sum passes \<open>2 ^ 32\<close> by no more than the size of the store.
\<close>

definition admits :: "u32 \<Rightarrow> u32 \<Rightarrow> sawa_state \<Rightarrow> bool" where
  "admits off sz s \<longleftrightarrow>
     unat off + unat sz \<le> unat (nb_sectors s * 512) \<or>
     2 ^ 32 \<le> unat off + unat sz \<and> unat off + unat sz \<le> 2 ^ 32 + unat (nb_sectors s * 512)"

lemma wrapped_sum_le:
  fixes a b c m :: nat
  assumes "a < m" and "b < m" and "c < m"
  shows "(b + a) mod m \<le> c \<longleftrightarrow> a + b \<le> c \<or> m \<le> a + b \<and> a + b \<le> m + c"
proof (cases "a + b < m")
  case True
  then show ?thesis by (simp add: add.commute)
next
  case False
  with assms(1,2) have "(b + a) mod m = a + b - m" by (simp add: le_mod_geq add.commute)
  with False assms(3) show ?thesis by linarith
qed

lemma checkValidRequest_admits:
  "checkValidRequest off sz s =
    (if admits off sz s then (True, s) else (False, s\<lparr>tx := tx s @ [SAWA_MSG_NOAUTH]\<rparr>))"
proof -
  have "sz + off \<le> nb_sectors s * 512 \<longleftrightarrow> admits off sz s"
    unfolding admits_def word_le_nat_alt unat_add_u32
    using wrapped_sum_le [OF unat_u32_bound unat_u32_bound unat_u32_bound] by simp
  then show ?thesis by (simp add: checkValidRequest_def)
qed

text \<open>The answer of \<open>readFile\<close> for any offset and size at all: the bytes of the file in the range,
  and after the end of the file the bytes of the heap block they were to be read into.\<close>

lemma readFile_exact:
  "readFile off sz s =
    (if admits off sz s
     then s\<lparr>fp := snd (fread (unat sz) (snd (fseek_set (unat off) (fp s)))),
            allocs := Suc (allocs s),
            tx := tx s @ deposit (junk s (allocs s)) (unat sz)
              (take (unat sz) (drop (unat off) (f_data (fp s))))\<rparr>
     else s\<lparr>tx := tx s @ [SAWA_MSG_NOAUTH]\<rparr>)"
proof -
  have "fst (fread (unat sz) (snd (fseek_set (unat off) (fp s)))) =
      take (unat sz) (drop (unat off) (f_data (fp s)))"
    by (rule stdio.get_at)
  then show ?thesis
    by (simp add: readFile_def checkValidRequest_admits Let_def case_prod_beta)
qed

lemma writeFile_exact:
  "writeFile bs off sz s =
    (if \<not> admits off sz s then Inr (s\<lparr>tx := tx s @ [SAWA_MSG_NOAUTH]\<rparr>)
     else if length bs < unat sz then Inl Overread
     else Inr (s\<lparr>fp := snd (fwrite (take (unat sz) bs) (snd (fseek_set (unat off) (fp s)))),
                 tx := tx s @ [SAWA_MSG_OK]\<rparr>))"
  by (simp add: writeFile_def checkValidRequest_admits Let_def case_prod_beta)


text \<open>C18: The check lets through what it should refuse: for every READ whose offset plus size
  reaches \<open>2 ^ 32\<close> and exceeds it by at most the size of the store, on a file shorter than \<open>2 ^ 32\<close>
  bytes, the answer is what the file holds from the offset on (nothing when the offset lies beyond its
  end) followed by uninitialised heap memory up to the requested size, and there is at least one
  such byte: offset plus size minus the length of the file, when the offset lies inside.\<close>

theorem wrapped_read_leaks_heap:
  assumes "2 ^ 32 \<le> unat off + unat sz" and "unat off + unat sz \<le> 2 ^ 32 + unat (nb_sectors s * 512)"
    and "length (f_data (fp s)) < 2 ^ 32"
  shows "tx (readFile off sz s) = tx s @ drop (unat off) (f_data (fp s)) @
      map (junk s (allocs s)) [length (f_data (fp s)) - unat off..<unat sz] \<and>
    length (f_data (fp s)) - unat off < unat sz"
proof -
  have "admits off sz s" using assms(1,2) by (simp add: admits_def)
  moreover have "length (f_data (fp s)) - unat off < unat sz"
    using assms(1,3) unat_u32_bound [of off] by (simp del: unat_u32_bound)
  ultimately show ?thesis
    by (simp add: readFile_exact deposit_def)
qed

theorem wrapped_read_leaks_heap_witness:
  "tx (readFile (- 2) 4 small_server) = [0xAA, 0xAA, 0xAA, 0xAA]"
proof -
  have "[0 :: nat..<4] = [0, 1, 2, 3]" by (simp add: upt_rec)
  then show ?thesis
    using wrapped_read_leaks_heap [of "- 2" 4 small_server]
    by (simp add: small_server_def)
qed

section \<open>The framing loop\<close>

text \<open>A header that announces more than 32768 bytes, or a segment that carries fewer than the four
  bytes of a header, ends the connection at once and has no effect: no reply, no change of the file
  or of the statistics.\<close>

theorem bad_header_closes:
  assumes "32768 < unat w" and "length part < 4"
  shows "sawa_readData (Data (le32 w @ rest) # evs) s =
      Inr (s, if rest = [] then evs else Data rest # evs) \<and>
    sawa_readData (Data part # evs) s = Inr (s, evs)"
proof -
  have "32768 < w" using assms(1) by (simp add: word_less_nat_alt)
  moreover have "sock_read 4 (Data (le32 w @ rest) # evs) =
      (4, le32 w, if rest = [] then evs else Data rest # evs)"
    by (cases "rest = []") (simp_all del: sock_read.simps)
  ultimately have "sawa_readData (Data (le32 w @ rest) # evs) s =
      Inr (s, if rest = [] then evs else Data rest # evs)"
    by (subst sawa_readData.simps) (simp add: Let_def)
  moreover have "sawa_readData (Data part # evs) s = Inr (s, evs)"
    using assms(2) by (subst sawa_readData.simps) simp
  ultimately show ?thesis ..
qed

theorem bad_header_closes_witness:
  "sawa_readData (Data (le32 32769 @ [3, 0]) # []) small_server = Inr (small_server, [Data [3, 0]]) \<and>
   sawa_readData (Data [9, 0, 0] # [Data [0, 2]]) small_server = Inr (small_server, [Data [0, 2]])"
  using bad_header_closes [of 32769 "[9, 0, 0]" "[3, 0]" "[]" small_server]
    bad_header_closes [of 32769 "[9, 0, 0]" "[]" "[Data [0, 2]]" small_server] by simp

text \<open>A request shorter than its operands is not rejected: any message other than INFO with fewer
  than five bytes, and a READ with fewer than nine, makes \<open>processRequest\<close> load an operand from past
  the end of the heap block the message was received in.\<close>

theorem truncated_request_overreads:
  assumes "op \<noteq> SAWA_INFO" and "length ops < 4 \<or> op = SAWA_READ \<and> length ops < 8"
  shows "sawa_readData (Data (le32 (of_nat (Suc (length ops))) @ op # ops) # evs) s = Inl Overread"
proof -
  have "length (op # ops) \<le> 32768" using assms(2) by auto
  moreover have "sawa_processRequest (op # ops) w s' = Inl Overread" for w s'
  proof (cases "length ops < 4")
    case True
    then have "rd32 (op # ops) (Suc 0) = None" by simp
    with assms(1) show ?thesis by (simp add: sawa_processRequest_def)
  next
    case False
    then have "rd32 (op # ops) 5 = None" and "op = SAWA_READ" using assms(2) by auto
    with assms(1) show ?thesis by (simp add: sawa_processRequest_def split: option.split)
  qed
  ultimately show ?thesis
    using sawa_readData_frame [of "op # ops" "[]" evs s] by simp
qed

theorem truncated_request_overreads_witness:
  "sawa_readData (Data [1, 0, 0, 0, 2] # []) small_server = Inl Overread"
  using truncated_request_overreads [of 2 "[]" "[]" small_server]
  by (simp add: SAWA_INFO_def le32_def)

text \<open>\<open>readData\<close> takes the first segment of a body for the whole of it: when the network
  delivers a WRITE of \<open>bs @ cs\<close> with \<open>cs\<close> in a later segment, the server stores \<open>bs\<close> followed by
  uninitialised heap bytes, answers \<open>SAWA_MSG_OK\<close>, and goes on to parse \<open>cs\<close> as the next header.\<close>

theorem split_write_stores_junk:
  assumes "sawa_inv s" and "length (bs @ cs) \<le> 32763"
    and "unat off + length (bs @ cs) \<le> 512 * unat (nb_sectors s)"
  shows "\<exists>s'. sawa_readData (Data (le32 (of_nat (5 + length (bs @ cs))) @ SAWA_WRITE # le32 off @ bs) # evs) s
      = sawa_readData evs s' \<and>
    f_data (fp s') = overwrite (unat off)
      (bs @ map (junk s (allocs s)) [5 + length bs..<5 + length (bs @ cs)]) (f_data (fp s)) \<and>
    tx s' = tx s @ [SAWA_MSG_OK]"
proof -
  let ?n = "5 + length (bs @ cs)"
  let ?w = "of_nat ?n :: u32"
  let ?got = "SAWA_WRITE # le32 off @ bs"
  let ?jk = "map (junk s (allocs s)) [5 + length bs..<?n]"
  let ?s1 = "s\<lparr>allocs := Suc (allocs s)\<rparr>"
  have w: "unat ?w = ?n" using assms(2) by (subst unat_of_nat_u32) simp_all
  have buf: "deposit (junk s (allocs s)) ?n ?got = body (Write off (bs @ ?jk))"
    by (simp add: deposit_def add.commute)
  have len: "?n = length (body (Write off (bs @ ?jk)))" by simp
  have ok: "\<not> 32768 < ?w" "?w \<noteq> 0"
    using w assms(2) by (simp_all add: word_less_nat_alt flip: unat_eq_0)
  have "sock_read 4 (Data (le32 ?w @ ?got) # evs) = (4, le32 ?w, Data ?got # evs)"
    by (subst sock_read_Data) simp_all
  moreover have "sock_read (unat (load32 (le32 ?w))) (Data ?got # evs) =
      (int (5 + length bs), ?got, evs)"
    unfolding load32_le32 w by simp
  ultimately have "sawa_readData (Data (le32 ?w @ ?got) # evs) s =
      sbind (sawa_processRequest (body (Write off (bs @ ?jk))) ?w ?s1) (sawa_readData evs)"
    by (subst sawa_readData_unfold) (assumption, assumption, simp only: load32_le32 w buf ok, simp)
  moreover obtain s' where "sawa_processRequest (body (Write off (bs @ ?jk))) ?w ?s1 = Inr s'"
      "implements [Write off (bs @ ?jk)] s s'"
    using processRequest_refines [of ?s1 "Write off (bs @ ?jk)"] assms len
    by (auto simp: sawa_inv_def capacity_def)
  ultimately show ?thesis
    using assms(3) by (auto simp: implements_def)
qed

theorem split_write_stores_junk_witness:
  "\<exists>s'. sawa_readData (Data [7, 0, 0, 0, 3, 0, 0, 0, 0, 9] # [Data [8]]) small_server =
      sawa_readData [Data [8]] s' \<and>
    f_data (fp s') = overwrite 0 [9, 0xAA] (replicate 512 0) \<and> tx s' = [0x42]"
proof -
  have "[6 :: nat..<7] = [6]" by (simp add: upt_rec)
  then show ?thesis
    using split_write_stores_junk [of small_server "[9]" "[8]" 0 "[Data [8]]"]
    by (simp add: small_server_def le32_def SAWA_WRITE_def msg_defs sawa_inv_def capacity_def
        ConnectionThread_def)
qed

text \<open>A failed write is acknowledged: on a device with no room at the requested position nothing
  is stored, and the client still gets \<open>SAWA_MSG_OK\<close>.  The branch that sends \<open>SAWA_MSG_ERR\<close> is
  unreachable, because the result of \<open>fwrite\<close> is unsigned.\<close>

theorem failed_write_acknowledged:
  assumes "fst (checkValidRequest off (of_nat (length bs)) s)" and "f_room (fp s) \<le> unat off"
    and "length bs < 2 ^ 32"
  shows "\<exists>s'. writeFile bs off (of_nat (length bs)) s = Inr s' \<and>
    f_data (fp s') = f_data (fp s) \<and> tx s' = tx s @ [SAWA_MSG_OK]"
proof -
  have "fwrite bs (snd (fseek_set (unat off) (fp s))) = (0, snd (fseek_set (unat off) (fp s)))"
    using assms(2) by (intro fwrite_full) simp
  moreover have "checkValidRequest off (of_nat (length bs)) s = (True, s)"
    using assms(1) by (simp add: checkValidRequest_def split: if_splits)
  ultimately show ?thesis
    using assms(3) by (simp add: writeFile_def Let_def case_prod_beta)
qed

theorem failed_write_acknowledged_witness:
  "\<exists>s'. writeFile [7] 511 1 (small_server\<lparr>fp := \<lparr>f_data = [], f_pos = 0, f_room = 0\<rparr>\<rparr>) = Inr s' \<and>
    f_data (fp s') = [] \<and> tx s' = [0x42]"
  using failed_write_acknowledged [of 511 "[7]" "small_server\<lparr>fp := \<lparr>f_data = [], f_pos = 0, f_room = 0\<rparr>\<rparr>"]
  by (simp add: checkValidRequest_def small_server_def msg_defs)

end
