(* ===== verification/Server_Race.thy ===== *)
theory Server_Race
  imports Block_Store
begin

text \<open>
  Every connection has a thread of its own, and all of them use the one stream \<open>fp\<close> of
  \<^verbatim>\<open>server/sawa_srv.cpp\<close>: \<open>readFile\<close> and \<open>writeFile\<close> first position it and then transfer,
  in two library calls with no lock around them (each call alone is atomic, as the C library
  locks a stream during a call).  Here a request that passed its check is a thread with those two
  calls to make, a schedule says in which order the threads make them, and the theorems say what
  an unlocked schedule can do and what a locked one guarantees.
\<close>

section \<open>The two calls of a request\<close>

datatype transfer = Fetch u32 u32 | Store u32 "byte list"

datatype phase = Waiting transfer | Positioned transfer | Answered "byte list"

record shared =
  sh_fp :: stream_file
  sh_phase :: "nat \<Rightarrow> phase"

datatype call = Seek nat | Transfer nat

fun offset_of :: "transfer \<Rightarrow> u32" where
  "offset_of (Fetch off n) = off" | "offset_of (Store off bs) = off"

text \<open>\<open>blk\<close> is the contents of the fresh block a read is answered from.\<close>

fun transfer_call :: "(nat \<Rightarrow> byte) \<Rightarrow> transfer \<Rightarrow> stream_file \<Rightarrow> byte list \<times> stream_file" where
  "transfer_call blk (Fetch off n) f =
     (let (got, f') = fread (unat n) f in (deposit blk (unat n) got, f'))"
| "transfer_call blk (Store off bs) f = ([SAWA_MSG_OK], snd (fwrite bs f))"

fun io_call :: "(nat \<Rightarrow> byte) \<Rightarrow> call \<Rightarrow> shared \<Rightarrow> shared option" where
  "io_call blk (Seek i) s =
     (case sh_phase s i of
        Waiting r \<Rightarrow>
          Some (s\<lparr>sh_fp := snd (fseek_set (unat (offset_of r)) (sh_fp s)),
                  sh_phase := (sh_phase s)(i := Positioned r)\<rparr>)
      | _ \<Rightarrow> None)"
| "io_call blk (Transfer i) s =
     (case sh_phase s i of
        Positioned r \<Rightarrow>
          (let (reply, f) = transfer_call blk r (sh_fp s)
           in Some (s\<lparr>sh_fp := f, sh_phase := (sh_phase s)(i := Answered reply)\<rparr>))
      | _ \<Rightarrow> None)"

fun io_run :: "(nat \<Rightarrow> byte) \<Rightarrow> call list \<Rightarrow> shared \<Rightarrow> shared option" where
  "io_run blk [] s = Some s"
| "io_run blk (c # cs) s = Option.bind (io_call blk c s) (io_run blk cs)"

lemma io_run_append:
  "io_run blk (cs @ ds) s = Option.bind (io_run blk cs s) (io_run blk ds)"
  by (induction cs arbitrary: s) (auto split: bind_splits)

section \<open>Without interleaving: the server's own functions\<close>

text \<open>The two calls of one thread, back to back, are the second half of \<open>readFile\<close> and \<open>writeFile\<close>.\<close>

lemma fetch_is_readFile:
  assumes "fst (checkValidRequest off n s)"
  shows "tx (readFile off n s) =
      tx s @ fst (transfer_call (junk s (allocs s)) (Fetch off n) (snd (fseek_set (unat off) (fp s))))"
    and "fp (readFile off n s) =
      snd (transfer_call (junk s (allocs s)) (Fetch off n) (snd (fseek_set (unat off) (fp s))))"
proof -
  have "checkValidRequest off n s = (True, s)"
    using assms by (simp add: checkValidRequest_def split: if_splits)
  then show "tx (readFile off n s) =
      tx s @ fst (transfer_call (junk s (allocs s)) (Fetch off n) (snd (fseek_set (unat off) (fp s))))"
    and "fp (readFile off n s) =
      snd (transfer_call (junk s (allocs s)) (Fetch off n) (snd (fseek_set (unat off) (fp s))))"
    by (simp_all add: readFile_def Let_def case_prod_beta)
qed

lemma store_is_writeFile:
  assumes "fst (checkValidRequest off (of_nat (length bs)) s)" and "length bs < 2 ^ 32"
  shows "writeFile bs off (of_nat (length bs)) s =
    Inr (s\<lparr>fp := snd (transfer_call blk (Store off bs) (snd (fseek_set (unat off) (fp s)))),
           tx := tx s @ fst (transfer_call blk (Store off bs) (snd (fseek_set (unat off) (fp s))))\<rparr>)"
proof -
  have "checkValidRequest off (of_nat (length bs)) s = (True, s)"
    using assms(1) by (simp add: checkValidRequest_def split: if_splits)
  then show ?thesis using assms(2) by (simp add: writeFile_def Let_def case_prod_beta)
qed

section \<open>Locked schedules\<close>

text \<open>The command a transfer answers, in the abstract store.\<close>

fun command_of :: "transfer \<Rightarrow> command" where
  "command_of (Fetch off n) = Read off n" | "command_of (Store off bs) = Write off bs"

fun fits :: "nat \<Rightarrow> transfer \<Rightarrow> bool" where
  "fits cap (Fetch off n) = (unat off + unat n \<le> cap)"
| "fits cap (Store off bs) = (unat off + length bs \<le> cap)"

definition locked :: "nat list \<Rightarrow> call list" where
  "locked ids = concat (map (\<lambda>i. [Seek i, Transfer i]) ids)"

lemma locked_pair:
  assumes "sh_phase s i = Waiting r" and "fits (length (f_data (sh_fp s))) r"
    and "length (f_data (sh_fp s)) = 512 * unat sectors"
    and "length (f_data (sh_fp s)) \<le> f_room (sh_fp s)"
  shows "\<exists>s'. io_run blk [Seek i, Transfer i] s = Some s' \<and>
    f_data (sh_fp s') = fst (store_step sectors (f_data (sh_fp s)) (command_of r)) \<and>
    sh_phase s' = (sh_phase s)(i := Answered (snd (store_step sectors (f_data (sh_fp s)) (command_of r)))) \<and>
    length (f_data (sh_fp s')) = length (f_data (sh_fp s)) \<and> f_room (sh_fp s') = f_room (sh_fp s)"
proof (cases r)
  case (Fetch off n)
  then have "length (take (unat n) (drop (unat off) (f_data (sh_fp s)))) = unat n"
    using assms by simp
  then show ?thesis
    using Fetch assms stdio.get_at [of "unat n" "unat off" "sh_fp s"]
    by (simp add: Let_def case_prod_beta)
next
  case (Store off bs)
  then show ?thesis
    using assms stdio.put_at [of "unat off" bs "sh_fp s"] by simp
qed

text \<open>If every request kept the stream from its \<open>fseek\<close> to its transfer (as a lock held over the
  two calls would make it), requests of different connections would serialise: any schedule of
  back-to-back pairs answers each thread what the abstract store answers it in that order, and
  leaves the store's image in the file.\<close>

theorem locked_schedule_serialises:
  assumes "distinct ids" and "list_all (\<lambda>i. sh_phase s i = Waiting (reqs i)) ids"
    and "list_all (\<lambda>i. fits (512 * unat sectors) (reqs i)) ids"
    and "length (f_data (sh_fp s)) = 512 * unat sectors"
    and "length (f_data (sh_fp s)) \<le> f_room (sh_fp s)"
  shows "\<exists>s'. io_run blk (locked ids) s = Some s' \<and>
    f_data (sh_fp s') = fst (store_run sectors (f_data (sh_fp s)) (map (\<lambda>i. command_of (reqs i)) ids)) \<and>
    concat (map (\<lambda>i. case sh_phase s' i of Answered r \<Rightarrow> r | _ \<Rightarrow> []) ids) =
      snd (store_run sectors (f_data (sh_fp s)) (map (\<lambda>i. command_of (reqs i)) ids)) \<and>
    (\<forall>j. j \<notin> set ids \<longrightarrow> sh_phase s' j = sh_phase s j)"
  using assms
proof (induction ids arbitrary: s)
  case Nil
  then show ?case by (simp add: locked_def)
next
  case (Cons i ids)
  obtain s1 where s1: "io_run blk [Seek i, Transfer i] s = Some s1"
      "f_data (sh_fp s1) = fst (store_step sectors (f_data (sh_fp s)) (command_of (reqs i)))"
      "sh_phase s1 = (sh_phase s)(i := Answered (snd (store_step sectors (f_data (sh_fp s))
          (command_of (reqs i)))))"
      "length (f_data (sh_fp s1)) = length (f_data (sh_fp s))" "f_room (sh_fp s1) = f_room (sh_fp s)"
    using locked_pair [of s i "reqs i" sectors blk] Cons.prems by auto
  have pend: "list_all (\<lambda>j. sh_phase s1 j = Waiting (reqs j)) ids"
    using Cons.prems(1,2) s1(3) by (auto simp: list_all_iff)
  have "\<exists>s'. io_run blk (locked ids) s1 = Some s' \<and>
      f_data (sh_fp s') = fst (store_run sectors (f_data (sh_fp s1)) (map (\<lambda>i. command_of (reqs i)) ids)) \<and>
      concat (map (\<lambda>i. case sh_phase s' i of Answered r \<Rightarrow> r | _ \<Rightarrow> []) ids) =
        snd (store_run sectors (f_data (sh_fp s1)) (map (\<lambda>i. command_of (reqs i)) ids)) \<and>
      (\<forall>j. j \<notin> set ids \<longrightarrow> sh_phase s' j = sh_phase s1 j)"
    by (rule Cons.IH) (use Cons.prems s1 pend in auto)
  then obtain s' where s': "io_run blk (locked ids) s1 = Some s'"
      "f_data (sh_fp s') = fst (store_run sectors (f_data (sh_fp s1)) (map (\<lambda>i. command_of (reqs i)) ids))"
      "concat (map (\<lambda>i. case sh_phase s' i of Answered r \<Rightarrow> r | _ \<Rightarrow> []) ids) =
        snd (store_run sectors (f_data (sh_fp s1)) (map (\<lambda>i. command_of (reqs i)) ids))"
      "\<forall>j. j \<notin> set ids \<longrightarrow> sh_phase s' j = sh_phase s1 j"
    by blast
  have "locked (i # ids) = [Seek i, Transfer i] @ locked ids" by (simp add: locked_def)
  then have "io_run blk (locked (i # ids)) s = Some s'"
    using s1(1) s'(1) by (simp only: io_run_append) simp
  moreover have "sh_phase s' i = Answered (snd (store_step sectors (f_data (sh_fp s))
      (command_of (reqs i))))"
    using s'(4) s1(3) Cons.prems(1) by simp
  ultimately show ?case
    using s' s1 Cons.prems(1) by (auto simp: case_prod_beta Let_def)
qed

definition race_state :: shared where
  "race_state =
     \<lparr>sh_fp = \<lparr>f_data = replicate 512 0, f_pos = 0, f_room = 512\<rparr>,
      sh_phase = (\<lambda>i. if i = 0 then Waiting (Store 2 [5, 6]) else Waiting (Fetch 1 3))\<rparr>"

theorem locked_schedule_serialises_witness:
  "\<exists>s'. io_run (\<lambda>i. 0xAA) (locked [0, 1]) race_state = Some s' \<and> sh_phase s' 1 = Answered [0, 5, 6]"
proof -
  let ?reqs = "\<lambda>i :: nat. if i = 0 then Store 2 [5, 6] else Fetch 1 3"
  have img: "overwrite 2 [5, 6] (replicate 512 (0 :: byte)) = 0 # 0 # 5 # 6 # replicate 508 0"
    by (simp add: overwrite_def numeral_eq_Suc)
  from locked_schedule_serialises [of "[0, 1]" race_state ?reqs 1 "\<lambda>i. 0xAA"]
  obtain s' where s': "io_run (\<lambda>i. 0xAA) (locked [0, 1]) race_state = Some s'"
      "concat (map (\<lambda>i. case sh_phase s' i of Answered r \<Rightarrow> r | _ \<Rightarrow> []) [0, 1]) = [0x42, 0, 5, 6]"
    by (auto simp: race_state_def img msg_defs)
  then have "sh_phase s' 1 = Answered [0, 5, 6]"
    by (auto simp: race_state_def locked_def case_prod_beta Let_def fread_def fwrite_def
        fseek_set_def img msg_defs split: if_splits)
  with s' show ?thesis by blast
qed

section \<open>The schedule the code allows\<close>

text \<open>The code takes no such lock, so another connection's \<open>fseek\<close> can fall between the two
  calls: then a read is answered with the bytes at the other connection's offset, and a write is
  stored at the other connection's offset, with \<open>SAWA_MSG_OK\<close> for an answer.\<close>

theorem interleaved_seek_misdirects:
  assumes "i \<noteq> j" and "sh_phase s i = Waiting r" and "sh_phase s j = Waiting q"
    and "fits (length (f_data (sh_fp s))) (Store (offset_of q) bs)"
    and "length (f_data (sh_fp s)) \<le> f_room (sh_fp s)"
    and "r = Store off bs \<or> r = Fetch off (of_nat (length bs))" and "length bs < 2 ^ 32"
  shows "\<exists>s'. io_run blk [Seek i, Seek j, Transfer i] s = Some s' \<and>
    (if r = Store off bs
     then f_data (sh_fp s') = overwrite (unat (offset_of q)) bs (f_data (sh_fp s)) \<and>
          sh_phase s' i = Answered [SAWA_MSG_OK]
     else sh_phase s' i =
          Answered (take (length bs) (drop (unat (offset_of q)) (f_data (sh_fp s)))))"
proof -
  let ?f = "snd (fseek_set (unat (offset_of q)) (snd (fseek_set (unat (offset_of r)) (sh_fp s))))"
  have rd: "fst (fread n ?f) = take n (drop (unat (offset_of q)) (f_data (sh_fp s)))" for n
    by (simp add: stdio.get_at)
  have wr: "f_data (snd (fwrite bs ?f)) = overwrite (unat (offset_of q)) bs (f_data (sh_fp s))"
    using stdio.put_at [of "unat (offset_of q)" bs "snd (fseek_set (unat (offset_of r)) (sh_fp s))"]
      assms(4,5) by simp
  have len: "length (take (length bs) (drop (unat (offset_of q)) (f_data (sh_fp s)))) = length bs"
    using assms(4) by simp
  from assms(6) show ?thesis
  proof
    assume "r = Store off bs"
    then show ?thesis using assms(1-3) wr by simp
  next
    assume "r = Fetch off (of_nat (length bs))"
    then show ?thesis
      using assms(1-3,7) rd [of "length bs"] len by (simp add: Let_def case_prod_beta)
  qed
qed

theorem interleaved_seek_misdirects_witness:
  "\<exists>s'. io_run (\<lambda>i. 0xAA) [Seek 0, Seek 1, Transfer 0] race_state = Some s' \<and>
     f_data (sh_fp s') = overwrite 1 [5, 6] (replicate 512 0)"
  using interleaved_seek_misdirects [of 0 1 race_state "Store 2 [5, 6]" "Fetch 1 3" "[5, 6]" 2 "\<lambda>i. 0xAA"]
  by (auto simp: race_state_def)

end
