(* ===== verification/Thread_Pool.thy ===== *)
theory Thread_Pool
  imports Connection_Thread
begin

text \<open>
  \<^verbatim>\<open>server/thread_pool.cpp\<close>: the pool's two linked lists over a heap of \<open>ConnectionThread\<close>
  objects.  \<open>all_threads\<close> is linked by \<open>next_all\<close>; the stack \<open>idle_threads\<close> is linked by \<open>next\<close>,
  a field that \<open>newThread\<close> also points at the list of all threads.  The addresses \<open>new\<close>
  returns and the return codes of \<open>pthread_create\<close> and \<open>pthread_mutex_init\<close> are arguments.
\<close>

type_synonym thread_heap = "nat \<rightharpoonup> connection_thread"

record thread_pool =
  heap :: thread_heap
  idle_threads :: ptr
  all_threads :: ptr
  thread_nb :: nat

definition ThreadPool :: "int \<Rightarrow> int \<Rightarrow> int + thread_pool" where
  "ThreadPool idle_lock_rc all_lock_rc =
     (if idle_lock_rc \<noteq> 0 \<or> all_lock_rc \<noteq> 0 then Inl FAILURE_MUTEX_INIT
      else Inr \<lparr>heap = Map.empty, idle_threads = None, all_threads = None, thread_nb = 0\<rparr>)"

section \<open>The operations\<close>

text \<open>\<open>p\<close> is the address of the new object, \<open>rc\<close> the result of \<open>pthread_create\<close>, which stores the
  handle of the thread only when it returns zero.\<close>

definition newThread :: "nat \<Rightarrow> int \<Rightarrow> int \<Rightarrow> thread_pool \<Rightarrow> ptr \<times> thread_pool" where
  "newThread p rc sock tp =
     (let t = (ConnectionThread sock)
                \<lparr>nb := thread_nb tp, has_thread := (rc = 0), next_ptr := all_threads tp, next_all := all_threads tp\<rparr>;
          tp = tp\<lparr>heap := (heap tp)(p \<mapsto> t), all_threads := Some p, thread_nb := Suc (thread_nb tp)\<rparr>
      in if rc < 0 then (None, tp) else (Some p, tp))"

text \<open>\<open>releaseThread\<close> in the two steps other threads can observe: the socket is cleared before the
  lock is taken, the object is pushed while it is held.\<close>

definition clear_sock :: "nat \<Rightarrow> thread_pool \<Rightarrow> fault + thread_pool" where
  "clear_sock a tp =
     (case heap tp a of
        None \<Rightarrow> Inl Use_after_free
      | Some t \<Rightarrow> Inr (tp\<lparr>heap := (heap tp)(a \<mapsto> t\<lparr>client_sock := -1\<rparr>)\<rparr>))"

definition push_idle :: "nat \<Rightarrow> thread_pool \<Rightarrow> fault + thread_pool" where
  "push_idle a tp =
     (case heap tp a of
        None \<Rightarrow> Inl Use_after_free
      | Some t \<Rightarrow> Inr (tp\<lparr>heap := (heap tp)(a \<mapsto> t\<lparr>next_ptr := idle_threads tp\<rparr>),
                       idle_threads := Some a\<rparr>))"

definition releaseThread :: "nat \<Rightarrow> thread_pool \<Rightarrow> fault + thread_pool" where
  "releaseThread a tp = sbind (clear_sock a tp) (push_idle a)"

text \<open>\<open>reuseThread\<close>: the test for an idle thread is made without the lock; under the lock the head
  is removed, whatever it is by then.\<close>

definition pop_idle :: "thread_pool \<Rightarrow> fault + nat \<times> thread_pool" where
  "pop_idle tp =
     (case idle_threads tp of
        None \<Rightarrow> Inl Null_deref
      | Some a \<Rightarrow>
          (case heap tp a of
             None \<Rightarrow> Inl Use_after_free
           | Some t \<Rightarrow> Inr (a, tp\<lparr>idle_threads := next_ptr t\<rparr>)))"

definition assign_sock :: "nat \<Rightarrow> int \<Rightarrow> thread_pool \<Rightarrow> fault + thread_pool" where
  "assign_sock a sock tp =
     (case heap tp a of
        None \<Rightarrow> Inl Use_after_free
      | Some t \<Rightarrow> Inr (tp\<lparr>heap := (heap tp)
                   (a \<mapsto> t\<lparr>client_sock := sock, nb_connections := Suc (nb_connections t)\<rparr>)\<rparr>))"

definition take_idle :: "int \<Rightarrow> thread_pool \<Rightarrow> fault + nat \<times> thread_pool" where
  "take_idle sock tp =
     sbind (pop_idle tp) (\<lambda>(a, tp). sbind (assign_sock a sock tp) (\<lambda>tp. Inr (a, tp)))"

definition reuseThread :: "int \<Rightarrow> thread_pool \<Rightarrow> fault + ptr \<times> thread_pool" where
  "reuseThread sock tp =
     (if idle_threads tp = None then Inr (None, tp)
      else sbind (take_idle sock tp) (\<lambda>(a, tp). Inr (Some a, tp)))"

definition handleNewConnection :: "nat \<Rightarrow> int \<Rightarrow> int \<Rightarrow> thread_pool \<Rightarrow> fault + thread_pool" where
  "handleNewConnection p rc sock tp =
     sbind (reuseThread sock tp)
       (\<lambda>(r, tp). if r = None then Inr (snd (newThread p rc sock tp)) else Inr tp)"

section \<open>Shutting down\<close>

text \<open>
  The destructor takes the first object of \<open>all_threads\<close>, detaches its thread and sends that thread
  \<open>SIGALRM\<close>.  The handle of an object whose thread could not be created is uninitialised memory.
  No code of the program handles, blocks or ignores \<open>SIGALRM\<close> (the constructor blocks \<open>SIGUSR1\<close> and
  \<open>SIGSEGV\<close>), so its default action is taken, which ends the process: the code after the call, the
  \<open>shutdown\<close> of the socket, the step to \<open>next\<close>, the \<open>delete\<close>, and with them any further round, is
  never reached.  A process that was started with the signal ignored is outside the model.
\<close>

datatype shutdown_end = Pool_deleted | Process_killed nat

definition destroy_pool :: "thread_pool \<Rightarrow> fault + shutdown_end" where
  "destroy_pool tp =
     (case all_threads tp of
        None \<Rightarrow> Inr Pool_deleted
      | Some a \<Rightarrow>
          (case heap tp a of
             None \<Rightarrow> Inl Use_after_free
           | Some t \<Rightarrow> if \<not> has_thread t then Inl Uninitialised else Inr (Process_killed a)))"

section \<open>Statistics\<close>

text \<open>
  \<open>serializeThreadStats\<close> fills the buffer from its last entry down; \<open>i\<close> is the number of entries
  below the pointer \<open>thread_st\<close>, the one it points at included.
\<close>

partial_function (option) serializeThreadStats ::
  "thread_heap \<Rightarrow> ptr \<Rightarrow> nat \<Rightarrow> thread_stat list \<Rightarrow> (fault + thread_stat list) option"
where
  "serializeThreadStats h p i buf =
     (case p of
        None \<Rightarrow> Some (Inr buf)
      | Some a \<Rightarrow>
          (case h a of
             None \<Rightarrow> Some (Inl Use_after_free)
           | Some t \<Rightarrow>
               if i = 0 \<or> length buf < i then Some (Inl Overwrite)
               else serializeThreadStats h (next_all t) (i - 1) (buf[i - 1 := loadFrom t])))"

definition zero_stat :: thread_stat where
  "zero_stat = \<lparr>st_nb_connections = 0, st_info = [0, 0, 0], st_active = False\<rparr>"

text \<open>The size in bytes, then the entries; the buffer is cleared before the entries are stored.\<close>

definition getThreadStatistics :: "thread_pool \<Rightarrow> (fault + byte list) option" where
  "getThreadStatistics tp =
     map_option (\<lambda>r. sbind r (\<lambda>stats. Inr (le32 (of_nat (thread_nb tp * sizeof_ThreadStat)) @
         concat (map stat_bytes stats))))
       (serializeThreadStats (heap tp) (all_threads tp) (thread_nb tp)
          (replicate (thread_nb tp) zero_stat))"

section \<open>Linked lists in the heap\<close>

fun plist :: "(connection_thread \<Rightarrow> ptr) \<Rightarrow> thread_heap \<Rightarrow> ptr \<Rightarrow> nat list \<Rightarrow> bool" where
  "plist f h p [] = (p = None)"
| "plist f h p (a # as) =
     (p = Some a \<and> (case h a of None \<Rightarrow> False | Some t \<Rightarrow> plist f h (f t) as))"

lemma plist_None [simp]: "plist f h None xs \<longleftrightarrow> xs = []"
  by (cases xs) auto

lemma plist_Some:
  "plist f h (Some a) xs \<longleftrightarrow> (\<exists>as t. xs = a # as \<and> h a = Some t \<and> plist f h (f t) as)"
  by (cases xs) (auto split: option.splits)

lemma plist_unique: "plist f h p xs \<Longrightarrow> plist f h p ys \<Longrightarrow> xs = ys"
  by (induction xs arbitrary: p ys) (auto simp: plist_Some split: option.splits)

lemma plist_dom: "plist f h p xs \<Longrightarrow> set xs \<subseteq> dom h"
  by (induction xs arbitrary: p) (auto split: option.splits)

lemma plist_append:
  "plist f h p (xs @ a # ys) \<Longrightarrow> plist f h (Some a) (a # ys)"
proof (induction xs arbitrary: p)
  case Nil
  then show ?case by simp
next
  case (Cons b xs)
  then obtain t where "plist f h (f t) (xs @ a # ys)" by (auto split: option.splits)
  then show ?case by (rule Cons.IH)
qed

lemma plist_distinct: "plist f h p xs \<Longrightarrow> distinct xs"
proof (induction xs arbitrary: p)
  case Nil
  then show ?case by simp
next
  case (Cons a xs)
  then obtain t where t: "h a = Some t" "plist f h (f t) xs"
    by (auto split: option.splits)
  have "a \<notin> set xs"
  proof
    assume "a \<in> set xs"
    then obtain ys zs where xs: "xs = ys @ a # zs" by (auto dest: split_list)
    with t(2) have "plist f h (Some a) (a # zs)" by (auto dest: plist_append)
    moreover have "plist f h (Some a) (a # xs)" using t by simp
    ultimately have "a # zs = a # xs" by (rule plist_unique)
    with xs show False by simp
  qed
  with Cons.IH [OF t(2)] show ?case by simp
qed

lemma plist_upd_notin [simp]: "a \<notin> set xs \<Longrightarrow> plist f (h(a := v)) p xs = plist f h p xs"
  by (induction xs arbitrary: p) (auto split: option.splits)

lemma plist_upd_same:
  "h a = Some t \<Longrightarrow> f t' = f t \<Longrightarrow> plist f (h(a \<mapsto> t')) p xs = plist f h p xs"
  by (induction xs arbitrary: p) (auto split: option.splits)

text \<open>Every chain ends: from each object, the field leads to null after finitely many steps.\<close>

definition grounded :: "(connection_thread \<Rightarrow> ptr) \<Rightarrow> thread_heap \<Rightarrow> bool" where
  "grounded f h \<longleftrightarrow> (\<forall>a \<in> dom h. \<exists>xs. plist f h (Some a) xs)"

lemma groundedD: "grounded f h \<Longrightarrow> h a = Some t \<Longrightarrow> \<exists>xs. plist f h (Some a) xs"
  by (auto simp: grounded_def)

lemma grounded_upd_same:
  "grounded f h \<Longrightarrow> h a = Some t \<Longrightarrow> f t' = f t \<Longrightarrow> grounded f (h(a \<mapsto> t'))"
  by (auto simp: grounded_def plist_upd_same)

lemma grounded_new:
  assumes "grounded f h" and "h a = None" and "f t = None \<or> (\<exists>b \<in> dom h. f t = Some b)"
  shows "grounded f (h(a \<mapsto> t))"
  unfolding grounded_def
proof
  have old: "\<exists>xs. plist f (h(a \<mapsto> t)) (Some b) xs" if "b \<in> dom h" for b
  proof -
    from that assms(1) obtain xs where "plist f h (Some b) xs" by (auto simp: grounded_def)
    moreover from this have "a \<notin> set xs" using assms(2) by (auto dest: plist_dom)
    ultimately have "plist f (h(a \<mapsto> t)) (Some b) xs" by simp
    then show ?thesis ..
  qed
  fix c assume "c \<in> dom (h(a \<mapsto> t))"
  then show "\<exists>xs. plist f (h(a \<mapsto> t)) (Some c) xs"
  proof (cases "c = a")
    case False
    with \<open>c \<in> dom (h(a \<mapsto> t))\<close> show ?thesis by (intro old) simp
  next
    case True
    from assms(3) have "\<exists>xs. plist f (h(a \<mapsto> t)) (f t) xs"
      using old by (metis plist.simps(1))
    then show ?thesis by (auto simp: True plist_Some)
  qed
qed

text \<open>Relinking an object to a list it is not on keeps every chain finite.\<close>

lemma grounded_relink:
  assumes "grounded f h" and "h a = Some t" and "plist f h (f t') ys" and "a \<notin> set ys"
  shows "grounded f (h(a \<mapsto> t'))"
  unfolding grounded_def
proof
  fix c assume "c \<in> dom (h(a \<mapsto> t'))"
  then have "c \<in> dom h" using assms(2) by auto
  with assms(1) obtain xs where xs: "plist f h (Some c) xs" by (auto simp: grounded_def)
  have "\<exists>zs. plist f (h(a \<mapsto> t')) p zs" if "plist f h p xs" for p xs
    using that
  proof (induction xs arbitrary: p)
    case Nil
    then show ?case by (auto intro: exI [of _ "[]"])
  next
    case (Cons b xs)
    show ?case
    proof (cases "b = a")
      case True
      with Cons.prems assms(3,4) have "plist f (h(a \<mapsto> t')) p (a # ys)" by simp
      then show ?thesis ..
    next
      case False
      from Cons.prems obtain t1 where t1: "p = Some b" "h b = Some t1" "plist f h (f t1) xs"
        by (auto split: option.splits)
      from Cons.IH [OF t1(3)] obtain zs where "plist f (h(a \<mapsto> t')) (f t1) zs" ..
      with t1 False have "plist f (h(a \<mapsto> t')) p (b # zs)" by simp
      then show ?thesis ..
    qed
  qed
  with xs show "\<exists>xs. plist f (h(a \<mapsto> t')) (Some c) xs" by blast
qed

end
