(* ===== verification/Stack_Interface.thy ===== *)
theory Stack_Interface
  imports Prelude
begin

text \<open>
  The interface of a stack: \<open>handleNewConnection\<close> relies on it of the list of idle threads
  (\<^verbatim>\<open>server/thread_pool.cpp\<close>), \<open>Alloc\<close> and \<open>Free\<close> of the memory pools of the XML library on it of the list of free
  items (\<^verbatim>\<open>server/tinyxml2.h\<close>).
\<close>

text \<open>
  \<open>holds s xs\<close> says that the stack of state \<open>s\<close> is \<open>xs\<close>, \<open>member a s\<close> that \<open>a\<close> may be pushed.
\<close>

locale lifo_stack =
  fixes push :: "'a \<Rightarrow> 's \<Rightarrow> 'e + 's"
    and pop :: "'c \<Rightarrow> 's \<Rightarrow> 'e + 'a \<times> 's"
    and holds :: "'s \<Rightarrow> 'a list \<Rightarrow> bool"
    and member :: "'a \<Rightarrow> 's \<Rightarrow> bool"
  assumes push_law: "holds s xs \<Longrightarrow> member a s \<Longrightarrow> a \<notin> set xs \<Longrightarrow>
        \<exists>s'. push a s = Inr s' \<and> holds s' (a # xs) \<and> (\<forall>b. member b s' = member b s)"
    and pop_law: "holds s (a # xs) \<Longrightarrow>
        \<exists>s'. pop c s = Inr (a, s') \<and> holds s' xs \<and> (\<forall>b. member b s' = member b s)"
begin

fun pushes :: "'a list \<Rightarrow> 's \<Rightarrow> 'e + 's" where
  "pushes [] s = Inr s"
| "pushes (a # as) s = sbind (push a s) (pushes as)"

fun pops :: "'c list \<Rightarrow> 's \<Rightarrow> 'e + 'a list \<times> 's" where
  "pops [] s = Inr ([], s)"
| "pops (c # cs) s = sbind (pop c s) (\<lambda>(a, s). sbind (pops cs s) (\<lambda>(as, s). Inr (a # as, s)))"

lemma pushes_holds:
  assumes "holds s xs" and "list_all (\<lambda>a. member a s) as" and "distinct (rev as @ xs)"
  shows "\<exists>s'. pushes as s = Inr s' \<and> holds s' (rev as @ xs) \<and> (\<forall>b. member b s' = member b s)"
  using assms
proof (induction "as" arbitrary: s xs)
  case Nil
  then show ?case by simp
next
  case (Cons a as)
  obtain s1 where s1: "push a s = Inr s1" "holds s1 (a # xs)" "\<forall>b. member b s1 = member b s"
    using push_law [of s xs a] Cons.prems by auto
  from Cons.IH [OF s1(2)] s1 Cons.prems show ?case by auto
qed

lemma pops_holds:
  assumes "holds s (as @ xs)" and "length cs = length as"
  shows "\<exists>s'. pops cs s = Inr (as, s') \<and> holds s' xs"
  using assms
proof (induction "as" arbitrary: s cs)
  case Nil
  then show ?case by simp
next
  case (Cons a as)
  then obtain c cs' where cs: "cs = c # cs'" "length cs' = length as" by (cases cs) auto
  obtain s1 where s1: "pop c s = Inr (a, s1)" "holds s1 (as @ xs)"
    using pop_law [of s a "as @ xs" c] Cons.prems by auto
  from Cons.IH [OF s1(2) cs(2)] s1 cs show ?case by auto
qed

theorem last_in_first_out:
  assumes "holds s xs" and "list_all (\<lambda>a. member a s) as" and "distinct (rev as @ xs)"
    and "length cs = length as"
  shows "\<exists>s' s''. pushes as s = Inr s' \<and> pops cs s' = Inr (rev as, s'') \<and> holds s'' xs"
proof -
  obtain s' where "pushes as s = Inr s'" "holds s' (rev as @ xs)"
    using pushes_holds [OF assms(1-3)] by blast
  moreover from this(2) assms(4) obtain s'' where "pops cs s' = Inr (rev as, s'')" "holds s'' xs"
    using pops_holds by fastforce
  ultimately show ?thesis by auto
qed

end

end
