(* ===== verification/Pool_Invariant.thy ===== *)
theory Pool_Invariant
  imports Thread_Pool Stack_Interface
begin

text \<open>
  The well-formedness of the pool's linked lists, that every operation of
  \<^verbatim>\<open>server/thread_pool.cpp\<close> keeps it, what the statistics are on a
  well-formed pool, and the idle threads as a stack.
\<close>

text \<open>\<open>alls\<close> is the list behind \<open>all_threads\<close>, \<open>ids\<close> the one behind \<open>idle_threads\<close>.\<close>

definition pool_ok :: "thread_pool \<Rightarrow> nat list \<Rightarrow> nat list \<Rightarrow> bool" where
  "pool_ok tp alls ids \<longleftrightarrow>
     plist next_all (heap tp) (all_threads tp) alls \<and> set alls = dom (heap tp) \<and>
     thread_nb tp = length alls \<and>
     map (\<lambda>a. nb (the (heap tp a))) alls = rev [0..<length alls] \<and>
     plist next_ptr (heap tp) (idle_threads tp) ids \<and> grounded next_ptr (heap tp)"

lemma pool_ok_empty:
  "pool_ok \<lparr>heap = Map.empty, idle_threads = None, all_threads = None, thread_nb = 0\<rparr> [] []"
  by (simp add: pool_ok_def grounded_def)

lemma pool_ok_distinct: "pool_ok tp alls ids \<Longrightarrow> distinct alls \<and> distinct ids"
  by (auto simp: pool_ok_def dest: plist_distinct)

lemma pool_ok_idle_dom: "pool_ok tp alls ids \<Longrightarrow> set ids \<subseteq> dom (heap tp)"
  by (auto simp: pool_ok_def dest: plist_dom)

text \<open>An update of an object that leaves its links and its number alone.\<close>

lemma pool_ok_update:
  assumes "pool_ok tp alls ids" and "heap tp a = Some t"
    and "nb t' = nb t" "next_ptr t' = next_ptr t" "next_all t' = next_all t"
  shows "pool_ok (tp\<lparr>heap := (heap tp)(a \<mapsto> t')\<rparr>) alls ids"
proof -
  have "map (\<lambda>b. nb (the (((heap tp)(a \<mapsto> t')) b))) alls = map (\<lambda>b. nb (the (heap tp b))) alls"
    using assms(2,3) by simp
  then show ?thesis
    using assms by (auto simp: pool_ok_def plist_upd_same intro: grounded_upd_same simp del: map_eq_conv)
qed

lemma pool_ok_clear_sock:
  "pool_ok tp alls ids \<Longrightarrow> clear_sock a tp = Inr tp' \<Longrightarrow> pool_ok tp' alls ids"
  by (auto simp: clear_sock_def split: option.splits intro: pool_ok_update)

lemma pool_ok_assign_sock:
  "pool_ok tp alls ids \<Longrightarrow> assign_sock a sock tp = Inr tp' \<Longrightarrow> pool_ok tp' alls ids"
  by (auto simp: assign_sock_def split: option.splits intro: pool_ok_update)

lemma pool_ok_push_idle:
  assumes "pool_ok tp alls ids" and "push_idle a tp = Inr tp'" and "a \<notin> set ids"
  shows "pool_ok tp' alls (a # ids)"
proof -
  from assms(2) obtain t where t: "heap tp a = Some t"
    and tp': "tp' = tp\<lparr>heap := (heap tp)(a \<mapsto> t\<lparr>next_ptr := idle_threads tp\<rparr>), idle_threads := Some a\<rparr>"
    by (auto simp: push_idle_def split: option.splits)
  let ?h = "(heap tp)(a \<mapsto> t\<lparr>next_ptr := idle_threads tp\<rparr>)"
  have "map (\<lambda>b. nb (the (?h b))) alls = map (\<lambda>b. nb (the (heap tp b))) alls"
    using t by simp
  moreover have "grounded next_ptr ?h"
    using assms(1,3) t by (intro grounded_relink [where ys = ids]) (auto simp: pool_ok_def)
  ultimately show ?thesis
    using assms(1,3) t unfolding tp'
    by (auto simp: pool_ok_def plist_upd_same simp del: map_eq_conv)
qed

lemma pool_ok_pop_idle:
  assumes "pool_ok tp alls ids" and "pop_idle tp = Inr (a, tp')"
  shows "\<exists>ids'. ids = a # ids' \<and> pool_ok tp' alls ids' \<and> heap tp' = heap tp"
  using assms by (cases ids) (auto simp: pool_ok_def pop_idle_def split: option.splits)

lemma pool_ok_newThread:
  assumes "pool_ok tp alls ids" and "heap tp p = None"
  shows "pool_ok (snd (newThread p rc sock tp)) (p # alls) ids"
proof -
  have nb: "thread_nb tp = length alls" using assms(1) by (simp add: pool_ok_def)
  let ?t = "(ConnectionThread sock)
      \<lparr>nb := length alls, has_thread := (rc = 0), next_ptr := all_threads tp, next_all := all_threads tp\<rparr>"
  have fresh: "p \<notin> set alls" "p \<notin> set ids"
    using assms pool_ok_idle_dom by (auto simp: pool_ok_def)
  have "all_threads tp = None \<or> (\<exists>b \<in> dom (heap tp). all_threads tp = Some b)"
    using assms(1) by (cases alls) (auto simp: pool_ok_def split: option.splits)
  then have "grounded next_ptr ((heap tp)(p \<mapsto> ?t))"
    using assms by (intro grounded_new) (auto simp: pool_ok_def)
  moreover have "map (\<lambda>b. nb (the (((heap tp)(p \<mapsto> ?t)) b))) alls = map (\<lambda>b. nb (the (heap tp b))) alls"
    using fresh by simp
  moreover have "snd (newThread p rc sock tp) = tp\<lparr>heap := (heap tp)(p \<mapsto> ?t),
      all_threads := Some p, thread_nb := Suc (length alls)\<rparr>"
    by (simp add: newThread_def Let_def nb)
  ultimately show ?thesis
    using assms fresh by (auto simp: pool_ok_def simp del: map_eq_conv)
qed

section \<open>The statistics buffer\<close>

lemma serialize_plist:
  "plist next_all h p xs \<Longrightarrow> length xs \<le> i \<Longrightarrow> i \<le> length buf \<Longrightarrow>
   serializeThreadStats h p i buf =
     Some (Inr (take (i - length xs) buf @ rev (map (\<lambda>a. loadFrom (the (h a))) xs) @ drop i buf))"
proof (induction xs arbitrary: p i buf)
  case Nil
  then show ?case by (subst serializeThreadStats.simps) simp
next
  case (Cons a xs)
  then obtain t where t: "p = Some a" "h a = Some t" "plist next_all h (next_all t) xs"
    by (auto split: option.splits)
  obtain k where k: "i = Suc k" using Cons.prems(2) by (cases i) auto
  have "serializeThreadStats h p i buf = serializeThreadStats h (next_all t) k (buf[k := loadFrom t])"
    using t k Cons.prems(3) by (subst serializeThreadStats.simps) simp
  also have "\<dots> = Some (Inr (take (k - length xs) (buf[k := loadFrom t]) @
      rev (map (\<lambda>a. loadFrom (the (h a))) xs) @ drop k (buf[k := loadFrom t])))"
    using Cons.prems k by (intro Cons.IH [OF t(3)]) simp_all
  also have "drop k (buf[k := loadFrom t]) = loadFrom t # drop i buf"
    using Cons.prems(3) k by (simp add: drop_Suc_Cons drop_update_swap Cons_nth_drop_Suc [symmetric])
  finally show ?case
    using t k by simp
qed

lemma serialize_pool_ok:
  assumes "pool_ok tp alls ids"
  shows "serializeThreadStats (heap tp) (all_threads tp) (thread_nb tp)
      (replicate (thread_nb tp) zero_stat) =
    Some (Inr (map (\<lambda>a. loadFrom (the (heap tp a))) (rev alls)))"
  using assms serialize_plist [of "heap tp" "all_threads tp" alls "length alls"
      "replicate (length alls) zero_stat"]
  by (simp add: pool_ok_def rev_map)

lemma getThreadStatistics_pool_ok:
  assumes "pool_ok tp alls ids"
  shows "getThreadStatistics tp = Some (Inr (le32 (of_nat (20 * length alls)) @
    concat (map (\<lambda>a. stat_bytes (loadFrom (the (heap tp a)))) (rev alls))))"
  using assms serialize_pool_ok [OF assms]
  by (simp add: getThreadStatistics_def sizeof_ThreadStat_def pool_ok_def comp_def mult.commute)

lemma nb_rev_alls:
  assumes "pool_ok tp alls ids" and "i < length alls"
  shows "nb (the (heap tp (rev alls ! i))) = i"
proof -
  have "map (\<lambda>a. nb (the (heap tp a))) (rev alls) = [0..<length alls]"
    using assms(1) by (simp add: pool_ok_def rev_map [symmetric])
  then have "map (\<lambda>a. nb (the (heap tp a))) (rev alls) ! i = [0..<length alls] ! i" by simp
  with assms(2) show ?thesis by simp
qed

section \<open>The idle threads as a stack\<close>

text \<open>The list of all threads \<open>alls\<close> stays what it is while threads are released and reused.\<close>

definition idle_stack :: "nat list \<Rightarrow> thread_pool \<Rightarrow> nat list \<Rightarrow> bool" where
  "idle_stack alls tp ids \<longleftrightarrow> pool_ok tp alls ids"

lemma releaseThread_ok:
  assumes "pool_ok tp alls ids" and "a \<in> dom (heap tp)" and "a \<notin> set ids"
  shows "\<exists>tp'. releaseThread a tp = Inr tp' \<and> pool_ok tp' alls (a # ids) \<and>
    dom (heap tp') = dom (heap tp)"
proof -
  from assms(2) obtain t where t: "heap tp a = Some t" by auto
  then obtain tp1 where tp1: "clear_sock a tp = Inr tp1" "dom (heap tp1) = dom (heap tp)"
    by (auto simp: clear_sock_def)
  from tp1(2) assms(2) obtain t1 where "heap tp1 a = Some t1" by auto
  then obtain tp2 where tp2: "push_idle a tp1 = Inr tp2" "dom (heap tp2) = dom (heap tp1)"
    by (auto simp: push_idle_def)
  have "pool_ok tp2 alls (a # ids)"
    using pool_ok_push_idle [OF pool_ok_clear_sock [OF assms(1) tp1(1)] tp2(1) assms(3)] .
  with tp1 tp2 show ?thesis by (auto simp: releaseThread_def)
qed

lemma pop_idle_ok:
  assumes "pool_ok tp alls (a # ids)"
  shows "\<exists>tp'. pop_idle tp = Inr (a, tp') \<and> pool_ok tp' alls ids \<and> heap tp' = heap tp"
  using assms by (auto simp: pool_ok_def pop_idle_def split: option.splits)

lemma take_idle_ok:
  assumes "pool_ok tp alls (a # ids)"
  shows "\<exists>tp'. take_idle sock tp = Inr (a, tp') \<and> pool_ok tp' alls ids \<and>
    dom (heap tp') = dom (heap tp)"
proof -
  obtain tp1 where tp1: "pop_idle tp = Inr (a, tp1)" "pool_ok tp1 alls ids" "heap tp1 = heap tp"
    using pop_idle_ok [OF assms] by blast
  have a: "a \<in> dom (heap tp1)" using pool_ok_idle_dom [OF assms] tp1(3) by simp
  then obtain t where "heap tp1 a = Some t" by blast
  with a obtain tp2 where "assign_sock a sock tp1 = Inr tp2" "dom (heap tp2) = dom (heap tp1)"
    by (simp add: assign_sock_def insert_absorb)
  with tp1 pool_ok_assign_sock [OF tp1(2)] show ?thesis by (auto simp: take_idle_def)
qed

interpretation idle: lifo_stack releaseThread take_idle "idle_stack alls" "\<lambda>a tp. a \<in> dom (heap tp)"
  for alls
proof unfold_locales
  fix tp :: thread_pool and ids a
  assume "idle_stack alls tp ids" and "a \<in> dom (heap tp)" and "a \<notin> set ids"
  then show "\<exists>tp'. releaseThread a tp = Inr tp' \<and> idle_stack alls tp' (a # ids) \<and>
      (\<forall>b. (b \<in> dom (heap tp')) = (b \<in> dom (heap tp)))"
    unfolding idle_stack_def using releaseThread_ok by blast
next
  fix tp :: thread_pool and ids a sock
  assume "idle_stack alls tp (a # ids)"
  then show "\<exists>tp'. take_idle sock tp = Inr (a, tp') \<and> idle_stack alls tp' ids \<and>
      (\<forall>b. (b \<in> dom (heap tp')) = (b \<in> dom (heap tp)))"
    unfolding idle_stack_def using take_idle_ok by metis
qed

text \<open>The same runs over the pool's own operations.\<close>

fun release_all :: "nat list \<Rightarrow> thread_pool \<Rightarrow> fault + thread_pool" where
  "release_all [] tp = Inr tp"
| "release_all (a # as) tp = sbind (releaseThread a tp) (release_all as)"

fun reuse_all :: "int list \<Rightarrow> thread_pool \<Rightarrow> fault + ptr list \<times> thread_pool" where
  "reuse_all [] tp = Inr ([], tp)"
| "reuse_all (sock # socks) tp =
     sbind (reuseThread sock tp)
       (\<lambda>(p, tp). sbind (reuse_all socks tp) (\<lambda>(ps, tp). Inr (p # ps, tp)))"

lemma release_all_pushes: "release_all as tp = idle.pushes as tp"
  by (induction "as" arbitrary: tp) (auto simp: sbind_def split: sum.splits)

lemma reuse_all_pops: "idle.pops socks tp = Inr (as, tp') \<Longrightarrow> reuse_all socks tp = Inr (map Some as, tp')"
proof (induction socks arbitrary: tp "as")
  case Nil
  then show ?case by simp
next
  case (Cons sock socks)
  then obtain a tp1 bs where t: "take_idle sock tp = Inr (a, tp1)"
      "idle.pops socks tp1 = Inr (bs, tp')" "as = a # bs"
    by (auto simp: sbind_eq_Inr)
  then have "idle_threads tp \<noteq> None"
    by (auto simp: take_idle_def pop_idle_def sbind_eq_Inr split: option.splits)
  with t Cons.IH [OF t(2)] show ?case by (auto simp: reuseThread_def)
qed

text \<open>What reusing does to the objects.\<close>

lemma take_idle_heap:
  "take_idle sock tp = Inr (a, tp') \<Longrightarrow>
   client_sock (the (heap tp' a)) = sock \<and> (\<forall>b. b \<noteq> a \<longrightarrow> heap tp' b = heap tp b)"
  by (auto simp: take_idle_def pop_idle_def assign_sock_def sbind_eq_Inr split: option.splits)

lemma reuseThread_SomeD:
  "reuseThread sock tp = Inr (Some a, tp') \<Longrightarrow> take_idle sock tp = Inr (a, tp')"
  by (auto simp: reuseThread_def sbind_eq_Inr split: if_splits)

lemma reuse_all_socks:
  "reuse_all socks tp = Inr (map Some as, tp') \<Longrightarrow> distinct as \<Longrightarrow>
   map (\<lambda>a. client_sock (the (heap tp' a))) as = socks \<and> (\<forall>b. b \<notin> set as \<longrightarrow> heap tp' b = heap tp b)"
proof (induction socks arbitrary: tp "as")
  case Nil
  then show ?case by simp
next
  case (Cons sock socks)
  then obtain a tp1 bs where t: "reuseThread sock tp = Inr (Some a, tp1)"
      "reuse_all socks tp1 = Inr (map Some bs, tp')" "as = a # bs"
    by (auto simp: sbind_eq_Inr Cons_eq_map_conv)
  note h = take_idle_heap [OF reuseThread_SomeD [OF t(1)]]
  from Cons.IH [OF t(2)] Cons.prems(2) t(3)
  have "map (\<lambda>a. client_sock (the (heap tp' a))) bs = socks" "\<forall>b. b \<notin> set bs \<longrightarrow> heap tp' b = heap tp1 b"
    by simp_all
  with h Cons.prems(2) t(3) show ?case by simp
qed

end
