(* ===== verification/Pool_Machine.thy ===== *)
theory Pool_Machine
  imports Pool_Invariant
begin

text \<open>
  The threads of \<^verbatim>\<open>sawad\<close> around the pool: the accepting thread in \<open>Server::start\<close> and
  \<open>handleNewConnection\<close>, and one worker per \<open>ConnectionThread\<close> in \<open>connection_handler\<close>.  A step
  is one thread passing one point the others can observe: a critical section (its mutex makes it
  atomic), a store outside one, or a wait.  Any interleaving of steps is a run.
\<close>

section \<open>The machine\<close>

text \<open>
  Where the accepting thread is: in \<open>accept\<close>; at the unlocked test of \<open>reuseThread\<close>; about to take
  the lock there; about to store the socket in the thread it took; about to send \<open>SIGUSR1\<close>; in
  \<open>newThread\<close>; or stopped by a fault.
\<close>

datatype acceptor =
    A_accept | A_test int | A_pop int | A_assign int nat | A_wake nat | A_create int | A_fault fault

text \<open>
  Where a worker is: serving (\<open>readData\<close>, \<open>close\<close>); at the entry of \<open>releaseThread\<close>; about to take the
  lock there; after it, up to and including \<open>sigwait\<close>; or stopped by a fault.
\<close>

datatype worker = W_serve | W_release | W_push | W_wait | W_fault fault

text \<open>
  \<open>pending\<close> is the set of threads with a blocked \<open>SIGUSR1\<close>; \<open>duty\<close> records, for the statements
  only, the socket last handed to a thread.
\<close>

record machine =
  pool :: thread_pool
  acc :: acceptor
  work :: "nat \<rightharpoonup> worker"
  pending :: "nat set"
  duty :: "nat \<rightharpoonup> int"

definition init_machine :: machine where
  "init_machine =
     \<lparr>pool = \<lparr>heap = Map.empty, idle_threads = None, all_threads = None, thread_nb = 0\<rparr>,
      acc = A_accept, work = Map.empty, pending = {}, duty = Map.empty\<rparr>"

inductive machine_step :: "machine \<Rightarrow> machine \<Rightarrow> bool" where
  accept: "acc m = A_accept \<Longrightarrow> machine_step m (m\<lparr>acc := A_test sock\<rparr>)"
| test_empty: "acc m = A_test sock \<Longrightarrow> idle_threads (pool m) = None \<Longrightarrow>
     machine_step m (m\<lparr>acc := A_create sock\<rparr>)"
| test_idle: "acc m = A_test sock \<Longrightarrow> idle_threads (pool m) \<noteq> None \<Longrightarrow>
     machine_step m (m\<lparr>acc := A_pop sock\<rparr>)"
| pop: "acc m = A_pop sock \<Longrightarrow> pop_idle (pool m) = Inr (a, tp) \<Longrightarrow>
     machine_step m (m\<lparr>pool := tp, acc := A_assign sock a\<rparr>)"
| pop_fault: "acc m = A_pop sock \<Longrightarrow> pop_idle (pool m) = Inl e \<Longrightarrow>
     machine_step m (m\<lparr>acc := A_fault e\<rparr>)"
| assign: "acc m = A_assign sock a \<Longrightarrow> assign_sock a sock (pool m) = Inr tp \<Longrightarrow>
     machine_step m (m\<lparr>pool := tp, acc := A_wake a, duty := (duty m)(a \<mapsto> sock)\<rparr>)"
| assign_fault: "acc m = A_assign sock a \<Longrightarrow> assign_sock a sock (pool m) = Inl e \<Longrightarrow>
     machine_step m (m\<lparr>acc := A_fault e\<rparr>)"
| wake: "acc m = A_wake a \<Longrightarrow>
     machine_step m (m\<lparr>pending := insert a (pending m), acc := A_accept\<rparr>)"
| create: "acc m = A_create sock \<Longrightarrow> heap (pool m) p = None \<Longrightarrow>
     machine_step m (m\<lparr>pool := snd (newThread p 0 sock (pool m)), acc := A_accept,
        work := (work m)(p \<mapsto> W_serve), duty := (duty m)(p \<mapsto> sock)\<rparr>)"
| create_fails: "acc m = A_create sock \<Longrightarrow> heap (pool m) p = None \<Longrightarrow> rc \<noteq> 0 \<Longrightarrow>
     machine_step m (m\<lparr>pool := snd (newThread p rc sock (pool m)), acc := A_accept\<rparr>)"
| served: "work m a = Some W_serve \<Longrightarrow> machine_step m (m\<lparr>work := (work m)(a \<mapsto> W_release)\<rparr>)"
| clear: "work m a = Some W_release \<Longrightarrow> clear_sock a (pool m) = Inr tp \<Longrightarrow>
     machine_step m (m\<lparr>pool := tp, work := (work m)(a \<mapsto> W_push)\<rparr>)"
| clear_fault: "work m a = Some W_release \<Longrightarrow> clear_sock a (pool m) = Inl e \<Longrightarrow>
     machine_step m (m\<lparr>work := (work m)(a \<mapsto> W_fault e)\<rparr>)"
| push: "work m a = Some W_push \<Longrightarrow> push_idle a (pool m) = Inr tp \<Longrightarrow>
     machine_step m (m\<lparr>pool := tp, work := (work m)(a \<mapsto> W_wait)\<rparr>)"
| push_fault: "work m a = Some W_push \<Longrightarrow> push_idle a (pool m) = Inl e \<Longrightarrow>
     machine_step m (m\<lparr>work := (work m)(a \<mapsto> W_fault e)\<rparr>)"
| resume: "work m a = Some W_wait \<Longrightarrow> a \<in> pending m \<Longrightarrow>
     machine_step m (m\<lparr>pending := pending m - {a}, work := (work m)(a \<mapsto> W_serve)\<rparr>)"

inductive reachable :: "machine \<Rightarrow> bool" where
  start: "reachable init_machine"
| step: "reachable m \<Longrightarrow> machine_step m m' \<Longrightarrow> reachable m'"

section \<open>The invariant\<close>

definition sock_of :: "machine \<Rightarrow> nat \<Rightarrow> int" where
  "sock_of m a = client_sock (the (heap (pool m) a))"

text \<open>What the position of a worker says of its object.\<close>

fun worker_ok :: "machine \<Rightarrow> nat list \<Rightarrow> nat \<Rightarrow> worker \<Rightarrow> bool" where
  "worker_ok m ids a W_serve = (duty m a = Some (sock_of m a) \<and> a \<notin> set ids \<and> a \<notin> pending m)"
| "worker_ok m ids a W_release = (duty m a = Some (sock_of m a) \<and> a \<notin> set ids \<and> a \<notin> pending m)"
| "worker_ok m ids a W_push = (sock_of m a = -1 \<and> a \<notin> set ids \<and> a \<notin> pending m)"
| "worker_ok m ids a W_wait =
     (if a \<in> set ids then a \<notin> pending m \<and> sock_of m a = -1
      else if a \<in> pending m then duty m a = Some (sock_of m a)
      else (\<exists>sock. acc m = A_assign sock a) \<or> acc m = A_wake a \<and> duty m a = Some (sock_of m a))"
| "worker_ok m ids a (W_fault e) = False"

text \<open>What the position of the accepting thread says of the thread it holds.\<close>

fun acceptor_ok :: "machine \<Rightarrow> nat list \<Rightarrow> acceptor \<Rightarrow> bool" where
  "acceptor_ok m ids (A_pop sock) = (ids \<noteq> [])"
| "acceptor_ok m ids (A_assign sock a) = (work m a = Some W_wait \<and> a \<notin> set ids \<and> a \<notin> pending m)"
| "acceptor_ok m ids (A_wake a) = (work m a = Some W_wait \<and> a \<notin> set ids \<and> a \<notin> pending m)"
| "acceptor_ok m ids (A_fault e) = False"
| "acceptor_ok m ids _ = True"

definition machine_inv :: "machine \<Rightarrow> nat list \<Rightarrow> nat list \<Rightarrow> bool" where
  "machine_inv m alls ids \<longleftrightarrow>
     pool_ok (pool m) alls ids \<and> dom (work m) \<subseteq> dom (heap (pool m)) \<and>
     set ids \<subseteq> {a. work m a = Some W_wait} \<and> pending m \<subseteq> {a. work m a = Some W_wait} \<and>
     acceptor_ok m ids (acc m) \<and> (\<forall>a w. work m a = Some w \<longrightarrow> worker_ok m ids a w)"

lemma machine_inv_init: "machine_inv init_machine [] []"
  using pool_ok_empty by (simp add: machine_inv_def init_machine_def)

lemma machine_inv_pool: "machine_inv m alls ids \<Longrightarrow> pool_ok (pool m) alls ids"
  by (simp add: machine_inv_def)

lemma machine_inv_live: "machine_inv m alls ids \<Longrightarrow> work m a = Some w \<Longrightarrow> \<exists>t. heap (pool m) a = Some t"
  by (auto simp: machine_inv_def)

lemma idle_None_iff: "pool_ok tp alls ids \<Longrightarrow> idle_threads tp = None \<longleftrightarrow> ids = []"
  by (cases ids) (auto simp: pool_ok_def)

section \<open>Every step keeps it\<close>

text \<open>The state of a worker that a step of another thread leaves alone.\<close>

lemma worker_ok_cong:
  assumes "worker_ok m ids a w" and "duty m' a = duty m a" and "sock_of m' a = sock_of m a"
    and "a \<in> pending m' \<longleftrightarrow> a \<in> pending m" and "a \<in> set ids' \<longleftrightarrow> a \<in> set ids"
    and "w = W_wait \<Longrightarrow> a \<notin> set ids \<Longrightarrow> a \<notin> pending m \<Longrightarrow> acc m' = acc m"
  shows "worker_ok m' ids' a w"
  using assms by (cases w) (auto split: if_splits)

lemma machine_invI:
  assumes "pool_ok (pool m) alls ids" and "dom (work m) \<subseteq> dom (heap (pool m))"
    and "\<And>a. a \<in> set ids \<Longrightarrow> work m a = Some W_wait"
    and "\<And>a. a \<in> pending m \<Longrightarrow> work m a = Some W_wait"
    and "acceptor_ok m ids (acc m)" and "\<And>a w. work m a = Some w \<Longrightarrow> worker_ok m ids a w"
  shows "machine_inv m alls ids"
  using assms by (auto simp: machine_inv_def)

lemma machine_invD:
  assumes "machine_inv m alls ids"
  shows "pool_ok (pool m) alls ids" and "dom (work m) \<subseteq> dom (heap (pool m))"
    and "\<And>a. a \<in> set ids \<Longrightarrow> work m a = Some W_wait"
    and "\<And>a. a \<in> pending m \<Longrightarrow> work m a = Some W_wait"
    and "acceptor_ok m ids (acc m)" and "\<And>a w. work m a = Some w \<Longrightarrow> worker_ok m ids a w"
  using assms by (auto simp: machine_inv_def)

text \<open>Steps of the accepting thread that only move it, from a point where it holds no thread.\<close>

lemma inv_move_acceptor:
  assumes "machine_inv m alls ids" and "\<And>sock a. acc m \<noteq> A_assign sock a" "\<And>a. acc m \<noteq> A_wake a"
    and "acceptor_ok (m\<lparr>acc := c\<rparr>) ids c"
  shows "machine_inv (m\<lparr>acc := c\<rparr>) alls ids"
proof (rule machine_invI)
  fix a w assume "work (m\<lparr>acc := c\<rparr>) a = Some w"
  then have "worker_ok m ids a w" using assms(1) by (simp add: machine_invD)
  then show "worker_ok (m\<lparr>acc := c\<rparr>) ids a w"
    using assms(2,3) by (cases w) (auto simp: sock_of_def split: if_splits)
qed (use assms machine_invD [OF assms(1)] in auto)

lemma inv_pop:
  assumes inv: "machine_inv m alls ids" and "acc m = A_pop sock" and pop: "pop_idle (pool m) = Inr (a, tp)"
  shows "\<exists>ids'. machine_inv (m\<lparr>pool := tp, acc := A_assign sock a\<rparr>) alls ids'"
proof -
  note d = machine_invD [OF inv]
  obtain ids' where ids: "ids = a # ids'" and ok: "pool_ok tp alls ids'" and heap: "heap tp = heap (pool m)"
    using pool_ok_pop_idle [OF d(1) pop] by blast
  have a: "a \<notin> set ids'" using pool_ok_distinct [OF d(1)] ids by simp
  have wa: "work m a = Some W_wait" using d(3) ids by simp
  have pa: "a \<notin> pending m" using d(6) [OF wa] ids by simp
  have "machine_inv (m\<lparr>pool := tp, acc := A_assign sock a\<rparr>) alls ids'"
  proof (rule machine_invI)
    fix b w assume "work (m\<lparr>pool := tp, acc := A_assign sock a\<rparr>) b = Some w"
    then have w: "worker_ok m ids b w" "work m b = Some w" using d(6) by simp_all
    show "worker_ok (m\<lparr>pool := tp, acc := A_assign sock a\<rparr>) ids' b w"
    proof (cases "b = a")
      case True
      with w(2) wa a pa show ?thesis by simp
    next
      case False
      with w show ?thesis
        using assms(2) ids heap by (cases w) (auto simp: sock_of_def split: if_splits)
    qed
  qed (use d ids ok heap a wa pa in auto)
  then show ?thesis ..
qed

lemma inv_assign:
  assumes inv: "machine_inv m alls ids" and acc: "acc m = A_assign sock a"
    and upd: "assign_sock a sock (pool m) = Inr tp"
  shows "machine_inv (m\<lparr>pool := tp, acc := A_wake a, duty := (duty m)(a \<mapsto> sock)\<rparr>) alls ids"
    (is "machine_inv ?m alls ids")
proof -
  note d = machine_invD [OF inv]
  from upd obtain t where t: "heap (pool m) a = Some t" "heap tp = (heap (pool m))
      (a \<mapsto> t\<lparr>client_sock := sock, nb_connections := Suc (nb_connections t)\<rparr>)"
    by (auto simp: assign_sock_def split: option.splits)
  have held: "work m a = Some W_wait" "a \<notin> set ids" "a \<notin> pending m" using d(5) acc by simp_all
  show ?thesis
  proof (rule machine_invI)
    show "pool_ok (pool ?m) alls ids" using pool_ok_assign_sock [OF d(1) upd] by simp
    fix b w assume "work ?m b = Some w"
    then have w: "worker_ok m ids b w" "work m b = Some w" using d(6) by simp_all
    show "worker_ok ?m ids b w"
    proof (cases "b = a")
      case True
      with w(2) held t show ?thesis by (simp add: sock_of_def)
    next
      case False
      with w show ?thesis using acc t by (cases w) (auto simp: sock_of_def split: if_splits)
    qed
  qed (use d held t acc in auto)
qed

lemma inv_wake:
  assumes inv: "machine_inv m alls ids" and acc: "acc m = A_wake a"
  shows "machine_inv (m\<lparr>pending := insert a (pending m), acc := A_accept\<rparr>) alls ids"
    (is "machine_inv ?m alls ids")
proof -
  note d = machine_invD [OF inv]
  have held: "work m a = Some W_wait" "a \<notin> set ids" "a \<notin> pending m" using d(5) acc by simp_all
  show ?thesis
  proof (rule machine_invI)
    fix b w assume "work ?m b = Some w"
    then have w: "worker_ok m ids b w" "work m b = Some w" using d(6) by simp_all
    show "worker_ok ?m ids b w"
    proof (cases "b = a")
      case True
      with w held acc show ?thesis by (auto simp: sock_of_def)
    next
      case False
      with w show ?thesis using acc by (cases w) (auto simp: sock_of_def split: if_splits)
    qed
  qed (use d held in auto)
qed

lemma inv_create:
  assumes inv: "machine_inv m alls ids" and acc: "acc m = A_create sock"
    and fresh: "heap (pool m) p = None"
  shows "machine_inv (m\<lparr>pool := snd (newThread p rc sock (pool m)), acc := A_accept,
      work := (if rc = 0 then (work m)(p \<mapsto> W_serve) else work m),
      duty := (if rc = 0 then (duty m)(p \<mapsto> sock) else duty m)\<rparr>) (p # alls) ids"
    (is "machine_inv ?m _ ids")
proof -
  note d = machine_invD [OF inv]
  have pw: "work m p = None" using d(2) fresh by (auto simp: domIff subset_iff)
  have p: "work m p = None" "p \<notin> set ids" "p \<notin> pending m"
    using pw d(3) [of p] d(4) [of p] by auto
  have heap: "heap (snd (newThread p rc sock (pool m))) = (heap (pool m))(p \<mapsto> (ConnectionThread sock)
      \<lparr>nb := thread_nb (pool m), has_thread := (rc = 0), next_ptr := all_threads (pool m), next_all := all_threads (pool m)\<rparr>)"
    by (simp add: newThread_def Let_def)
  have sock: "sock_of ?m b = (if b = p then sock else sock_of m b)" for b
    by (simp add: sock_of_def heap ConnectionThread_def)
  show ?thesis
  proof (rule machine_invI)
    show "pool_ok (pool ?m) (p # alls) ids" using pool_ok_newThread [OF d(1) fresh] by simp
    show "dom (work ?m) \<subseteq> dom (heap (pool ?m))" using d(2) by (auto simp: heap)
    fix b w assume b: "work ?m b = Some w"
    show "worker_ok ?m ids b w"
    proof (cases "b = p")
      case True
      with b p sock show ?thesis by (auto split: if_splits)
    next
      case False
      with b have "worker_ok m ids b w" using d(6) by (auto split: if_splits)
      with False show ?thesis using acc sock by (cases w) (auto split: if_splits)
    qed
  qed (use d p in \<open>auto split: if_splits\<close>)
qed

lemma inv_served:
  assumes inv: "machine_inv m alls ids" and wa: "work m a = Some W_serve"
  shows "machine_inv (m\<lparr>work := (work m)(a \<mapsto> W_release)\<rparr>) alls ids" (is "machine_inv ?m alls ids")
proof -
  note d = machine_invD [OF inv]
  have a: "duty m a = Some (sock_of m a)" "a \<notin> set ids" "a \<notin> pending m" using d(6) [OF wa] by simp_all
  show ?thesis
  proof (rule machine_invI)
    show "acceptor_ok ?m ids (acc ?m)" using d(5) wa by (cases "acc m") auto
    fix b w assume b: "work ?m b = Some w"
    show "worker_ok ?m ids b w"
    proof (cases "b = a")
      case True
      with b a show ?thesis by (simp add: sock_of_def)
    next
      case False
      with b have "worker_ok m ids b w" using d(6) by simp
      then show ?thesis by (rule worker_ok_cong) (simp_all add: sock_of_def)
    qed
  qed (use d a wa in auto)
qed

text \<open>The three steps of a worker that change its object or the idle list.\<close>

lemma inv_worker_pool:
  assumes inv: "machine_inv m alls ids" and wa: "work m a = Some w0" and "w0 \<noteq> W_wait"
    and ok: "pool_ok tp alls ids'" and ids': "\<And>b. b \<noteq> a \<Longrightarrow> b \<in> set ids' \<longleftrightarrow> b \<in> set ids"
    and idsa: "a \<in> set ids' \<Longrightarrow> w1 = W_wait" and ne: "ids \<noteq> [] \<Longrightarrow> ids' \<noteq> []"
    and dom: "dom (heap tp) = dom (heap (pool m))"
    and socks: "\<And>b. b \<noteq> a \<Longrightarrow> client_sock (the (heap tp b)) = client_sock (the (heap (pool m) b))"
    and w1: "worker_ok (m\<lparr>pool := tp, work := (work m)(a \<mapsto> w1)\<rparr>) ids' a w1"
  shows "machine_inv (m\<lparr>pool := tp, work := (work m)(a \<mapsto> w1)\<rparr>) alls ids'" (is "machine_inv ?m alls ids'")
proof -
  note d = machine_invD [OF inv]
  have a: "a \<notin> pending m" using d(4) wa assms(3) by auto
  show ?thesis
  proof (rule machine_invI)
    show "pool_ok (pool ?m) alls ids'" using ok by simp
    show "dom (work ?m) \<subseteq> dom (heap (pool ?m))" using d(2) dom wa by auto
    show "work ?m b = Some W_wait" if "b \<in> set ids'" for b
      using that d(3) ids' idsa by (cases "b = a") auto
    show "work ?m b = Some W_wait" if "b \<in> pending ?m" for b
      using that d(4) a by auto
    show "acceptor_ok ?m ids' (acc ?m)"
      using d(5) wa assms(3) ids' ne by (cases "acc m") auto
    fix b w assume b: "work ?m b = Some w"
    show "worker_ok ?m ids' b w"
    proof (cases "b = a")
      case True
      with b w1 show ?thesis by simp
    next
      case False
      with b have "worker_ok m ids b w" using d(6) by simp
      then show ?thesis
        by (rule worker_ok_cong) (use False ids' socks in \<open>simp_all add: sock_of_def\<close>)
    qed
  qed
qed

lemma inv_clear:
  assumes inv: "machine_inv m alls ids" and wa: "work m a = Some W_release"
    and upd: "clear_sock a (pool m) = Inr tp"
  shows "machine_inv (m\<lparr>pool := tp, work := (work m)(a \<mapsto> W_push)\<rparr>) alls ids"
proof -
  note d = machine_invD [OF inv]
  from upd obtain t where t: "heap (pool m) a = Some t"
      "heap tp = (heap (pool m))(a \<mapsto> t\<lparr>client_sock := -1\<rparr>)"
    by (auto simp: clear_sock_def split: option.splits)
  show ?thesis
    by (rule inv_worker_pool [OF inv wa])
      (use d(6) [OF wa] t pool_ok_clear_sock [OF d(1) upd] in \<open>auto simp: sock_of_def\<close>)
qed

lemma inv_push:
  assumes inv: "machine_inv m alls ids" and wa: "work m a = Some W_push"
    and upd: "push_idle a (pool m) = Inr tp"
  shows "machine_inv (m\<lparr>pool := tp, work := (work m)(a \<mapsto> W_wait)\<rparr>) alls (a # ids)"
proof -
  note d = machine_invD [OF inv]
  from upd obtain t where t: "heap (pool m) a = Some t"
      "heap tp = (heap (pool m))(a \<mapsto> t\<lparr>next_ptr := idle_threads (pool m)\<rparr>)"
    by (auto simp: push_idle_def split: option.splits)
  have a: "sock_of m a = -1" "a \<notin> set ids" "a \<notin> pending m" using d(6) [OF wa] by simp_all
  show ?thesis
    by (rule inv_worker_pool [OF inv wa])
      (use a t pool_ok_push_idle [OF d(1) upd] in \<open>auto simp: sock_of_def\<close>)
qed

lemma inv_resume:
  assumes inv: "machine_inv m alls ids" and wa: "work m a = Some W_wait" and pa: "a \<in> pending m"
  shows "machine_inv (m\<lparr>pending := pending m - {a}, work := (work m)(a \<mapsto> W_serve)\<rparr>) alls ids"
    (is "machine_inv ?m alls ids")
proof -
  note d = machine_invD [OF inv]
  have a: "a \<notin> set ids" "duty m a = Some (sock_of m a)"
    using d(6) [OF wa] pa by (auto split: if_splits)
  show ?thesis
  proof (rule machine_invI)
    show "acceptor_ok ?m ids (acc ?m)" using d(5) pa by (cases "acc m") auto
    show "work ?m b = Some W_wait" if "b \<in> set ids" for b using that d(3) a by auto
    show "dom (work ?m) \<subseteq> dom (heap (pool ?m))" using d(2) wa by auto
    fix b w assume b: "work ?m b = Some w"
    show "worker_ok ?m ids b w"
    proof (cases "b = a")
      case True
      with b a show ?thesis by (simp add: sock_of_def)
    next
      case False
      with b have "worker_ok m ids b w" using d(6) by simp
      then show ?thesis by (rule worker_ok_cong) (use False in \<open>simp_all add: sock_of_def\<close>)
    qed
  qed (use d in auto)
qed

text \<open>The faults need a null or dangling pointer, which the invariant excludes.\<close>

lemma no_pop_fault:
  assumes "machine_inv m alls ids" and "acc m = A_pop sock"
  shows "pop_idle (pool m) \<noteq> Inl e"
  using machine_invD(1,5) [OF assms(1)] assms(2)
  by (cases ids) (auto simp: pop_idle_def pool_ok_def split: option.splits)

lemma no_object_fault:
  assumes "machine_inv m alls ids" and "work m a = Some w"
  shows "clear_sock a (pool m) \<noteq> Inl e" and "push_idle a (pool m) \<noteq> Inl e"
    and "assign_sock a sock (pool m) \<noteq> Inl e"
  using machine_inv_live [OF assms] by (auto simp: clear_sock_def push_idle_def assign_sock_def)

lemma machine_step_inv:
  "machine_step m m' \<Longrightarrow> machine_inv m alls ids \<Longrightarrow> \<exists>alls' ids'. machine_inv m' alls' ids'"
proof (induction rule: machine_step.induct)
  case (accept m sock)
  then have "machine_inv (m\<lparr>acc := A_test sock\<rparr>) alls ids" by (intro inv_move_acceptor) auto
  then show ?case by blast
next
  case (test_empty m sock)
  then have "machine_inv (m\<lparr>acc := A_create sock\<rparr>) alls ids" by (intro inv_move_acceptor) auto
  then show ?case by blast
next
  case (test_idle m sock)
  then have "ids \<noteq> []" using idle_None_iff [OF machine_inv_pool [OF test_idle(3)]] test_idle(2) by simp
  with test_idle have "machine_inv (m\<lparr>acc := A_pop sock\<rparr>) alls ids" by (intro inv_move_acceptor) auto
  then show ?case by blast
next
  case (pop m sock a tp)
  then show ?case using inv_pop by blast
next
  case (pop_fault m sock e)
  then show ?case using no_pop_fault by blast
next
  case (assign m sock a tp)
  then show ?case using inv_assign by blast
next
  case (assign_fault m sock a e)
  then show ?case using no_object_fault(3) machine_invD(5) by (metis acceptor_ok.simps(2))
next
  case (wake m a)
  then show ?case using inv_wake by blast
next
  case (create m sock p)
  then show ?case using inv_create [of m alls ids sock p 0] by auto
next
  case (create_fails m sock p rc)
  then show ?case using inv_create [of m alls ids sock p rc] by auto
next
  case (served m a)
  then show ?case using inv_served by blast
next
  case (clear m a tp)
  then show ?case using inv_clear by blast
next
  case (clear_fault m a e)
  then show ?case using no_object_fault(1) by blast
next
  case (push m a tp)
  then show ?case using inv_push by blast
next
  case (push_fault m a e)
  then show ?case using no_object_fault(2) by blast
next
  case (resume m a)
  then show ?case using inv_resume by blast
qed

lemma reachable_inv: "reachable m \<Longrightarrow> \<exists>alls ids. machine_inv m alls ids"
proof (induction rule: reachable.induct)
  case start
  show ?case using machine_inv_init by blast
next
  case (step m m')
  then show ?case using machine_step_inv by blast
qed

end
