(* ===== verification/Pool_Claims.thy ===== *)
theory Pool_Claims
  imports Pool_Machine
begin

text \<open>
  What the invariant of the machine says of every reachable state of the server's threads: no
  access to a missing object, no lost wake-up, no socket served by the wrong thread; what the
  statistics and the destructor see; the idle threads as a stack.
\<close>

section \<open>Runs of several steps\<close>

text \<open>A connection accepted when no thread is idle.\<close>

lemma reachable_new_connection:
  assumes m: "reachable m" and "acc m = A_accept" and "idle_threads (pool m) = None"
    and fresh: "heap (pool m) p = None"
  shows "reachable (m\<lparr>pool := snd (newThread p 0 sock (pool m)), work := (work m)(p \<mapsto> W_serve),
    duty := (duty m)(p \<mapsto> sock)\<rparr>)"
proof -
  have 1: "reachable (m\<lparr>acc := A_test sock\<rparr>)"
    using reachable.step [OF m machine_step.accept] assms(2) by blast
  have 2: "reachable (m\<lparr>acc := A_create sock\<rparr>)"
    using reachable.step [OF 1 machine_step.test_empty [of _ sock]] assms(3) by simp
  show ?thesis
    using reachable.step [OF 2 machine_step.create [of _ sock p]] assms(2) fresh by (cases m) simp
qed

text \<open>A connection that ends.\<close>

lemma reachable_release:
  assumes m: "reachable m" and serve: "work m a = Some W_serve"
    and rel: "releaseThread a (pool m) = Inr tp"
  shows "reachable (m\<lparr>pool := tp, work := (work m)(a \<mapsto> W_wait)\<rparr>)"
proof -
  obtain tp1 where tp1: "clear_sock a (pool m) = Inr tp1" "push_idle a tp1 = Inr tp"
    using rel by (auto simp: releaseThread_def sbind_eq_Inr)
  have 1: "reachable (m\<lparr>work := (work m)(a \<mapsto> W_release)\<rparr>)"
    using reachable.step [OF m machine_step.served [of _ a]] serve by simp
  have 2: "reachable (m\<lparr>pool := tp1, work := (work m)(a \<mapsto> W_push)\<rparr>)"
    using reachable.step [OF 1 machine_step.clear [of _ a tp1]] tp1 by simp
  show ?thesis
    using reachable.step [OF 2 machine_step.push [of _ a tp]] tp1 by simp
qed

text \<open>One thread serving its first connection; and the state after that connection.\<close>

definition one_thread :: machine where
  "one_thread = init_machine\<lparr>pool := snd (newThread 1 0 5 (pool init_machine)),
     work := [1 \<mapsto> W_serve], duty := [1 \<mapsto> 5]\<rparr>"

definition one_idle :: machine where
  "one_idle = one_thread\<lparr>pool := projr (releaseThread 1 (pool one_thread)), work := [1 \<mapsto> W_wait]\<rparr>"

lemma reachable_one_thread: "reachable one_thread"
  using reachable_new_connection [OF reachable.start, of 1 5]
  by (simp add: one_thread_def init_machine_def)

lemma release_one_thread: "releaseThread 1 (pool one_thread) = Inr (pool one_idle)"
  by (simp add: one_idle_def one_thread_def init_machine_def newThread_def releaseThread_def
      clear_sock_def push_idle_def)

lemma reachable_one_idle: "reachable one_idle"
  using reachable_release [OF reachable_one_thread, of 1] release_one_thread
  by (simp add: one_idle_def one_thread_def)

section \<open>Every reachable state\<close>

text \<open>
  C2: In every interleaving of the accepting thread and the workers, no thread follows a null or
  dangling pointer, and a worker that serves a connection serves the socket it was last handed.
\<close>

theorem threads_never_fault:
  assumes "reachable m"
  shows "(\<forall>e. acc m \<noteq> A_fault e) \<and> (\<forall>a e. work m a \<noteq> Some (W_fault e)) \<and>
    (\<forall>a. work m a = Some W_serve \<longrightarrow>
       (\<exists>t. heap (pool m) a = Some t \<and> duty m a = Some (client_sock t)))"
proof -
  obtain alls ids where inv: "machine_inv m alls ids" using reachable_inv [OF assms] by blast
  note d = machine_invD [OF inv]
  have "\<exists>t. heap (pool m) a = Some t \<and> duty m a = Some (client_sock t)"
    if "work m a = Some W_serve" for a
    using d(6) [OF that] machine_inv_live [OF inv that] by (auto simp: sock_of_def)
  moreover have "acc m \<noteq> A_fault e" for e using d(5) by auto
  moreover have "work m a \<noteq> Some (W_fault e)" for a e using d(6) [of a "W_fault e"] by auto
  ultimately show ?thesis by blast
qed

lemma threads_never_fault_witness:
  "\<exists>t. heap (pool one_thread) 1 = Some t \<and> duty one_thread 1 = Some (client_sock t)"
proof -
  have "work one_thread 1 = Some W_serve" by (simp add: one_thread_def)
  with threads_never_fault [OF reachable_one_thread] show ?thesis by blast
qed

text \<open>
  C3: No wake-up is lost.  A thread blocked in \<open>sigwait\<close> is in exactly one of three places: on the
  idle list with its socket cleared; taken off it by the accepting thread, which still has to store
  the socket or send the signal; or signalled with the socket in place, and then it can resume.
\<close>

theorem no_lost_wakeup:
  assumes "reachable m" and "work m a = Some W_wait"
  shows "\<exists>ids. plist next_ptr (heap (pool m)) (idle_threads (pool m)) ids \<and>
    (if a \<in> set ids then a \<notin> pending m \<and> client_sock (the (heap (pool m) a)) = -1
     else if a \<in> pending m then
       duty m a = Some (client_sock (the (heap (pool m) a))) \<and>
       (\<exists>m'. machine_step m m' \<and> work m' a = Some W_serve)
     else (\<exists>sock. acc m = A_assign sock a) \<or> acc m = A_wake a)"
proof -
  obtain alls ids where inv: "machine_inv m alls ids" using reachable_inv [OF assms(1)] by blast
  have "worker_ok m ids a W_wait" using machine_invD(6) [OF inv] assms(2) by blast
  moreover have "\<exists>m'. machine_step m m' \<and> work m' a = Some W_serve" if "a \<in> pending m"
    using machine_step.resume [OF assms(2) that] by fastforce
  moreover have "plist next_ptr (heap (pool m)) (idle_threads (pool m)) ids"
    using machine_inv_pool [OF inv] by (simp add: pool_ok_def)
  ultimately show ?thesis by (auto simp: sock_of_def split: if_splits)
qed

lemma no_lost_wakeup_witness:
  "\<exists>ids. plist next_ptr (heap (pool one_idle)) (idle_threads (pool one_idle)) ids \<and> 1 \<in> set ids"
  using no_lost_wakeup [OF reachable_one_idle, of 1]
  by (auto simp: one_idle_def one_thread_def init_machine_def newThread_def releaseThread_def
      clear_sock_def push_idle_def split: if_splits)

section \<open>Statistics and shutting down\<close>

text \<open>
  C15: In every reachable state \<open>getThreadStatistics\<close> ends without a fault, and its buffer holds
  the size and then one entry per thread ever created, entry \<open>i\<close> being that of thread number \<open>i\<close>.
\<close>

theorem statistics_in_order:
  assumes "reachable m"
  shows "\<exists>addrs. getThreadStatistics (pool m) =
      Some (Inr (le32 (of_nat (20 * thread_nb (pool m))) @
        concat (map (\<lambda>a. stat_bytes (loadFrom (the (heap (pool m) a)))) addrs))) \<and>
    set addrs = dom (heap (pool m)) \<and> distinct addrs \<and> length addrs = thread_nb (pool m) \<and>
    map (\<lambda>a. nb (the (heap (pool m) a))) addrs = [0..<thread_nb (pool m)]"
proof -
  obtain alls ids where "machine_inv m alls ids" using reachable_inv [OF assms] by blast
  then have ok: "pool_ok (pool m) alls ids" by (rule machine_inv_pool)
  then have "map (\<lambda>a. nb (the (heap (pool m) a))) (rev alls) = [0..<length alls]"
    by (simp add: pool_ok_def rev_map [symmetric])
  then show ?thesis
    using getThreadStatistics_pool_ok [OF ok] pool_ok_distinct [OF ok] ok
    by (intro exI [of _ "rev alls"]) (simp add: pool_ok_def)
qed

lemma statistics_in_order_witness: "\<exists>b. getThreadStatistics (pool one_idle) = Some (Inr b)"
  using statistics_in_order [OF reachable_one_idle] by blast

text \<open>An object of the pool has the handle of a thread exactly when its thread runs.\<close>

lemma step_handles:
  "machine_step m m' \<Longrightarrow> dom (work m) \<subseteq> dom (heap (pool m)) \<Longrightarrow>
   (\<And>a t. heap (pool m) a = Some t \<Longrightarrow> has_thread t \<longleftrightarrow> a \<in> dom (work m)) \<Longrightarrow>
   heap (pool m') a = Some t \<Longrightarrow> has_thread t \<longleftrightarrow> a \<in> dom (work m')"
  by (induction rule: machine_step.induct)
    (auto simp: pop_idle_def assign_sock_def clear_sock_def push_idle_def newThread_def Let_def
      ConnectionThread_def split: option.splits if_splits)

lemma reachable_handles:
  "reachable m \<Longrightarrow> heap (pool m) a = Some t \<Longrightarrow> has_thread t \<longleftrightarrow> a \<in> dom (work m)"
proof (induction arbitrary: a t rule: reachable.induct)
  case start
  then show ?case by (simp add: init_machine_def)
next
  case (step m m')
  obtain alls ids where "machine_inv m alls ids" using reachable_inv [OF step.hyps(1)] by blast
  then have "dom (work m) \<subseteq> dom (heap (pool m))" by (rule machine_invD)
  from step_handles [OF step.hyps(2) this step.IH step.prems] show ?case by blast
qed

text \<open>The object at the head of \<open>all_threads\<close> is the one created last.\<close>

lemma pool_ok_newest:
  assumes "pool_ok tp alls ids" and "0 < thread_nb tp"
  shows "\<exists>a t. all_threads tp = Some a \<and> heap tp a = Some t \<and> nb t = thread_nb tp - 1"
  using assms by (cases alls) (auto simp: pool_ok_def split: option.splits)

text \<open>
  C19: Stopping a server that has ever served a connection does not shut it down in order.  In every
  reachable state of the machine (between its steps), with the default action of \<open>SIGALRM\<close>: if no
  connection was ever accepted, the destructor of the pool returns; otherwise, if the thread of the
  connection object created last runs, the whole process is ended by the signal sent to it, with
  every socket still open and every object still there, however many connections are being served;
  and if that thread could not be created, the destructor passes an uninitialised handle to
  \<open>pthread_detach\<close>.
\<close>

theorem destructor_kills_process:
  assumes "reachable m"
  shows "if thread_nb (pool m) = 0 then destroy_pool (pool m) = Inr Pool_deleted
    else \<exists>a t. heap (pool m) a = Some t \<and> nb t = thread_nb (pool m) - 1 \<and>
      destroy_pool (pool m) = (if a \<in> dom (work m) then Inr (Process_killed a) else Inl Uninitialised)"
proof -
  obtain alls ids where "machine_inv m alls ids" using reachable_inv [OF assms] by blast
  then have ok: "pool_ok (pool m) alls ids" by (rule machine_inv_pool)
  show ?thesis
  proof (cases "thread_nb (pool m) = 0")
    case True
    with ok show ?thesis by (auto simp: pool_ok_def destroy_pool_def)
  next
    case False
    then obtain a t where a: "all_threads (pool m) = Some a" "heap (pool m) a = Some t"
        "nb t = thread_nb (pool m) - 1"
      using pool_ok_newest [OF ok] by blast
    moreover have "destroy_pool (pool m) =
        (if a \<in> dom (work m) then Inr (Process_killed a) else Inl Uninitialised)"
      using a reachable_handles [OF assms a(2)] by (simp add: destroy_pool_def)
    ultimately show ?thesis using False by auto
  qed
qed

text \<open>Two connections being served.\<close>

definition two_threads :: machine where
  "two_threads = one_thread\<lparr>pool := snd (newThread 2 0 6 (pool one_thread)),
     work := [1 \<mapsto> W_serve, 2 \<mapsto> W_serve], duty := [1 \<mapsto> 5, 2 \<mapsto> 6]\<rparr>"

lemma reachable_two_threads: "reachable two_threads"
  using reachable_new_connection [OF reachable_one_thread, of 2 6]
  by (simp add: two_threads_def one_thread_def init_machine_def newThread_def)

lemma destructor_kills_process_witness:
  "destroy_pool (pool init_machine) = Inr Pool_deleted \<and>
   (\<exists>a. destroy_pool (pool two_threads) = Inr (Process_killed a) \<and>
      work two_threads a = Some W_serve)"
proof -
  have "destroy_pool (pool init_machine) = Inr Pool_deleted"
    using destructor_kills_process [OF reachable.start] by (simp add: init_machine_def)
  moreover have "thread_nb (pool two_threads) = 2" "dom (heap (pool two_threads)) = {1, 2}"
      "dom (work two_threads) = {1, 2}" "ran (work two_threads) = {W_serve}"
    by (auto simp: two_threads_def one_thread_def init_machine_def newThread_def ran_def)
  moreover from this obtain a t where "heap (pool two_threads) a = Some t"
      "destroy_pool (pool two_threads) =
        (if a \<in> dom (work two_threads) then Inr (Process_killed a) else Inl Uninitialised)"
    using destructor_kills_process [OF reachable_two_threads] by (auto simp del: One_nat_def)
  ultimately show ?thesis
    by (auto simp: two_threads_def)
qed

section \<open>The idle threads are a stack\<close>

text \<open>
  C20: Threads are reused last in, first out: releasing the threads of a list and then taking as many
  connections gives each connection, in order, the most recently released thread still idle, with its
  socket in place.  It creates no thread: the number of threads, the list of all threads and the
  set of objects are what they were, and the threads that were idle before are idle again.
\<close>

theorem reuse_is_lifo:
  assumes "pool_ok tp alls ids" and "set as \<subseteq> dom (heap tp)" and "distinct (rev as @ ids)"
    and "length socks = length as"
  shows "\<exists>tp' tp''. release_all as tp = Inr tp' \<and>
    reuse_all socks tp' = Inr (map Some (rev as), tp'') \<and> pool_ok tp'' alls ids \<and>
    thread_nb tp'' = thread_nb tp \<and> all_threads tp'' = all_threads tp \<and>
    dom (heap tp'') = dom (heap tp) \<and>
    map (\<lambda>a. client_sock (the (heap tp'' a))) (rev as) = socks"
proof -
  have "idle_stack alls tp ids" using assms(1) by (simp add: idle_stack_def)
  then obtain tp' tp'' where r: "release_all as tp = Inr tp'"
      "reuse_all socks tp' = Inr (map Some (rev as), tp'')" "pool_ok tp'' alls ids"
    using idle.last_in_first_out [of alls tp ids "as" socks] assms(2-4) reuse_all_pops
    by (auto simp: release_all_pushes idle_stack_def list_all_iff subset_iff)
  moreover have "all_threads tp'' = all_threads tp" "dom (heap tp'') = dom (heap tp)"
      "thread_nb tp'' = thread_nb tp"
    using r(3) assms(1) by (cases alls; simp add: pool_ok_def)+
  moreover have "map (\<lambda>a. client_sock (the (heap tp'' a))) (rev as) = socks"
    using reuse_all_socks [OF r(2)] assms(3,4) by simp
  ultimately show ?thesis by blast
qed

lemma reuse_is_lifo_witness:
  "\<exists>tp' tp''. release_all [1] (pool one_thread) = Inr tp' \<and>
     reuse_all [9] tp' = Inr ([Some 1], tp'') \<and> thread_nb tp'' = 1 \<and> client_sock (the (heap tp'' 1)) = 9"
proof -
  have "pool_ok (pool one_thread) [1] []"
    by (auto simp: pool_ok_def one_thread_def init_machine_def newThread_def ConnectionThread_def
        grounded_def plist_Some)
  then obtain tp' tp'' where "release_all [1] (pool one_thread) = Inr tp'"
      "reuse_all [9] tp' = Inr (map Some (rev [1]), tp'')" "thread_nb tp'' = thread_nb (pool one_thread)"
      "map (\<lambda>a. client_sock (the (heap tp'' a))) (rev [1]) = [9]"
    using reuse_is_lifo [of "pool one_thread" "[1]" "[]" "[1]" "[9]"]
    by (auto simp: one_thread_def init_machine_def newThread_def)
  moreover have "thread_nb (pool one_thread) = 1"
    by (simp add: one_thread_def init_machine_def newThread_def)
  ultimately show ?thesis by auto
qed

section \<open>A thread that could not be created\<close>

text \<open>An object without a worker: it stays so, and keeps its socket.\<close>

lemma step_orphan:
  "machine_step m m' \<Longrightarrow> machine_inv m alls ids \<Longrightarrow> work m p = None \<Longrightarrow> heap (pool m) p = Some t \<Longrightarrow>
   work m' p = None \<and> (\<exists>t'. heap (pool m') p = Some t' \<and> client_sock t' = client_sock t)"
  by (induction rule: machine_step.induct)
    (auto simp: machine_inv_def pop_idle_def assign_sock_def clear_sock_def push_idle_def
      newThread_def Let_def split: option.splits if_splits)

lemma run_orphan:
  assumes "machine_step\<^sup>*\<^sup>* m m'" and "reachable m" and "work m p = None" and "heap (pool m) p = Some t"
  shows "reachable m' \<and> work m' p = None \<and>
    (\<exists>t'. heap (pool m') p = Some t' \<and> client_sock t' = client_sock t)"
  using assms
proof (induction rule: rtranclp_induct)
  case base
  then show ?case by simp
next
  case (step m1 m2)
  then obtain t1 where t1: "reachable m1" "work m1 p = None" "heap (pool m1) p = Some t1"
      "client_sock t1 = client_sock t" by blast
  obtain alls ids where "machine_inv m1 alls ids" using reachable_inv [OF t1(1)] by blast
  from step_orphan [OF step.hyps(2) this t1(2,3)] t1 step.hyps(2) show ?case
    by (auto intro: reachable.step)
qed

text \<open>
  \<open>pthread_create\<close> reports failure with a positive code, and \<open>newThread\<close> tests for a negative
  one: the call counts as a success, and in every run from there the connection keeps its open
  socket in the pool and is never served.
\<close>

theorem failed_create_never_served:
  assumes "reachable m" and "acc m = A_create sock" and "heap (pool m) p = None" and "0 < rc"
  shows "fst (newThread p rc sock (pool m)) = Some p \<and>
    (\<forall>m'. machine_step\<^sup>*\<^sup>* (m\<lparr>pool := snd (newThread p rc sock (pool m)), acc := A_accept\<rparr>) m' \<longrightarrow>
       work m' p = None \<and> (\<exists>t. heap (pool m') p = Some t \<and> client_sock t = sock))"
proof -
  let ?m = "m\<lparr>pool := snd (newThread p rc sock (pool m)), acc := A_accept\<rparr>"
  have r: "reachable ?m"
    using reachable.step [OF assms(1) machine_step.create_fails [OF assms(2,3)]] assms(4) by simp
  obtain alls ids where "machine_inv m alls ids" using reachable_inv [OF assms(1)] by blast
  then have "work ?m p = None" using assms(3) by (auto simp: machine_inv_def domIff)
  moreover obtain t where "heap (pool ?m) p = Some t" "client_sock t = sock"
    using assms(4) by (simp add: newThread_def Let_def ConnectionThread_def)
  ultimately have "\<forall>m'. machine_step\<^sup>*\<^sup>* ?m m' \<longrightarrow>
      work m' p = None \<and> (\<exists>t. heap (pool m') p = Some t \<and> client_sock t = sock)"
    using run_orphan r by metis
  with assms(4) show ?thesis by (simp add: newThread_def Let_def)
qed

lemma failed_create_never_served_witness:
  "\<exists>m. reachable m \<and> fst (newThread 1 11 5 (pool m)) = Some 1"
proof -
  have 1: "reachable (init_machine\<lparr>acc := A_test 5\<rparr>)"
    using reachable.step [OF reachable.start machine_step.accept] by (simp add: init_machine_def)
  have 2: "reachable (init_machine\<lparr>acc := A_create 5\<rparr>)"
    using reachable.step [OF 1 machine_step.test_empty [of _ 5]] by (simp add: init_machine_def)
  show ?thesis
    using failed_create_never_served [OF 2, of 5 1 11] 2 by (auto simp: init_machine_def)
qed

end
