(* ===== verification/Sawa_Admin.thy ===== *)
theory Sawa_Admin
  imports Posix Wire Pool_Invariant
begin

text \<open>
  \<^verbatim>\<open>server/sawa_admin.cpp\<close>: the administrative connection, which reports the statistics of the
  pool and stops the server.  Its state is the pool it reports on, the bytes sent on the
  connection, and the allocator.
\<close>

record admin_state =
  a_pool :: thread_pool
  a_tx :: "byte list"
  a_allocs :: nat
  a_junk :: "nat \<Rightarrow> nat \<Rightarrow> byte"

text \<open>
  The process goes on; it has ended with \<open>exit(0)\<close>; it was ended by the signal the destructor of the
  pool sends; or the handler ran into a fault.
\<close>

datatype admin_result = Running admin_state | Exited | Killed | Crashed fault

text \<open>
  The pool operations are partial functions over the heap; \<open>None\<close> is a walk that does not end.
  \<open>*buffer_size\<close> bytes are sent from the start of a buffer that holds the size itself and then
  that many bytes.
\<close>

definition statCommand :: "admin_state \<Rightarrow> admin_result option" where
  "statCommand s =
     map_option (\<lambda>r. case r of
        Inl e \<Rightarrow> Crashed e
      | Inr buffer \<Rightarrow>
          let buffer_size = unat (load32 (take 4 buffer))
          in if length buffer < buffer_size then Crashed Overread
             else Running (s\<lparr>a_tx := a_tx s @ take buffer_size buffer\<rparr>))
       (getThreadStatistics (a_pool s))"

text \<open>\<open>ctrl_c_handler\<close> stops the server, which deletes the pool, and ends the process if it gets so far.\<close>

definition ctrl_c_handler :: "thread_pool \<Rightarrow> admin_result" where
  "ctrl_c_handler tp =
     (case destroy_pool tp of
        Inl e \<Rightarrow> Crashed e
      | Inr Pool_deleted \<Rightarrow> Exited
      | Inr (Process_killed a) \<Rightarrow> Killed)"

definition processCommand :: "byte list \<Rightarrow> admin_state \<Rightarrow> admin_result option" where
  "processCommand buffer_in s =
     (case buffer_in of
        [] \<Rightarrow> Some (Crashed Overread)
      | op # _ \<Rightarrow>
          if op = SAWA_STOP then Some (ctrl_c_handler (a_pool s))
          else if op = SAWA_STAT then statCommand s
          else Some (Running s))"

text \<open>\<open>expected_size\<close> is an \<open>int\<close>: a negative size is skipped like an empty message.\<close>

function readCommand :: "byte rx list \<Rightarrow> admin_state \<Rightarrow> admin_result option" where
  "readCommand evs s =
     (let (n, hdr, evs1) = sock_read 4 evs
      in if n < 4 then Some (Running s)
         else
           let expected_size = sint (load32 hdr)
           in if 1024 < expected_size then Some (Running s)
              else if 0 < expected_size then
                (let (m, got, evs2) = sock_read (nat expected_size) evs1;
                     buffer_in = deposit (a_junk s (a_allocs s)) (nat expected_size) got;
                     s1 = s\<lparr>a_allocs := Suc (a_allocs s)\<rparr>
                 in if m < 0 then Some (Running s1)
                    else (case processCommand buffer_in s1 of
                            Some (Running s2) \<Rightarrow> readCommand evs2 s2
                          | r \<Rightarrow> r))
              else readCommand evs1 s)"
  by pat_completeness auto
termination
  by (relation "measure (\<lambda>(evs, s). rx_size evs)") (auto intro: sock_read_terminates)

declare readCommand.simps [simp del]

text \<open>
  The accept loop: one connection after the other, each with its own socket.  A failed \<open>socket\<close> is
  reported and the function goes on; a failed \<open>bind\<close> ends it.
\<close>

fun serve_admins :: "byte rx list list \<Rightarrow> admin_state \<Rightarrow> admin_result option" where
  "serve_admins [] s = Some (Running s)"
| "serve_admins (conn # conns) s =
     (case readCommand conn s of
        Some (Running s1) \<Rightarrow> serve_admins conns (s1\<lparr>a_tx := []\<rparr>)
      | r \<Rightarrow> r)"

definition connectionHandler :: "int \<Rightarrow> byte rx list list \<Rightarrow> admin_state \<Rightarrow> admin_result option" where
  "connectionHandler bind_rc conns s = (if bind_rc < 0 then Some (Running s) else serve_admins conns s)"

text \<open>
  The constructor starts the thread: whether it runs, and what is shown.  \<open>pthread_create\<close> returns zero or a positive
  number, which the test for a negative one takes for success.  The destructor shuts down the socket the thread
  has stored, if it has come so far.
\<close>

definition AdminInterface :: "int \<Rightarrow> bool \<times> string option" where
  "AdminInterface create_rc = (create_rc = 0, if create_rc < 0 then Some ''could not create admin thread'' else None)"

definition AdminInterface_destroy :: "int option \<Rightarrow> fault + int list" where
  "AdminInterface_destroy socket_desc = (case socket_desc of None \<Rightarrow> Inl Uninitialised | Some fd \<Rightarrow> Inr [fd])"

lemma admin_thread_failure_silent: "0 < create_rc \<Longrightarrow> AdminInterface create_rc = (False, None)"
  by (simp add: AdminInterface_def)

section \<open>What the statistics reply holds\<close>

lemma statCommand_pool_ok:
  assumes "pool_ok (a_pool s) alls ids" and "20 * length alls < 2 ^ 31" and "alls \<noteq> []"
  shows "statCommand s = Some (Running (s\<lparr>a_tx := a_tx s @ le32 (of_nat (20 * length alls)) @
    take (20 * length alls - 4)
      (concat (map (\<lambda>a. stat_bytes (loadFrom (the (heap (a_pool s) a)))) (rev alls)))\<rparr>))"
proof -
  let ?e = "concat (map (\<lambda>a. stat_bytes (loadFrom (the (heap (a_pool s) a)))) (rev alls))"
  have len: "length ?e = 20 * length alls"
    by (simp add: length_concat comp_def sum_list_triv rev_map [symmetric])
  have "unat (of_nat (20 * length alls) :: u32) = 20 * length alls"
    using assms(2) by (intro unat_of_nat_u32) simp
  then show ?thesis
    using getThreadStatistics_pool_ok [OF assms(1)] len assms(3)
    by (simp add: statCommand_def Let_def Suc_leI)
qed

end
