(* ===== verification/Sawa_Util.thy ===== *)
theory Sawa_Util
  imports Prelude
begin

text \<open>
  \<^verbatim>\<open>server/util.cpp\<close>: the error messages, the case-insensitive search the HTTP server uses on
  request headers, and the hexadecimal dump of the debug traces and of the client.  Characters
  are \<open>char\<close>, memory is a list, and a read behind its end is a fault.
\<close>

section \<open>Numbers as the streams print them\<close>

definition digit :: "nat \<Rightarrow> char" where
  "digit d = char_of (if d < 10 then 48 + d else 87 + d)"

function show_base :: "nat \<Rightarrow> nat \<Rightarrow> string" where
  "show_base b n =
     (if b < 2 then [] else if n < b then [digit n] else show_base b (n div b) @ [digit (n mod b)])"
  by pat_completeness auto
termination by (relation "measure snd") auto

declare show_base.simps [simp del]

definition show_dec :: "int \<Rightarrow> string" where
  "show_dec z = (if z < 0 then ''-'' @ show_base 10 (nat (- z)) else show_base 10 (nat z))"

text \<open>\<open>setfill('0') << setw(w) << hex\<close>.\<close>

definition show_hex :: "nat \<Rightarrow> nat \<Rightarrow> string" where
  "show_hex w n = (let s = show_base 16 n in replicate (w - length s) (CHR ''0'') @ s)"

definition newline :: string where "newline = [CHR 0x0A]"

section \<open>displayError\<close>

text \<open>The two statics that carry the detail of the last failure.\<close>

record util_state =
  debug_int :: int
  debug_str :: string

definition setDebugInfo_int :: "int \<Rightarrow> util_state \<Rightarrow> util_state" where
  "setDebugInfo_int i u = u\<lparr>debug_int := i\<rparr>"

definition setDebugInfo_string :: "string \<Rightarrow> util_state \<Rightarrow> util_state" where
  "setDebugInfo_string s u = u\<lparr>debug_str := s\<rparr>"

definition displayError :: "int \<Rightarrow> util_state \<Rightarrow> string" where
  "displayError failure_code u =
     (if failure_code = 0x100 then
        ''Error: cannot create socket on port '' @ show_dec (debug_int u) @ newline
      else if failure_code = 0x101 then
        ''Error: cannot bind socket on port '' @ show_dec (debug_int u) @ newline
      else if failure_code = 0x102 then ''Error: cannot accept incoming connection'' @ newline
      else if failure_code = 0x103 then ''Error: cannot initialize mutex'' @ newline
      else if failure_code = 0x104 then
        ''Error: cannot open file '' @ [CHR 0x27] @ debug_str u @ [CHR 0x27] @
        '' (error='' @ show_dec (debug_int u) @ '')'' @ newline
      else ''Error #'' @ show_dec failure_code @ newline)"

section \<open>strnCaseStr\<close>

text \<open>
  \<open>strncasecmp\<close> on a memory \<open>s\<close> that may end before the comparison does: equal up to \<open>n\<close>
  characters or to the first NUL, comparing lower-case forms.
\<close>

fun strncasecmp_eq :: "string \<Rightarrow> string \<Rightarrow> nat \<Rightarrow> fault + bool" where
  "strncasecmp_eq s pat 0 = Inr True"
| "strncasecmp_eq (c # s) (d # pat) (Suc n) =
     (if tolower c \<noteq> tolower d then Inr False
      else if c = CHR 0x00 then Inr True
      else strncasecmp_eq s pat n)"
| "strncasecmp_eq [] pat (Suc n) = Inl Overread"
| "strncasecmp_eq s [] (Suc n) = Inl Overread"

text \<open>
  The two nested loops over the memory from \<open>s\<close> on; \<open>left\<close> is \<open>s_end - s\<close>.  The pointer is
  advanced before the limit is tested, so the last character of the window is read and never
  matched.
\<close>

fun scan :: "char \<Rightarrow> string \<Rightarrow> string \<Rightarrow> int \<Rightarrow> fault + bool" where
  "scan c pat [] left = Inl Overread"
| "scan c pat (sc # s) left =
     (if left \<le> 1 then Inr False
      else if tolower sc \<noteq> c then scan c pat s (left - 1)
      else sbind (strncasecmp_eq s (pat @ [CHR 0x00]) (length pat))
             (\<lambda>hit. if hit then Inr True else scan c pat s (left - 1)))"

text \<open>\<open>pat\<close> is the string without its terminating NUL.\<close>

fun strnCaseStr :: "string \<Rightarrow> string \<Rightarrow> int \<Rightarrow> fault + bool" where
  "strnCaseStr s [] limit = Inr True"
| "strnCaseStr s (c # pat) limit = scan (tolower c) pat s limit"

section \<open>dumpMem\<close>

text \<open>The table of printable characters.\<close>

definition ascii :: "byte \<Rightarrow> char" where
  "ascii b = (if 32 \<le> b \<and> b \<le> 126 then char_of (unat b) else CHR ''.'')"

text \<open>
  One row: from cell \<open>i\<close> on, with \<open>j\<close> bytes already shown; the result is the text, the ASCII
  column, the new \<open>j\<close>, and whether the function returned inside the row.  The character column
  is taken from \<open>addr[j]\<close>, the hexadecimal one from \<open>addr[i]\<close>.
\<close>

function dump_cells ::
  "byte list \<Rightarrow> int \<Rightarrow> nat \<Rightarrow> nat \<Rightarrow> string \<Rightarrow> fault + string \<times> string \<times> nat \<times> bool"
where
  "dump_cells addr sz j i row =
     (if 16 \<le> i then Inr ([], row, j, False)
      else if sz \<le> int j then
        Inr (concat (replicate (16 - i) ''   '') @ ''   '' @ row @ newline, row, j, True)
      else if length addr \<le> j then Inl Overread
      else
        sbind (dump_cells addr sz (Suc j) (Suc i) (row[i := ascii (addr ! j)]))
          (\<lambda>(out, row, j, fin). Inr ('' '' @ show_hex 2 (unat (addr ! i)) @ out, row, j, fin)))"
  by pat_completeness auto
termination by (relation "measure (\<lambda>(addr, sz, j, i, row). 16 - i)") auto

declare dump_cells.simps [simp del]

lemma dump_cells_mono:
  "dump_cells addr sz j i row = Inr (out, row', j', fin) \<Longrightarrow>
   j \<le> j' \<and> (i < 16 \<longrightarrow> int j < sz \<longrightarrow> j < j')"
proof (induction addr sz j i row arbitrary: out row' j' fin rule: dump_cells.induct)
  case (1 addr sz j i row)
  show ?case
  proof (cases "16 \<le> i \<or> sz \<le> int j \<or> length addr \<le> j")
    case True
    with "1.prems" show ?thesis by (subst (asm) dump_cells.simps) (auto split: if_splits)
  next
    case False
    with "1.prems" obtain out1 where "dump_cells addr sz (Suc j) (Suc i) (row[i := ascii (addr ! j)]) =
        Inr (out1, row', j', fin)"
      by (subst (asm) dump_cells.simps) (auto simp: sbind_eq_Inr)
    from "1.IH" [OF _ _ _ this] False show ?thesis by auto
  qed
qed

function dump_rows :: "byte list \<Rightarrow> int \<Rightarrow> nat \<Rightarrow> fault + string" where
  "dump_rows addr sz j =
     (if sz \<le> int j then Inr []
      else
        (case dump_cells addr sz j 0 (replicate 16 (CHR '' '')) of
           Inl e \<Rightarrow> Inl e
         | Inr (out, row, j', fin) \<Rightarrow>
             if fin then Inr ('' '' @ show_hex 4 j @ out)
             else sbind (dump_rows addr sz j')
                    (\<lambda>rest. Inr ('' '' @ show_hex 4 j @ out @ ''   '' @ row @ newline @ rest))))"
  by pat_completeness auto
termination
  by (relation "measure (\<lambda>(addr, sz, j). nat (sz - int j))") (auto dest: dump_cells_mono)

declare dump_rows.simps [simp del]

definition dumpMem :: "bool \<Rightarrow> byte list \<Rightarrow> int \<Rightarrow> fault + string" where
  "dumpMem debug_flag addr sz = (if \<not> debug_flag then Inr [] else dump_rows addr sz 0)"

section \<open>What the search finds\<close>

lemma tolower_0_iff [simp]: "tolower c = CHR 0x00 \<longleftrightarrow> c = CHR 0x00"
proof
  assume c: "tolower c = CHR 0x00"
  show "c = CHR 0x00"
  proof (cases "65 \<le> (of_char c :: nat) \<and> (of_char c :: nat) \<le> 90")
    case True
    then have "of_char (tolower c) = (of_char c :: nat) + 32"
      by (simp add: tolower_def of_char_of)
    with c show ?thesis by simp
  next
    case False
    with c show ?thesis by (simp add: tolower_def split: if_splits)
  qed
qed (simp add: tolower_def)

text \<open>The pattern \<open>pat\<close> stands at the head of \<open>s\<close>, up to case.\<close>

definition same_text :: "string \<Rightarrow> string \<Rightarrow> bool" where
  "same_text pat s \<longleftrightarrow> map tolower (take (length pat) s) = map tolower pat"

lemma same_text_simps [simp]:
  "same_text [] s"
  "same_text (c # pat) (d # s) \<longleftrightarrow> tolower d = tolower c \<and> same_text pat s"
  "\<not> same_text (c # pat) []"
  by (auto simp: same_text_def)

lemma strncasecmp_eq_same_text:
  "CHR 0x00 \<notin> set pat \<Longrightarrow> length pat \<le> length s \<Longrightarrow>
   strncasecmp_eq s (pat @ [CHR 0x00]) (length pat) = Inr (same_text pat s)"
proof (induction pat arbitrary: s)
  case Nil
  then show ?case by simp
next
  case (Cons d pat)
  then obtain c s' where s: "s = c # s'" by (cases s) auto
  have "tolower c = tolower d \<Longrightarrow> c \<noteq> CHR 0x00"
    using Cons.prems(1) tolower_0_iff by (metis list.set_intros(1))
  with Cons s show ?case by auto
qed

lemma scan_exact:
  assumes "CHR 0x00 \<notin> set pat" and "left + int (length pat) \<le> int (length s)" and "0 < left"
  shows "scan (tolower c) pat s left =
    Inr (\<exists>i. int i + 1 < left \<and> same_text (c # pat) (drop i s))"
  using assms(2,3)
proof (induction s arbitrary: left)
  case Nil
  then show ?case by simp
next
  case (Cons sc s)
  show ?case
  proof (cases "left \<le> 1")
    case True
    then show ?thesis by auto
  next
    case False
    have hit: "strncasecmp_eq s (pat @ [CHR 0x00]) (length pat) = Inr (same_text pat s)"
      using Cons.prems False by (intro strncasecmp_eq_same_text [OF assms(1)]) simp
    have ih: "scan (tolower c) pat s (left - 1) =
        Inr (\<exists>i. int i + 1 < left - 1 \<and> same_text (c # pat) (drop i s))"
      using Cons.prems False by (intro Cons.IH) simp_all
    have split: "(\<exists>i. int i + 1 < left \<and> same_text (c # pat) (drop i (sc # s))) \<longleftrightarrow>
        same_text (c # pat) (sc # s) \<or> (\<exists>i. int i + 1 < left - 1 \<and> same_text (c # pat) (drop i s))"
      (is "?l \<longleftrightarrow> ?r")
    proof
      assume ?l
      then obtain i where i: "int i + 1 < left" "same_text (c # pat) (drop i (sc # s))" by blast
      then show ?r by (cases i) (auto simp del: same_text_simps)
    next
      assume ?r
      then show ?l
      proof
        assume "same_text (c # pat) (sc # s)"
        with False show ?l by (intro exI [of _ 0]) simp
      next
        assume "\<exists>i. int i + 1 < left - 1 \<and> same_text (c # pat) (drop i s)"
        then obtain i where "int i + 1 < left - 1" "same_text (c # pat) (drop i s)" by blast
        then show ?l by (intro exI [of _ "Suc i"]) simp
      qed
    qed
    show ?thesis
      using False hit ih split by simp
  qed
qed

text \<open>On a memory that ends with a NUL the comparison stops there at the latest.\<close>

lemma strncasecmp_eq_nul:
  "CHR 0x00 \<notin> set pat \<Longrightarrow> CHR 0x00 \<in> set s \<Longrightarrow>
   strncasecmp_eq s (pat @ [CHR 0x00]) (length pat) = Inr (same_text pat s)"
proof (induction pat arbitrary: s)
  case Nil
  then show ?case by simp
next
  case (Cons d pat)
  then obtain c s' where s: "s = c # s'" by (cases s) auto
  have "tolower c = tolower d \<Longrightarrow> c \<noteq> CHR 0x00"
    using Cons.prems(1) tolower_0_iff by (metis list.set_intros(1))
  with Cons s show ?case by auto
qed

lemma scan_nul:
  assumes "CHR 0x00 \<notin> set pat" and "left \<le> int (length s)"
  shows "\<exists>b. scan c pat (s @ [CHR 0x00]) left = Inr b"
  using assms(2)
proof (induction s arbitrary: left)
  case Nil
  have "scan c pat [CHR 0x00] left = Inr False" using Nil by simp
  then show ?case by auto
next
  case (Cons sc s)
  then show ?case using strncasecmp_eq_nul [OF assms(1), of "s @ [CHR 0x00]"] by auto
qed

lemma strnCaseStr_nul:
  assumes "CHR 0x00 \<notin> set pat" and "limit \<le> int (length s)"
  shows "\<exists>b. strnCaseStr (s @ [CHR 0x00]) pat limit = Inr b"
  using assms scan_nul [of "tl pat" limit s] by (cases pat) auto

section \<open>What the dump shows\<close>

text \<open>The text of one row that starts at byte \<open>j\<close> and shows \<open>n\<close> bytes.\<close>

definition hex_cells :: "byte list \<Rightarrow> string" where
  "hex_cells bs = concat (map (\<lambda>b. '' '' @ show_hex 2 (unat b)) bs)"

definition dump_line :: "byte list \<Rightarrow> nat \<Rightarrow> nat \<Rightarrow> string" where
  "dump_line addr j n =
     '' '' @ show_hex 4 j @ hex_cells (take n addr) @ concat (replicate (16 - n) ''   '') @ ''   '' @
     map ascii (take n (drop j addr)) @ replicate (16 - n) (CHR '' '') @ newline"

lemma dump_cells_row:
  assumes "n = min 16 (nat sz - j0)" and "nat sz \<le> length addr" and "j0 \<le> nat sz" and "0 \<le> sz"
    and "i \<le> n" and "length row = 16"
  shows "dump_cells addr sz (j0 + i) i row =
    (let row' = take i row @ map ascii (take (n - i) (drop (j0 + i) addr)) @ drop n row
     in Inr (hex_cells (drop i (take n addr)) @
          (if n < 16 then concat (replicate (16 - n) ''   '') @ ''   '' @ row' @ newline else []),
          row', j0 + n, n < 16))"
  using assms(5,6)
proof (induction "n - i" arbitrary: i row)
  case 0
  then have i: "i = n" by simp
  show ?case
  proof (cases "n < 16")
    case True
    then have "sz \<le> int (j0 + i)" using assms i by linarith
    with True i show ?thesis by (subst dump_cells.simps) (simp add: hex_cells_def)
  next
    case False
    then have "n = 16" using assms(1) by simp
    with i 0 show ?thesis by (subst dump_cells.simps) (simp add: hex_cells_def)
  qed
next
  case (Suc k)
  then have i: "i < n" by simp
  let ?row = "row[i := ascii (addr ! (j0 + i))]"
  have more: "\<not> 16 \<le> i" "\<not> sz \<le> int (j0 + i)" "\<not> length addr \<le> j0 + i"
    using assms(1-4) i by linarith+
  have row: "take (Suc i) ?row @ map ascii (take (n - Suc i) (drop (j0 + Suc i) addr)) @ drop n ?row =
      take i row @ map ascii (take (n - i) (drop (j0 + i) addr)) @ drop n row"
  proof -
    have "take (Suc i) ?row = take i row @ [ascii (addr ! (j0 + i))]"
      using i Suc.prems assms(1) by (simp add: take_Suc_conv_app_nth)
    moreover have "take (n - i) (drop (j0 + i) addr) =
        addr ! (j0 + i) # take (n - Suc i) (drop (j0 + Suc i) addr)"
      using more(3) i Cons_nth_drop_Suc [of "j0 + i" addr, symmetric]
      by (simp add: take_Cons' )
    moreover have "drop n ?row = drop n row" using i by simp
    ultimately show ?thesis by simp
  qed
  have cells: "hex_cells (drop i (take n addr)) =
      '' '' @ show_hex 2 (unat (addr ! i)) @ hex_cells (drop (Suc i) (take n addr))"
    using i more(3) Cons_nth_drop_Suc [of i "take n addr", symmetric] by (simp add: hex_cells_def)
  have ih: "dump_cells addr sz (j0 + Suc i) (Suc i) ?row =
    (let row' = take (Suc i) ?row @ map ascii (take (n - Suc i) (drop (j0 + Suc i) addr)) @ drop n ?row
     in Inr (hex_cells (drop (Suc i) (take n addr)) @
          (if n < 16 then concat (replicate (16 - n) ''   '') @ ''   '' @ row' @ newline else []),
          row', j0 + n, n < 16))"
    using Suc by (intro Suc.hyps(1)) simp_all
  then show ?case
    unfolding row using more cells
    by (subst dump_cells.simps) (simp add: Let_def)
qed

lemma dump_rows_lines:
  assumes "0 \<le> sz" and "nat sz \<le> length addr" and "j \<le> nat sz"
  shows "dump_rows addr sz j =
    Inr (concat (map (\<lambda>r. dump_line addr (j + 16 * r) (min 16 (nat sz - (j + 16 * r))))
       [0..<(nat sz - j + 15) div 16]))"
  using assms(3)
proof (induction "nat sz - j" arbitrary: j rule: less_induct)
  case less
  let ?n = "min 16 (nat sz - j)"
  show ?case
  proof (cases "j = nat sz")
    case True
    with assms(1) show ?thesis by (subst dump_rows.simps) simp
  next
    case False
    with less.prems have j: "j < nat sz" by simp
    let ?row = "map ascii (take ?n (drop j addr)) @ replicate (16 - ?n) (CHR '' '')"
    have cells: "dump_cells addr sz j 0 (replicate 16 (CHR '' '')) =
        Inr (hex_cells (take ?n addr) @ (if ?n < 16 then concat (replicate (16 - ?n) ''   '') @ ''   '' @
           ?row @ newline else []), ?row, j + ?n, ?n < 16)"
      using dump_cells_row [OF refl assms(2) less.prems assms(1), of 0 "replicate 16 (CHR '' '')"]
      by (simp add: Let_def)
    show ?thesis
    proof (cases "?n < 16")
      case True
      then have "(nat sz - j + 15) div 16 = Suc 0" using j by simp
      with True j cells show ?thesis
        by (subst dump_rows.simps) (simp add: dump_line_def)
    next
      case False
      then have n: "?n = 16" "16 \<le> nat sz - j" by simp_all
      have ih: "dump_rows addr sz (j + 16) =
        Inr (concat (map (\<lambda>r. dump_line addr (j + 16 + 16 * r) (min 16 (nat sz - (j + 16 + 16 * r))))
          [0..<(nat sz - (j + 16) + 15) div 16]))"
        using n by (intro less.hyps) simp_all
      have rows: "(nat sz - j + 15) div 16 = Suc ((nat sz - (j + 16) + 15) div 16)" using n by simp
      show ?thesis
        unfolding rows upt_conv_Cons [OF zero_less_Suc]
        using j n cells ih
        by (subst dump_rows.simps)
          (simp add: dump_line_def map_Suc_upt [symmetric] comp_def add.assoc del: upt_Suc)
    qed
  qed
qed

section \<open>The properties\<close>

text \<open>
  On a buffer with room for the pattern behind a window of at least one byte, and for a pattern
  without zero bytes, the search never leaves the buffer and answers yes exactly when the pattern is
  empty or occurs, up to case, at a position before the last byte of the window: a match may run past
  the window's end, and one that starts on its last byte is missed.
\<close>

theorem strnCaseStr_exact:
  assumes "CHR 0x00 \<notin> set pat" and "0 < limit" and "limit + int (length pat) \<le> int (length s) + 1"
  shows "strnCaseStr s pat limit =
    Inr (pat = [] \<or> (\<exists>i. int i + 1 < limit \<and> same_text pat (drop i s)))"
  using assms scan_exact [of "tl pat" limit s "hd pat"] by (cases pat) simp_all

theorem strnCaseStr_exact_witness:
  "strnCaseStr ''Host: a, keep-ALIVE, b'' ''Keep-Alive'' 12 = Inr True \<and>
   \<not> (\<exists>i. int i + 1 < 9 \<and> same_text ''Keep-Alive'' (drop i ''Host: a, keep-ALIVE, b''))"
proof
  have "same_text ''Keep-Alive'' (drop 9 ''Host: a, keep-ALIVE, b'')"
    by code_simp
  then show "strnCaseStr ''Host: a, keep-ALIVE, b'' ''Keep-Alive'' 12 = Inr True"
    using strnCaseStr_exact [of "''Keep-Alive''" 12 "''Host: a, keep-ALIVE, b''"]
    by (auto intro: exI [of _ "9 :: nat"])
  have "strnCaseStr ''Host: a, keep-ALIVE, b'' ''Keep-Alive'' 9 = Inr False"
    by code_simp
  then show "\<not> (\<exists>i. int i + 1 < 9 \<and> same_text ''Keep-Alive'' (drop i ''Host: a, keep-ALIVE, b''))"
    using strnCaseStr_exact [of "''Keep-Alive''" 9 "''Host: a, keep-ALIVE, b''"] by simp
qed

text \<open>
  The dump of a buffer ends, never reads outside it, and prints one line per sixteen bytes: the
  offset, the hexadecimal cells, the characters.  The characters are those of the line's own bytes;
  the hexadecimal cells of every line are those of the first sixteen bytes of the buffer.
\<close>

theorem dumpMem_lines:
  assumes "0 \<le> sz" and "nat sz \<le> length addr"
  shows "dumpMem True addr sz =
    Inr (concat (map (\<lambda>r. dump_line addr (16 * r) (min 16 (nat sz - 16 * r))) [0..<(nat sz + 15) div 16]))"
  using dump_rows_lines [OF assms, of 0] by (simp add: dumpMem_def)

theorem dumpMem_lines_witness:
  "dumpMem True (replicate 16 0 @ [0x41]) 17 =
     Inr (dump_line (replicate 16 0 @ [0x41]) 0 16 @ dump_line (replicate 16 0 @ [0x41]) 16 1)"
  using dumpMem_lines [of 17 "replicate 16 0 @ [0x41]"] by (simp add: upt_rec)

end
