(* ===== verification/Sawa_Client.thy ===== *)
theory Sawa_Client
  imports Posix Wire Connection_Thread Sawa_Util
begin

text \<open>
  \<^verbatim>\<open>server/sawa_client_interface.cpp\<close>: the client library.  The server at the other end of the
  connection is an argument, \<open>serve bytes p\<close>: what the peer in state \<open>p\<close> sends back when \<open>bytes\<close>
  arrive, and its next state.  A queue \<open>c_rx\<close> holds what arrived and was not read; the peer's
  shutdown is the event \<open>Data []\<close>, and a read with nothing queued blocks.
\<close>

section \<open>Results of the client's operations\<close>

datatype 'a res = Ok 'a | Throw int | Exit int | Fault fault | Blocked

record 's conn =
  peer :: 's
  c_rx :: "byte rx list"
  buffer_out :: "byte list"
  total_size :: nat
  console :: string
  c_allocs :: nat
  c_junk :: "nat \<Rightarrow> nat \<Rightarrow> byte"

type_synonym 's peer_fun = "byte list \<Rightarrow> 's \<Rightarrow> byte rx list \<times> 's"

definition rbind ::
  "('s conn \<Rightarrow> 'a res \<times> 's conn) \<Rightarrow> ('a \<Rightarrow> 's conn \<Rightarrow> 'b res \<times> 's conn) \<Rightarrow> 's conn \<Rightarrow> 'b res \<times> 's conn"
where
  "rbind m f c =
     (case m c of
        (Ok x, c) \<Rightarrow> f x c
      | (Throw e, c) \<Rightarrow> (Throw e, c)
      | (Exit k, c) \<Rightarrow> (Exit k, c)
      | (Fault e, c) \<Rightarrow> (Fault e, c)
      | (Blocked, c) \<Rightarrow> (Blocked, c))"

definition print :: "string \<Rightarrow> 's conn \<Rightarrow> 's conn" where
  "print s c = c\<lparr>console := console c @ s\<rparr>"

text \<open>The system's \<open>write\<close> on the connection.\<close>

definition wr :: "'s peer_fun \<Rightarrow> byte list \<Rightarrow> 's conn \<Rightarrow> 's conn" where
  "wr serve bytes c =
     (let (evs, p) = serve bytes (peer c) in c\<lparr>peer := p, c_rx := c_rx c @ evs\<rparr>)"

text \<open>A store of \<open>bs\<close> at index \<open>i\<close> of the outgoing block.\<close>

definition poke :: "nat \<Rightarrow> byte list \<Rightarrow> 's conn \<Rightarrow> unit res \<times> 's conn" where
  "poke i bs c =
     (if i + length bs \<le> length (buffer_out c)
      then (Ok (), c\<lparr>buffer_out := overwrite i bs (buffer_out c)\<rparr>) else (Fault Overwrite, c))"

section \<open>SawaInterface\<close>

text \<open>The block is fresh: its payload is indeterminate until the caller stores it.\<close>

definition prepareCommand :: "byte \<Rightarrow> nat \<Rightarrow> 's conn \<Rightarrow> 's conn" where
  "prepareCommand op payload_size c =
     c\<lparr>total_size := 5 + payload_size,
       buffer_out := le32 (of_nat (payload_size + 1)) @ [op] @
         uninit (c_junk c (c_allocs c)) 5 (5 + payload_size),
       c_allocs := Suc (c_allocs c)\<rparr>"

definition sendCmdToServer :: "'s peer_fun \<Rightarrow> 's conn \<Rightarrow> unit res \<times> 's conn" where
  "sendCmdToServer serve c =
     (if length (buffer_out c) < total_size c then (Fault Overread, c)
      else (Ok (), (wr serve (take (total_size c) (buffer_out c)) c)\<lparr>buffer_out := []\<rparr>))"

definition sendSingleCmdToServer :: "'s peer_fun \<Rightarrow> byte \<Rightarrow> 's conn \<Rightarrow> unit res \<times> 's conn" where
  "sendSingleCmdToServer serve op c = (Ok (), wr serve (le32 1 @ [op]) c)"

definition readFromServer :: "nat \<Rightarrow> 's conn \<Rightarrow> (int \<times> byte list) res \<times> 's conn" where
  "readFromServer n c =
     (if n = 0 then (Ok (0, []), c)
      else if c_rx c = [] then (Blocked, c)
      else let (m, got, evs) = sock_read n (c_rx c) in (Ok (m, got), c\<lparr>c_rx := evs\<rparr>))"

text \<open>
  The overload that reads a length first.  \<open>payload_size\<close> is unsigned, the result is an \<open>int\<close>;
  the dump prints the bytes that were read.  On a short header the caller's pointer stays as it
  was, which is uninitialised in every caller: \<open>None\<close>.
\<close>

definition readFromServer_sized :: "bool \<Rightarrow> 's conn \<Rightarrow> (int \<times> byte list option) res \<times> 's conn" where
  "readFromServer_sized debug_flag =
     rbind (readFromServer 4) (\<lambda>(n, hdr) c.
       if n < 4 then (Ok (0, None), c)
       else
         let payload_size = load32 hdr; k = c_allocs c
         in rbind (readFromServer (unat payload_size)) (\<lambda>(n, got) c.
              let buffer_in = deposit (c_junk c k) (unat payload_size) got
              in (case dumpMem debug_flag buffer_in n of
                    Inl e \<Rightarrow> (Fault e, c)
                  | Inr text \<Rightarrow> (Ok (sint payload_size, Some buffer_in), print text c)))
            (c\<lparr>c_allocs := Suc k\<rparr>))"

text \<open>The constructor connects (\<open>up\<close>: whether something listens on the port) or ends the process.\<close>

definition SawaInterface :: "bool \<Rightarrow> 's conn \<Rightarrow> unit res \<times> 's conn" where
  "SawaInterface up c = (if up then (Ok (), c\<lparr>c_rx := []\<rparr>) else (Exit 1, c))"

definition close_interface :: "bool \<Rightarrow> 's conn \<Rightarrow> 's conn" where
  "close_interface own c = (if own then c\<lparr>c_rx := []\<rparr> else c)"

section \<open>SawaClient\<close>

text \<open>
  \<open>sawa\<close> is \<open>None\<close> for a connection passed by the caller, \<open>Some up\<close> for the null pointer: then the
  operation opens a connection of its own.  \<open>int\<close> arguments are words read with \<open>sint\<close>.
\<close>

definition obtain_sawa :: "bool option \<Rightarrow> 's conn \<Rightarrow> unit res \<times> 's conn" where
  "obtain_sawa sawa c = (case sawa of None \<Rightarrow> (Ok (), c) | Some up \<Rightarrow> SawaInterface up c)"

definition sendReadCmd ::
  "'s peer_fun \<Rightarrow> bool option \<Rightarrow> u32 \<Rightarrow> u32 \<Rightarrow> 's conn \<Rightarrow> byte list res \<times> 's conn"
where
  "sendReadCmd serve sawa offset payload_size c =
     (if sint payload_size < 0 then (Fault Bad_array_length, c)
      else
        let k = c_allocs c
        in rbind (obtain_sawa sawa) (\<lambda>_ c.
           rbind (poke 5 (le32 offset)) (\<lambda>_.
           rbind (poke 9 (le32 payload_size)) (\<lambda>_.
           rbind (sendCmdToServer serve) (\<lambda>_.
           rbind (readFromServer (unat payload_size)) (\<lambda>(n, got) c.
             let buffer_in = deposit (c_junk c k) (unat payload_size) got;
                 c = close_interface (sawa \<noteq> None) c
             in if n = 1 then (Throw (int (unat (buffer_in ! 0))), c) else (Ok buffer_in, c)))))
             (prepareCommand SAWA_READ 8 c)) (c\<lparr>c_allocs := Suc k\<rparr>))"

text \<open>
  \<open>memcpy\<close> and \<open>memset\<close> take a \<open>size_t\<close>: a negative size is a huge one.  The payload of the
  command is always 4096 bytes long.  \<open>response\<close> is a \<open>char\<close>.
\<close>

definition send_payload ::
  "'s peer_fun \<Rightarrow> bool option \<Rightarrow> u32 \<Rightarrow> byte list + fault \<Rightarrow> 's conn \<Rightarrow> int res \<times> 's conn"
where
  "send_payload serve sawa offset src =
     rbind (obtain_sawa sawa) (\<lambda>_ c.
     rbind (poke 5 (le32 offset)) (\<lambda>_.
     rbind (\<lambda>c. case src of Inr e \<Rightarrow> (Fault e, c) | Inl bs \<Rightarrow> poke 9 bs c) (\<lambda>_.
     rbind (sendCmdToServer serve) (\<lambda>_.
     rbind (readFromServer 1) (\<lambda>(n, got) c.
       let response = (if got = [] then 0xFF else got ! 0) :: byte
       in (Ok (sint response), close_interface (sawa \<noteq> None) c)))))
       (prepareCommand SAWA_WRITE (4 + 4096) c))"

definition sendWriteCmd ::
  "'s peer_fun \<Rightarrow> bool option \<Rightarrow> byte list \<Rightarrow> u32 \<Rightarrow> u32 \<Rightarrow> 's conn \<Rightarrow> int res \<times> 's conn"
where
  "sendWriteCmd serve sawa payload offset payload_size =
     send_payload serve sawa offset
       (if sint payload_size < 0 then Inr Overwrite
        else if length payload < unat payload_size then Inr Overread
        else Inl (take (unat payload_size) payload))"

definition sendWriteCmd_fill ::
  "'s peer_fun \<Rightarrow> bool option \<Rightarrow> u32 \<Rightarrow> u32 \<Rightarrow> 's conn \<Rightarrow> int res \<times> 's conn"
where
  "sendWriteCmd_fill serve sawa offset payload_size =
     send_payload serve sawa offset
       (if sint payload_size < 0 then Inr Overwrite else Inl (replicate (unat payload_size) 0xFF))"

text \<open>\<open>result\<close> is 0 before the read; a partial read leaves its other bytes.\<close>

definition sendInfoCmd :: "'s peer_fun \<Rightarrow> bool \<Rightarrow> 's conn \<Rightarrow> int res \<times> 's conn" where
  "sendInfoCmd serve up =
     rbind (SawaInterface up) (\<lambda>_.
     rbind (sendSingleCmdToServer serve SAWA_INFO) (\<lambda>_.
     rbind (readFromServer 4) (\<lambda>(n, got) c.
       let result = sint (load32 (got @ replicate (4 - length got) 0));
           c = close_interface True c
       in if n = 1 then (Throw result, c)
          else (Ok result, print (''Number of sectors: '' @ show_dec result @ newline) c))))"

definition sendStopCmd :: "'s peer_fun \<Rightarrow> bool \<Rightarrow> 's conn \<Rightarrow> unit res \<times> 's conn" where
  "sendStopCmd serve up =
     rbind (SawaInterface up) (\<lambda>_.
     rbind (sendSingleCmdToServer serve SAWA_STOP) (\<lambda>_ c. (Ok (), close_interface True c)))"

text \<open>An entry of the statistics as the client reads it back from the buffer.\<close>

definition stat_row :: "byte list \<Rightarrow> nat \<Rightarrow> string" where
  "stat_row buf i =
     (let int_at = (\<lambda>k. show_dec (sint (load32 (take 4 (drop (20 * i + k) buf)))))
      in show_dec (int i) @ [CHR 0x09] @ [char_of (unat (buf ! (20 * i + 16)))] @ [CHR 0x09] @
         int_at 0 @ [CHR 0x09] @ int_at 4 @ [CHR 0x09] @ int_at 8 @ [CHR 0x09] @ int_at 12 @ newline)"

text \<open>
  \<open>n / sizeof(ThreadStat)\<close> is a division of \<open>size_t\<close>, stored in an \<open>int\<close>.  \<open>delete []\<close> of a pointer that was never set,
  after a short header, is undefined.
\<close>

definition sendStatCmd :: "'s peer_fun \<Rightarrow> bool \<Rightarrow> bool \<Rightarrow> 's conn \<Rightarrow> unit res \<times> 's conn" where
  "sendStatCmd serve up debug_flag =
     rbind (SawaInterface up) (\<lambda>_.
     rbind (sendSingleCmdToServer serve SAWA_STAT) (\<lambda>_.
     rbind (readFromServer_sized debug_flag) (\<lambda>(n, buffer_in) c.
       let nb_threads = sint (word_of_int ((n mod 2 ^ 64) div int sizeof_ThreadStat) :: u32);
           c = print (''There are '' @ show_dec nb_threads @ '' threads'' @ newline @
             ''Thread# Active? #Conn   Info    Reads   Writes'' @ newline) c
       in (case buffer_in of
             None \<Rightarrow> (Fault Uninitialised, c)
           | Some buf \<Rightarrow>
               if int (length buf) < 20 * nb_threads then (Fault Overread, c)
               else (Ok (), close_interface True
                       (print (concat (map (stat_row buf) [0..<nat nb_threads])) c))))))"

section \<open>The self test\<close>

text \<open>\<open>strncmp(a, b, n) == 0\<close>: equal up to \<open>n\<close> bytes or to the first NUL.\<close>

fun strncmp_eq :: "byte list \<Rightarrow> byte list \<Rightarrow> nat \<Rightarrow> bool" where
  "strncmp_eq (a # as) (b # bs) (Suc n) = (a = b \<and> (a = 0 \<or> strncmp_eq as bs n))"
| "strncmp_eq _ _ _ = True"

definition page_pattern :: "nat \<Rightarrow> byte list" where
  "page_pattern i = map (\<lambda>j. of_nat ((i + j) mod 256)) [0..<4096]"

text \<open>
  The body of the loop of \<open>threadTest\<close> for page \<open>i\<close>; a thrown reply leaves the function.  Both
  messages go to the terminal.
\<close>

definition test_page :: "'s peer_fun \<Rightarrow> nat \<Rightarrow> 's conn \<Rightarrow> unit res \<times> 's conn" where
  "test_page serve i =
     rbind (sendWriteCmd serve None (page_pattern i) (of_nat (i * 4096)) 4096) (\<lambda>result c.
       let c = (if result \<noteq> int (unat SAWA_MSG_OK)
                then print (''Error code '' @ show_dec result @ '' at page '' @ show_dec (int i) @ newline) c
                else c)
       in rbind (sendReadCmd serve None (of_nat (i * 4096)) 4096) (\<lambda>buffer_in c.
            (Ok (), if strncmp_eq buffer_in (page_pattern i) 4096 then c
                    else print (''Error page '' @ show_dec (int i) @ '' read/write operation failed'' @
                           newline) c)) c)"

fun test_pages :: "'s peer_fun \<Rightarrow> nat list \<Rightarrow> 's conn \<Rightarrow> unit res \<times> 's conn" where
  "test_pages serve [] c = (Ok (), c)"
| "test_pages serve (i # ids) c = rbind (test_page serve i) (\<lambda>_. test_pages serve ids) c"

definition threadTest :: "'s peer_fun \<Rightarrow> bool \<Rightarrow> int \<Rightarrow> 's conn \<Rightarrow> unit res \<times> 's conn" where
  "threadTest serve up thread_id =
     rbind (SawaInterface up) (\<lambda>_.
     rbind (sendSingleCmdToServer serve SAWA_INFO) (\<lambda>_.
     rbind (readFromServer 4) (\<lambda>_.
     rbind (test_pages serve [0..<256]) (\<lambda>_ c.
       (Ok (), print (''End thread '' @ show_dec thread_id @ newline) c)))))"

section \<open>Elapsed time\<close>

record timeval =
  tv_sec :: int
  tv_usec :: int

text \<open>C's division rounds towards zero.\<close>

definition cdiv :: "int \<Rightarrow> int \<Rightarrow> int" where
  "cdiv a b = sgn a * sgn b * (\<bar>a\<bar> div \<bar>b\<bar>)"

text \<open>The result, the updated \<open>*y\<close>, and whether the difference is negative.\<close>

definition timeval_subtract :: "timeval \<Rightarrow> timeval \<Rightarrow> timeval \<times> timeval \<times> bool" where
  "timeval_subtract x y =
     (let y1 = (if tv_usec x < tv_usec y
                then let nsec = cdiv (tv_usec y - tv_usec x) 1000000 + 1
                     in \<lparr>tv_sec = tv_sec y + nsec, tv_usec = tv_usec y - 1000000 * nsec\<rparr>
                else y);
          y2 = (if 1000000 < tv_usec x - tv_usec y1
                then let nsec = cdiv (tv_usec y1 - tv_usec x) 1000000
                     in \<lparr>tv_sec = tv_sec y1 - nsec, tv_usec = tv_usec y1 + 1000000 * nsec\<rparr>
                else y1)
      in (\<lparr>tv_sec = tv_sec x - tv_sec y2, tv_usec = tv_usec x - tv_usec y2\<rparr>, y2,
          tv_sec x < tv_sec y2))"

end
