(* ===== verification/Client_Service.thy ===== *)
theory Client_Service
  imports Sawa_Client Block_Store
begin

text \<open>
  The client library against a server that keeps the contract of a block store: what the client
  needs of the server is the locale \<open>block_service\<close>, its operations are proved inside it, and it is
  interpreted on the model of \<^verbatim>\<open>server/sawa_srv.cpp\<close>.
\<close>

section \<open>The frames the client sends\<close>

lemma rbind_simps [simp]:
  "m c = (Ok x, c') \<Longrightarrow> rbind m f c = f x c'"
  "m c = (Throw e, c') \<Longrightarrow> rbind m f c = (Throw e, c')"
  "m c = (Fault e', c') \<Longrightarrow> rbind m f c = (Fault e', c')"
  "m c = (Blocked, c') \<Longrightarrow> rbind m f c = (Blocked, c')"
  "m c = (Exit k, c') \<Longrightarrow> rbind m f c = (Exit k, c')"
  by (simp_all add: rbind_def)

text \<open>The outgoing block after the offset was stored, and then the operand or the data.\<close>

lemma offset_block:
  "4 \<le> length blk \<Longrightarrow> overwrite 5 (le32 off) (le32 w @ [op] @ blk) = le32 w @ [op] @ le32 off @ drop 4 blk"
  by (simp add: overwrite_def)

lemma data_block:
  "length bs \<le> length blk \<Longrightarrow>
   overwrite 9 bs (le32 w @ [op] @ le32 off @ blk) = le32 w @ [op] @ le32 off @ bs @ drop (length bs) blk"
  by (simp add: overwrite_def drop_Cons')

lemma poke_ok:
  "i + length bs \<le> length (buffer_out c) \<Longrightarrow>
   poke i bs c = (Ok (), c\<lparr>buffer_out := overwrite i bs (buffer_out c)\<rparr>)"
  by (simp add: poke_def)

lemma sendCmdToServer_ok:
  "length (buffer_out c) = total_size c \<Longrightarrow> serve (buffer_out c) (peer c) = (evs, p) \<Longrightarrow>
   sendCmdToServer serve c = (Ok (), c\<lparr>buffer_out := [], peer := p, c_rx := c_rx c @ evs\<rparr>)"
  by (simp add: sendCmdToServer_def wr_def)

text \<open>
  Preparing, storing the offset and \<open>bs\<close>, and sending: the peer gets the frame whose data is \<open>bs\<close>
  followed by what was never stored.
\<close>

lemma command_sent:
  assumes "length bs + 4 \<le> n" and "serve (le32 (of_nat (n + 1)) @ [op] @ le32 off @ bs @
      uninit (c_junk c (c_allocs c)) (9 + length bs) (5 + n)) (peer c) = (evs, p)"
  shows "rbind (poke 5 (le32 off)) (\<lambda>_. rbind (poke 9 bs) (\<lambda>_. rbind (sendCmdToServer serve) f))
      (prepareCommand op n c) =
    f () (c\<lparr>c_allocs := Suc (c_allocs c), total_size := 5 + n, buffer_out := [], peer := p,
      c_rx := c_rx c @ evs\<rparr>)"
proof -
  let ?c0 = "prepareCommand op n c" and ?blk = "uninit (c_junk c (c_allocs c)) 5 (5 + n)"
  let ?h = "le32 (of_nat (n + 1)) @ [op] @ le32 off"
  have c0: "?c0 = c\<lparr>c_allocs := Suc (c_allocs c), total_size := 5 + n,
      buffer_out := le32 (of_nat (n + 1)) @ [op] @ ?blk\<rparr>"
    by (simp add: prepareCommand_def)
  have 1: "poke 5 (le32 off) ?c0 = (Ok (), ?c0\<lparr>buffer_out := ?h @ drop 4 ?blk\<rparr>)"
    using assms(1) offset_block [of ?blk off "of_nat (n + 1)" op]
    by (subst poke_ok) (simp_all add: c0)
  have 2: "poke 9 bs (?c0\<lparr>buffer_out := ?h @ drop 4 ?blk\<rparr>) =
      (Ok (), ?c0\<lparr>buffer_out := ?h @ bs @ drop (length bs) (drop 4 ?blk)\<rparr>)"
    using assms(1) data_block [of bs "drop 4 ?blk" "of_nat (n + 1)" op off]
    by (subst poke_ok) (simp_all add: c0)
  have rest: "drop (length bs) (drop 4 ?blk) =
      uninit (c_junk c (c_allocs c)) (9 + length bs) (5 + n)"
    by (simp add: drop_uninit add.commute add.left_commute)
  have 3: "sendCmdToServer serve (?c0\<lparr>buffer_out := ?h @ bs @ drop (length bs) (drop 4 ?blk)\<rparr>) =
      (Ok (), c\<lparr>c_allocs := Suc (c_allocs c), total_size := 5 + n, buffer_out := [], peer := p,
        c_rx := c_rx c @ evs\<rparr>)"
    unfolding rest using assms
    by (subst sendCmdToServer_ok [where evs = evs and p = p]) (simp_all add: c0)
  show ?thesis
    by (simp only: rbind_def 1 2 3 prod.case res.case)
qed

lemma obtain_up [simp]:
  "sawa \<noteq> Some False \<Longrightarrow> c_rx c = [] \<Longrightarrow> obtain_sawa sawa c = (Ok (), c)"
  by (auto simp: obtain_sawa_def SawaInterface_def split: option.splits)

text \<open>A READ on a connection with nothing queued, up to the first reply event.\<close>

lemma sendReadCmd_reply:
  assumes "0 \<le> sint n" and "serve (frame (Read off n)) (peer c) = (evs, p)" and "c_rx c = []"
    and "sawa \<noteq> Some False" and "n \<noteq> 0" and "evs \<noteq> []" and "sock_read (unat n) evs = (m, got, rest)"
  shows "sendReadCmd serve sawa off n c =
    (let buf = deposit (c_junk c (c_allocs c)) (unat n) got
     in (if m = 1 then Throw (int (unat (buf ! 0))) else Ok buf,
         c\<lparr>c_allocs := Suc (Suc (c_allocs c)), total_size := 13, buffer_out := [], peer := p,
           c_rx := if sawa = None then rest else []\<rparr>))"
proof -
  let ?c = "c\<lparr>c_allocs := Suc (c_allocs c)\<rparr>"
  have un: "unat n \<noteq> 0" using assms(5) by (simp add: unat_eq_0)
  have frame: "le32 (of_nat (8 + 1)) @ [SAWA_READ] @ le32 off @ le32 n @
      uninit (c_junk ?c (c_allocs ?c)) (9 + length (le32 n)) (5 + 8) = frame (Read off n)"
    by (simp add: frame_def uninit_def)
  have sent: "rbind (poke 5 (le32 off)) (\<lambda>_. rbind (poke 9 (le32 n)) (\<lambda>_. rbind (sendCmdToServer serve) f))
      (prepareCommand SAWA_READ 8 ?c) =
    f () (?c\<lparr>c_allocs := Suc (c_allocs ?c), total_size := 5 + 8, buffer_out := [], peer := p,
      c_rx := c_rx ?c @ evs\<rparr>)" for f
    by (rule command_sent) (use assms(2) frame in simp_all)
  have own: "obtain_sawa sawa ?c = (Ok (), ?c)" using assms(3,4) by simp
  show ?thesis
    using assms(1,3,6,7) un own
    by (simp add: sendReadCmd_def sent readFromServer_def Let_def close_interface_def
        rbind_simps(1) [of "readFromServer (unat n)"])
qed

text \<open>A WRITE on a connection with nothing queued, answered with one byte.\<close>

lemma send_payload_reply:
  assumes "length bs \<le> 4096" and "c_rx c = []" and "sawa \<noteq> Some False"
    and "serve (frame (Write off (bs @ uninit (c_junk c (c_allocs c)) (9 + length bs) 4105))) (peer c) =
      ([Data [r]], p)"
  shows "send_payload serve sawa off (Inl bs) c =
    (Ok (sint r), c\<lparr>c_allocs := Suc (c_allocs c), total_size := 4105, buffer_out := [], peer := p,
       c_rx := []\<rparr>)"
proof -
  have frame: "le32 (of_nat (4100 + 1)) @ [SAWA_WRITE] @ le32 off @ bs @
      uninit (c_junk c (c_allocs c)) (9 + length bs) (5 + 4100) =
    frame (Write off (bs @ uninit (c_junk c (c_allocs c)) (9 + length bs) 4105))"
    using assms(1) by (simp add: frame_def)
  have sent: "rbind (poke 5 (le32 off)) (\<lambda>_. rbind (poke 9 bs) (\<lambda>_. rbind (sendCmdToServer serve) f))
      (prepareCommand SAWA_WRITE 4100 c) =
    f () (c\<lparr>c_allocs := Suc (c_allocs c), total_size := 5 + 4100, buffer_out := [], peer := p,
      c_rx := c_rx c @ [Data [r]]\<rparr>)" for f
    by (rule command_sent) (use assms(1,4) frame in simp_all)
  have own: "obtain_sawa sawa c = (Ok (), c)" using assms(2,3) by simp
  show ?thesis
    using assms(2) own
    by (simp add: send_payload_def sent readFromServer_def Let_def close_interface_def
        rbind_simps(1) [of "readFromServer (Suc 0)"])
qed

text \<open>A length and then at most that many bytes, all in one piece.\<close>

lemma readFromServer_sized_reply:
  assumes "c_rx c = [Data (le32 w @ got)]" and "got \<noteq> []" and "length got \<le> unat w"
  shows "\<exists>dump. readFromServer_sized debug_flag c =
    (Ok (sint w, Some (deposit (c_junk c (c_allocs c)) (unat w) got)),
     print dump (c\<lparr>c_rx := [], c_allocs := Suc (c_allocs c)\<rparr>))"
proof -
  let ?buf = "deposit (c_junk c (c_allocs c)) (unat w) got"
  have 1: "readFromServer 4 c = (Ok (4, le32 w), c\<lparr>c_rx := [Data got]\<rparr>)"
    using assms(1,2) by (simp add: readFromServer_def del: sock_read.simps)
  have 2: "readFromServer (unat w) (c\<lparr>c_rx := [Data got], c_allocs := k\<rparr>) =
      (Ok (int (length got), got), c\<lparr>c_rx := [], c_allocs := k\<rparr>)" for k
    using assms(2,3) by (cases "unat w") (simp_all add: readFromServer_def)
  obtain dump where 3: "dumpMem debug_flag ?buf (int (length got)) = Inr dump"
    using dump_rows_lines [of "int (length got)" ?buf 0] assms(3)
    by (cases debug_flag) (auto simp: dumpMem_def)
  show ?thesis
    unfolding readFromServer_sized_def
    by (intro exI [of _ dump], subst rbind_def) (simp add: 1 2 3 rbind_def Let_def)
qed

lemma strncmp_eq_refl: "strncmp_eq bs bs n"
proof (induction bs arbitrary: n)
  case (Cons b bs)
  then show ?case by (cases n) simp_all
qed simp

section \<open>The contract of the server\<close>

text \<open>
  What the client relies on: a command that arrives whole is executed as the block store of
  \<open>512 * sectors\<close> bytes executes it, and its reply arrives in one piece.
\<close>

locale block_service =
  fixes serve :: "'s peer_fun"
    and image :: "'s \<Rightarrow> byte list"
    and sectors :: "'s \<Rightarrow> u32"
    and ready :: "'s \<Rightarrow> bool"
  assumes serve_command: "ready p \<Longrightarrow> cmd_ok cmd \<Longrightarrow>
      \<exists>p'. serve (frame cmd) p =
          (let r = snd (store_step (sectors p) (image p) cmd) in if r = [] then [] else [Data r], p') \<and>
        ready p' \<and> sectors p' = sectors p \<and> image p' = fst (store_step (sectors p) (image p) cmd)"
    and image_length: "ready p \<Longrightarrow> length (image p) = 512 * unat (sectors p)"
begin

text \<open>A read inside the store of at least two bytes returns the bytes.\<close>

lemma read_inside:
  assumes "ready (peer c)" and "c_rx c = []" and "sawa \<noteq> Some False"
    and "unat off + unat n \<le> 512 * unat (sectors (peer c))" and "512 * unat (sectors (peer c)) < 2 ^ 32"
    and "0 \<le> sint n" and "2 \<le> unat n"
  shows "\<exists>c'. sendReadCmd serve sawa off n c = (Ok (take (unat n) (drop (unat off) (image (peer c)))), c') \<and>
    ready (peer c') \<and> sectors (peer c') = sectors (peer c) \<and> image (peer c') = image (peer c) \<and>
    c_rx c' = [] \<and> console c' = console c"
proof -
  let ?r = "take (unat n) (drop (unat off) (image (peer c)))"
  have len: "length ?r = unat n" using assms(4) image_length [OF assms(1)] by simp
  then have r: "?r \<noteq> []" using assms(7) by (metis list.size(3) not_numeral_le_zero)
  have n: "n \<noteq> 0" using assms(7) by auto
  have "int (unat n) \<noteq> 1" using assms(7) by linarith
  then have one: "uint n \<noteq> 1" by simp
  obtain p where p: "serve (frame (Read off n)) (peer c) = ([Data ?r], p)"
      "ready p" "sectors p = sectors (peer c)" "image p = image (peer c)"
    using serve_command [OF assms(1), of "Read off n"] assms(4,5) r by (auto simp: Let_def)
  have "sock_read (unat n) [Data ?r] = (int (unat n), ?r, [])" using len by simp
  from sendReadCmd_reply [where serve = serve, OF assms(6) p(1) assms(2,3) n _ this] show ?thesis
    using p len assms(7) one by (simp add: Let_def)
qed

text \<open>A read outside the store throws the server's refusal.\<close>

lemma read_outside:
  assumes "ready (peer c)" and "c_rx c = []" and "sawa \<noteq> Some False"
    and "512 * unat (sectors (peer c)) < unat off + unat n" and "unat off + unat n < 2 ^ 32"
    and "0 \<le> sint n" and "n \<noteq> 0"
  shows "\<exists>c'. sendReadCmd serve sawa off n c = (Throw (int (unat SAWA_MSG_NOAUTH)), c') \<and>
    image (peer c') = image (peer c)"
proof -
  obtain p where p: "serve (frame (Read off n)) (peer c) = ([Data [SAWA_MSG_NOAUTH]], p)"
      "image p = image (peer c)"
    using serve_command [OF assms(1), of "Read off n"] assms(4,5) by (auto simp: Let_def)
  obtain k where k: "unat n = Suc k" using assms(7) by (cases "unat n") (auto simp: unat_eq_0)
  have "sock_read (unat n) [Data [SAWA_MSG_NOAUTH]] = (1, [SAWA_MSG_NOAUTH], [])" using k by simp
  from sendReadCmd_reply [where serve = serve, OF assms(6) p(1) assms(2,3,7) _ this] show ?thesis
    using p by (simp add: Let_def deposit_def)
qed

text \<open>
  A write of at most 4096 bytes stores 4096 bytes: its own, and after them what the heap block held.
\<close>

lemma write_inside:
  assumes "ready (peer c)" and "c_rx c = []" and "sawa \<noteq> Some False" and "length bs \<le> 4096"
    and "unat off + 4096 \<le> 512 * unat (sectors (peer c))" and "512 * unat (sectors (peer c)) < 2 ^ 32"
  shows "\<exists>c'. send_payload serve sawa off (Inl bs) c = (Ok 0x42, c') \<and>
    ready (peer c') \<and> sectors (peer c') = sectors (peer c) \<and>
    image (peer c') = overwrite (unat off)
      (bs @ uninit (c_junk c (c_allocs c)) (9 + length bs) 4105) (image (peer c)) \<and>
    c_rx c' = [] \<and> console c' = console c"
proof -
  let ?bs = "bs @ uninit (c_junk c (c_allocs c)) (9 + length bs) 4105"
  have len: "length ?bs = 4096" using assms(4) by simp
  obtain p where p: "serve (frame (Write off ?bs)) (peer c) = ([Data [SAWA_MSG_OK]], p)"
      "ready p" "sectors p = sectors (peer c)" "image p = overwrite (unat off) ?bs (image (peer c))"
    using serve_command [OF assms(1), of "Write off ?bs"] assms(5,6) len
    by (auto simp: Let_def simp del: length_append)
  from send_payload_reply [where serve = serve, OF assms(4,2,3) p(1)] p show ?thesis
    by (simp add: SAWA_MSG_OK_def)
qed

text \<open>INFO on a connection with nothing queued.\<close>

lemma frame_Info: "le32 1 @ [SAWA_INFO] = frame Info"
  by (simp add: frame_def)

lemma info_reply:
  assumes "ready (peer c)" and "c_rx c = []"
  shows "\<exists>p. rbind (sendSingleCmdToServer serve SAWA_INFO) (\<lambda>_. rbind (readFromServer 4) f) c =
      f (4, le32 (sectors (peer c))) (c\<lparr>peer := p, c_rx := []\<rparr>) \<and>
    ready p \<and> sectors p = sectors (peer c) \<and> image p = image (peer c)"
proof -
  obtain p where p: "serve (frame Info) (peer c) = ([Data (le32 (sectors (peer c)))], p)"
      "ready p" "sectors p = sectors (peer c)" "image p = image (peer c)"
    using serve_command [OF assms(1), of Info] by (auto simp: Let_def le32_def)
  let ?c1 = "c\<lparr>peer := p, c_rx := [Data (le32 (sectors (peer c)))]\<rparr>"
  have 1: "sendSingleCmdToServer serve SAWA_INFO c = (Ok (), ?c1)"
    unfolding sendSingleCmdToServer_def frame_Info using p(1) assms(2) by (simp add: wr_def)
  have 2: "readFromServer 4 ?c1 = (Ok (4, le32 (sectors (peer c))), ?c1\<lparr>c_rx := []\<rparr>)"
    by (simp add: readFromServer_def)
  show ?thesis
    using p by (intro exI [of _ p]) (simp only: rbind_def 1 2 prod.case res.case, simp)
qed

text \<open>The loop of the self test.\<close>

lemma test_page_ok:
  assumes "ready (peer c)" and "c_rx c = []" and "i < 256"
    and "1048576 \<le> 512 * unat (sectors (peer c))" and "512 * unat (sectors (peer c)) < 2 ^ 32"
  shows "\<exists>c'. test_page serve i c = (Ok (), c') \<and> ready (peer c') \<and> c_rx c' = [] \<and>
    console c' = console c \<and> sectors (peer c') = sectors (peer c) \<and>
    image (peer c') = overwrite (i * 4096) (page_pattern i) (image (peer c))"
proof -
  let ?off = "of_nat (i * 4096) :: u32"
  have off: "unat ?off = i * 4096" using assms(3) by (intro unat_of_nat_u32) simp
  have len: "length (page_pattern i) = 4096" by (simp add: page_pattern_def)
  have inside: "i * 4096 + 4096 \<le> 512 * unat (sectors (peer c))" using assms(3,4) by simp
  obtain c1 where c1: "send_payload serve None ?off (Inl (page_pattern i)) c = (Ok 0x42, c1)"
      "ready (peer c1)" "sectors (peer c1) = sectors (peer c)" "c_rx c1 = []" "console c1 = console c"
      "image (peer c1) = overwrite (i * 4096) (page_pattern i) (image (peer c))"
    using write_inside [of c None "page_pattern i" ?off] assms(1,2,5) inside len off
    by (auto simp: uninit_def)
  have page: "take 4096 (drop (i * 4096) (image (peer c1))) = page_pattern i"
    unfolding c1(6) using overwrite_block [of "i * 4096" "page_pattern i" "image (peer c)"]
      inside image_length [OF assms(1)] len by simp
  obtain c2 where c2: "sendReadCmd serve None ?off 4096 c1 = (Ok (page_pattern i), c2)"
      "ready (peer c2)" "sectors (peer c2) = sectors (peer c)" "c_rx c2 = []" "console c2 = console c"
      "image (peer c2) = image (peer c1)"
    using read_inside [of c1 None ?off 4096] c1 assms(5) inside off page by auto
  note same = strncmp_eq_refl
  have w: "sendWriteCmd serve None (page_pattern i) ?off 4096 c = (Ok 0x42, c1)"
    using c1(1) len by (simp add: sendWriteCmd_def)
  have "test_page serve i c = (Ok (), c2)"
    unfolding test_page_def
    by (simp only: rbind_def w c2(1) prod.case res.case Let_def same if_True)
      (simp add: SAWA_MSG_OK_def rbind_def c2(1) same del: of_nat_mult)
  with c1 c2 show ?thesis by simp
qed

lemma test_pages_ok:
  assumes "ready (peer c)" and "c_rx c = []" and "set ids \<subseteq> {..<256}"
    and "1048576 \<le> 512 * unat (sectors (peer c))" and "512 * unat (sectors (peer c)) < 2 ^ 32"
  shows "\<exists>c'. test_pages serve ids c = (Ok (), c') \<and> ready (peer c') \<and> c_rx c' = [] \<and>
    console c' = console c \<and> sectors (peer c') = sectors (peer c) \<and>
    image (peer c') = fold (\<lambda>i. overwrite (i * 4096) (page_pattern i)) ids (image (peer c))"
  using assms
proof (induction ids arbitrary: c)
  case Nil
  then show ?case by simp
next
  case (Cons i ids)
  then obtain c1 where c1: "test_page serve i c = (Ok (), c1)" "ready (peer c1)" "c_rx c1 = []"
      "console c1 = console c" "sectors (peer c1) = sectors (peer c)"
      "image (peer c1) = overwrite (i * 4096) (page_pattern i) (image (peer c))"
    using test_page_ok [of c i] by auto
  with Cons.IH [of c1] Cons.prems show ?case by (auto simp: rbind_def)
qed

lemma threadTest_ok:
  assumes "ready (peer c)" and "1048576 \<le> 512 * unat (sectors (peer c))"
    and "512 * unat (sectors (peer c)) < 2 ^ 32"
  shows "\<exists>c'. threadTest serve True tid c = (Ok (), c') \<and>
    console c' = console c @ ''End thread '' @ show_dec tid @ newline \<and>
    image (peer c') = fold (\<lambda>i. overwrite (i * 4096) (page_pattern i)) [0..<256] (image (peer c))"
proof -
  have up: "SawaInterface True c = (Ok (), c\<lparr>c_rx := []\<rparr>)" by (simp add: SawaInterface_def)
  let ?f = "\<lambda>_ :: int \<times> byte list. rbind (test_pages serve [0..<256]) (\<lambda>_ c.
      (Ok (), print (''End thread '' @ show_dec tid @ newline) c))"
  obtain p where p: "rbind (sendSingleCmdToServer serve SAWA_INFO) (\<lambda>_. rbind (readFromServer 4) ?f)
      (c\<lparr>c_rx := []\<rparr>) = ?f (4, le32 (sectors (peer c))) (c\<lparr>peer := p, c_rx := []\<rparr>)"
      "ready p" "sectors p = sectors (peer c)" "image p = image (peer c)"
    using info_reply [of "c\<lparr>c_rx := []\<rparr>" ?f] assms(1) by auto
  have c0: "ready (peer (c\<lparr>peer := p, c_rx := []\<rparr>))" "c_rx (c\<lparr>peer := p, c_rx := []\<rparr>) = []"
      "set [0..<256 :: nat] \<subseteq> {..<256}"
      "1048576 \<le> 512 * unat (sectors (peer (c\<lparr>peer := p, c_rx := []\<rparr>)))"
      "512 * unat (sectors (peer (c\<lparr>peer := p, c_rx := []\<rparr>))) < 2 ^ 32"
    using p assms by (simp_all only: set_upt) auto
  obtain c1 where c1: "test_pages serve [0..<256] (c\<lparr>peer := p, c_rx := []\<rparr>) = (Ok (), c1)"
      "console c1 = console c"
      "image (peer c1) = fold (\<lambda>i. overwrite (i * 4096) (page_pattern i)) [0..<256] (image (peer c))"
    using test_pages_ok [OF c0(1-4)] p c0(5) by fastforce
  have "threadTest serve True tid c = ?f (4, le32 (sectors (peer c))) (c\<lparr>peer := p, c_rx := []\<rparr>)"
    unfolding threadTest_def p(1) [symmetric] by (subst (1) rbind_def) (simp only: up prod.case res.case)
  also have "\<dots> = (Ok (), print (''End thread '' @ show_dec tid @ newline) c1)"
    by (simp only: rbind_def c1(1) prod.case res.case)
  finally show ?thesis using c1 by (simp add: print_def del: upt_rec_numeral)
qed

end

section \<open>The file server keeps the contract\<close>

text \<open>
  The model of \<^verbatim>\<open>server/sawa_srv.cpp\<close> as a peer: the loop runs on the bytes that arrive and stops
  at the next blocking read.  A process that died answers with the end of the stream.
\<close>

definition serve_sawa :: "sawa_state option peer_fun" where
  "serve_sawa bytes p =
     (case p of
        None \<Rightarrow> ([Data []], None)
      | Some s \<Rightarrow>
          (case sawa_readData [Data bytes] s of
             Inl e \<Rightarrow> ([Data []], None)
           | Inr (s', rest) \<Rightarrow>
               let out = drop (length (tx s)) (tx s')
               in (if out = [] then [] else [Data out], Some s')))"

definition sawa_ready :: "sawa_state option \<Rightarrow> bool" where
  "sawa_ready p = (case p of None \<Rightarrow> False | Some s \<Rightarrow> sawa_inv s)"

definition sawa_image :: "sawa_state option \<Rightarrow> byte list" where
  "sawa_image p = f_data (fp (the p))"

definition sawa_sectors :: "sawa_state option \<Rightarrow> u32" where
  "sawa_sectors p = nb_sectors (the p)"

interpretation sawa: block_service serve_sawa sawa_image sawa_sectors sawa_ready
proof unfold_locales
  fix p :: "sawa_state option" and cmd
  assume "sawa_ready p" and cmd: "cmd_ok cmd"
  then obtain s where s: "p = Some s" "sawa_inv s" by (auto simp: sawa_ready_def split: option.splits)
  obtain s' where s': "sawa_readData [Data (frame cmd)] s = Inr (s', [])" "implements [cmd] s s'"
    using readData_segment [of s cmd "[]" "[]"] s(2) cmd by (auto simp: sawa_readData_nil)
  then have "tx s' = tx s @ snd (store_step (nb_sectors s) (f_data (fp s)) cmd)"
      "f_data (fp s') = fst (store_step (nb_sectors s) (f_data (fp s)) cmd)"
      "sawa_inv s'" "nb_sectors s' = nb_sectors s"
    by (auto simp: implements_def case_prod_beta Let_def)
  with s s' show "\<exists>p'. serve_sawa (frame cmd) p =
        (let r = snd (store_step (sawa_sectors p) (sawa_image p) cmd)
         in if r = [] then [] else [Data r], p') \<and>
      sawa_ready p' \<and> sawa_sectors p' = sawa_sectors p \<and>
      sawa_image p' = fst (store_step (sawa_sectors p) (sawa_image p) cmd)"
    by (intro exI [of _ "Some s'"])
      (simp add: serve_sawa_def sawa_ready_def sawa_sectors_def sawa_image_def Let_def)
next
  fix p :: "sawa_state option"
  assume "sawa_ready p"
  then show "length (sawa_image p) = 512 * unat (sawa_sectors p)"
    by (auto simp: sawa_ready_def sawa_image_def sawa_sectors_def sawa_inv_def capacity_def
        split: option.splits)
qed

lemma sawa_ready_simps [simp]:
  "sawa_ready (Some s) = sawa_inv s" "sawa_image (Some s) = f_data (fp s)"
  "sawa_sectors (Some s) = nb_sectors s"
  by (simp_all add: sawa_ready_def sawa_image_def sawa_sectors_def)

end
