(* ===== verification/Admin_Claims.thy ===== *)
theory Admin_Claims
  imports Sawa_Admin Pool_Claims Client_Service
begin

text \<open>
  The statistics from the pool to the terminal: what \<open>STAT\<close> sends for a reachable pool, and what
  the client of \<^verbatim>\<open>server/sawa_client_interface.cpp\<close> makes of it.
\<close>

text \<open>The administrative connection as a peer of the client.\<close>

definition serve_admin :: "admin_state option peer_fun" where
  "serve_admin bytes p =
     (case p of
        None \<Rightarrow> ([Data []], None)
      | Some s \<Rightarrow>
          (case readCommand [Data bytes] s of
             Some (Running s') \<Rightarrow>
               let out = drop (length (a_tx s)) (a_tx s')
               in (if out = [] then [] else [Data out], Some s')
           | _ \<Rightarrow> ([Data []], None)))"

text \<open>The entries of the statistics buffer, in the order of the threads' numbers.\<close>

definition entries :: "thread_pool \<Rightarrow> nat list \<Rightarrow> byte list" where
  "entries tp addrs = concat (map (\<lambda>a. stat_bytes (loadFrom (the (heap tp a)))) addrs)"

lemma length_entries [simp]: "length (entries tp addrs) = 20 * length addrs"
  by (induction addrs) (simp_all add: entries_def)

lemma stat_command:
  assumes "reachable m" and "a_pool s = pool m" and "0 < thread_nb (pool m)"
    and "20 * thread_nb (pool m) < 2 ^ 31"
  shows "\<exists>addrs. set addrs = dom (heap (pool m)) \<and> length addrs = thread_nb (pool m) \<and>
    map (\<lambda>a. nb (the (heap (pool m) a))) addrs = [0..<thread_nb (pool m)] \<and>
    statCommand s = Some (Running (s\<lparr>a_tx := a_tx s @ le32 (of_nat (20 * thread_nb (pool m))) @
      take (20 * thread_nb (pool m) - 4) (entries (pool m) addrs)\<rparr>))"
proof -
  obtain alls ids where "machine_inv m alls ids" using reachable_inv [OF assms(1)] by blast
  then have ok: "pool_ok (pool m) alls ids" by (rule machine_inv_pool)
  then have len: "length alls = thread_nb (pool m)" by (simp add: pool_ok_def)
  then have "alls \<noteq> []" using assms(3) by auto
  with statCommand_pool_ok [of s alls ids] ok assms(2,4) len
  have "statCommand s = Some (Running (s\<lparr>a_tx := a_tx s @ le32 (of_nat (20 * thread_nb (pool m))) @
      take (20 * thread_nb (pool m) - 4) (entries (pool m) (rev alls))\<rparr>))"
    by (simp add: entries_def)
  moreover have "map (\<lambda>a. nb (the (heap (pool m) a))) (rev alls) = [0..<length alls]"
    using ok by (simp add: pool_ok_def rev_map [symmetric])
  ultimately show ?thesis using ok len by (intro exI [of _ "rev alls"]) (simp add: pool_ok_def)
qed

text \<open>One command on the administrative connection.\<close>

lemma readCommand_single:
  assumes "processCommand [op] (s\<lparr>a_allocs := Suc (a_allocs s)\<rparr>) = Some (Running s')"
  shows "readCommand [Data (le32 1 @ [op])] s = Some (Running s')"
proof -
  have 1: "sock_read 4 [Data (le32 1 @ [op])] = (4, le32 1, [Data [op]])"
    by (subst sock_read_Data) simp_all
  have 2: "sock_read (Suc 0) [Data [op]] = (1, [op], [])" by simp
  have 3: "readCommand [] s' = Some (Running s')" by (subst readCommand.simps) simp
  show ?thesis
    using assms 3 by (subst readCommand.simps) (simp add: 1 2 Let_def del: sock_read.simps)
qed


definition admin_of :: "machine \<Rightarrow> admin_state" where
  "admin_of m = \<lparr>a_pool = pool m, a_tx = [], a_allocs = 0, a_junk = (\<lambda>k i. 0xAA)\<rparr>"


text \<open>
  The client prints one row per thread from what it received, and for the activity flag of the
  last thread a byte that its own heap block happened to hold.
\<close>

theorem stat_last_flag_is_junk:
  assumes "reachable m" and "a_pool s = pool m" and "0 < thread_nb (pool m)"
    and "20 * thread_nb (pool m) < 2 ^ 31" and "peer c = Some s"
  shows "\<exists>c' buf text. sendStatCmd serve_admin True debug_flag c = (Ok (), c') \<and>
    console c' = console c @ text @ concat (map (stat_row buf) [0..<thread_nb (pool m)]) \<and>
    buf ! (20 * (thread_nb (pool m) - 1) + 16) = c_junk c (c_allocs c) (20 * thread_nb (pool m) - 4)"
proof -
  let ?n = "thread_nb (pool m)" and ?s = "s\<lparr>a_allocs := Suc (a_allocs s)\<rparr>"
  obtain addrs where addrs: "length addrs = ?n"
      "statCommand ?s = Some (Running (?s\<lparr>a_tx := a_tx ?s @ le32 (of_nat (20 * ?n)) @
        take (20 * ?n - 4) (entries (pool m) addrs)\<rparr>))"
    using stat_command [of m ?s] assms(1-4) by auto
  let ?got = "take (20 * ?n - 4) (entries (pool m) addrs)"
  let ?buf = "deposit (c_junk c (c_allocs c)) (20 * ?n) ?got"
  have len: "length ?got = 20 * ?n - 4" using addrs(1) by simp
  moreover have "0 < 20 * ?n - 4" using assms(3) by simp
  ultimately have got: "?got \<noteq> []" by (metis length_greater_0_conv)
  define w where "w = (of_nat (20 * ?n) :: u32)"
  have un: "unat w = 20 * ?n" unfolding w_def using assms(4) by (intro unat_of_nat_u32) simp
  have si: "sint w = int (20 * ?n)" unfolding w_def using assms(4) by (rule sint_of_nat_u32)
  have "SAWA_STAT \<noteq> SAWA_STOP" by (simp add: op_defs)
  with addrs(2) have "processCommand [SAWA_STAT] ?s =
      Some (Running (?s\<lparr>a_tx := a_tx ?s @ le32 (of_nat (20 * ?n)) @ ?got\<rparr>))"
    by (simp add: processCommand_def)
  from readCommand_single [OF this] obtain p where
    p: "serve_admin (le32 1 @ [SAWA_STAT]) (Some s) = ([Data (le32 (w) @ ?got)], p)"
    using got by (simp add: serve_admin_def Let_def w_def)
  let ?c1 = "c\<lparr>peer := p, c_rx := [Data (le32 (w) @ ?got)]\<rparr>"
  have 1: "SawaInterface True c = (Ok (), c\<lparr>c_rx := []\<rparr>)" by (simp add: SawaInterface_def)
  have 2: "sendSingleCmdToServer serve_admin SAWA_STAT (c\<lparr>c_rx := []\<rparr>) = (Ok (), ?c1)"
    using p assms(5) by (simp add: sendSingleCmdToServer_def wr_def)
  obtain dump where 3: "readFromServer_sized debug_flag ?c1 = (Ok (int (20 * ?n), Some ?buf),
      print dump (?c1\<lparr>c_rx := [], c_allocs := Suc (c_allocs c)\<rparr>))"
    using readFromServer_sized_reply [of ?c1 w ?got debug_flag] got len un si by auto
  have n: "sint (word_of_int ((int (20 * ?n) mod 2 ^ 64) div int sizeof_ThreadStat) :: u32) = int ?n"
    using sint_of_nat_u32 [of ?n] assms(4) by (simp add: sizeof_ThreadStat_def)
  have junk: "?buf ! (20 * (?n - 1) + 16) = c_junk c (c_allocs c) (20 * ?n - 4)"
  proof -
    have "20 * (?n - 1) + 16 = length ?got" using len assms(3) by simp
    then show ?thesis using len assms(3) by (simp add: deposit_def nth_append)
  qed
  have "\<exists>c' text'. sendStatCmd serve_admin True debug_flag c = (Ok (), c') \<and>
      console c' = console c @ text' @ concat (map (stat_row ?buf) [0..<?n])"
    unfolding sendStatCmd_def
    by (simp only: rbind_def 1 2 3 prod.case res.case Let_def n)
      (use len assms(3) in \<open>simp add: print_def close_interface_def\<close>)
  then show ?thesis using junk by blast
qed

theorem stat_last_flag_is_junk_witness:
  "\<exists>c'. sendStatCmd serve_admin True False
      \<lparr>peer = Some (admin_of one_thread), c_rx = [], buffer_out = [], total_size = 0, console = [],
       c_allocs = 0, c_junk = (\<lambda>k i. 0xBB)\<rparr> = (Ok (), c')"
  using stat_last_flag_is_junk [OF reachable_one_thread, of "admin_of one_thread"
      "\<lparr>peer = Some (admin_of one_thread), c_rx = [], buffer_out = [], total_size = 0, console = [],
        c_allocs = 0, c_junk = (\<lambda>k i. 0xBB)\<rparr>" False]
  by (auto simp: admin_of_def one_thread_def init_machine_def newThread_def)

end
