(* ===== verification/Client_Claims.thy ===== *)
theory Client_Claims
  imports Client_Service
begin

text \<open>
  The client library against the model of the file server: a page written is the page read back,
  and where the library departs from what its arguments ask for.
\<close>

text \<open>A client connected to the one-sector server, and to one of nine sectors.\<close>

definition client_of :: "sawa_state \<Rightarrow> sawa_state option conn" where
  "client_of s = \<lparr>peer = Some s, c_rx = [], buffer_out = [], total_size = 0, console = [],
     c_allocs = 0, c_junk = (\<lambda>k i. 0xBB)\<rparr>"

definition nine_sectors :: sawa_state where
  "nine_sectors = small_server
     \<lparr>nb_sectors := 9, fp := \<lparr>f_data = replicate 4608 0, f_pos = 0, f_room = 4608\<rparr>\<rparr>"

lemma nine_sectors_simps [simp]:
  "sawa_inv nine_sectors" "capacity nine_sectors = 4608" "nb_sectors nine_sectors = 9"
  "f_data (fp nine_sectors) = replicate 4608 0"
  by (simp_all add: nine_sectors_def small_server_def sawa_inv_def capacity_def ConnectionThread_def)

lemma client_of_simps [simp]:
  "peer (client_of s) = Some s" "c_rx (client_of s) = []" "c_junk (client_of s) k = (\<lambda>i. 0xBB)"
  by (simp_all add: client_of_def)

section \<open>A page\<close>

text \<open>
  C4: Against the file server, a write of 4096 bytes inside the store is acknowledged, and a read of
  the same place, on the same connection or on connections of their own, returns the bytes written.
\<close>

theorem client_page_roundtrip:
  assumes "peer c = Some s" and "sawa_inv s" and "c_rx c = []" and "sawa \<noteq> Some False"
    and "length payload = 4096" and "unat off + 4096 \<le> capacity s"
  shows "\<exists>c1 c2. sendWriteCmd serve_sawa sawa payload off 4096 c = (Ok 0x42, c1) \<and>
    sendReadCmd serve_sawa sawa off 4096 c1 = (Ok payload, c2)"
proof -
  have cap: "512 * unat (sawa_sectors (peer c)) < 2 ^ 32"
    using assms(1,2) by (simp add: sawa_inv_def capacity_def)
  have inside: "unat off + 4096 \<le> 512 * unat (sawa_sectors (peer c))"
    using assms(1,6) by (simp add: capacity_def)
  obtain c1 where c1: "send_payload serve_sawa sawa off (Inl payload) c = (Ok 0x42, c1)"
      "sawa_ready (peer c1)" "sawa_sectors (peer c1) = sawa_sectors (peer c)"
      "sawa_image (peer c1) = overwrite (unat off) payload (sawa_image (peer c))" "c_rx c1 = []"
    using sawa.write_inside [of c sawa payload off] assms cap inside by (auto simp: uninit_def)
  have "take 4096 (drop (unat off) (sawa_image (peer c1))) = payload"
    unfolding c1(4) using overwrite_block [of "unat off" payload "sawa_image (peer c)"]
      inside sawa.image_length [of "peer c"] assms(1,2,5) by simp
  moreover obtain c2 where "sendReadCmd serve_sawa sawa off 4096 c1 =
      (Ok (take 4096 (drop (unat off) (sawa_image (peer c1)))), c2)"
    using sawa.read_inside [of c1 sawa off 4096] c1 assms(4) cap inside by auto
  ultimately show ?thesis
    using c1(1) assms(5) by (auto simp: sendWriteCmd_def)
qed

theorem client_page_roundtrip_witness:
  "\<exists>c1 c2. sendWriteCmd serve_sawa None (page_pattern 3) 512 4096 (client_of nine_sectors) = (Ok 0x42, c1) \<and>
    sendReadCmd serve_sawa None 512 4096 c1 = (Ok (page_pattern 3), c2)"
  by (rule client_page_roundtrip [where s = nine_sectors])
    (simp_all add: page_pattern_def)

text \<open>
  A write of fewer than 4096 bytes stores 4096 all the same: the bytes of the store behind the
  ones written are replaced by whatever the client's heap block held, and the reply is OK.
\<close>

theorem short_write_clobbers:
  assumes "peer c = Some s" and "sawa_inv s" and "c_rx c = []" and "sawa \<noteq> Some False"
    and "0 \<le> sint n" and "unat n \<le> 4096" and "unat n \<le> length payload"
    and "unat off + 4096 \<le> capacity s"
  shows "\<exists>c' s'. sendWriteCmd serve_sawa sawa payload off n c = (Ok 0x42, c') \<and> peer c' = Some s' \<and>
    f_data (fp s') = overwrite (unat off)
      (take (unat n) payload @ uninit (c_junk c (c_allocs c)) (9 + unat n) 4105) (f_data (fp s))"
proof -
  have cap: "512 * unat (sawa_sectors (peer c)) < 2 ^ 32"
    using assms(1,2) by (simp add: sawa_inv_def capacity_def)
  have len: "length (take (unat n) payload) = unat n" using assms(7) by simp
  obtain c' where c': "send_payload serve_sawa sawa off (Inl (take (unat n) payload)) c = (Ok 0x42, c')"
      "sawa_ready (peer c')" "sawa_image (peer c') = overwrite (unat off)
        (take (unat n) payload @ uninit (c_junk c (c_allocs c)) (9 + unat n) 4105) (sawa_image (peer c))"
    using sawa.write_inside [of c sawa "take (unat n) payload" off, unfolded len] assms cap
    by (auto simp: capacity_def)
  then obtain s' where "peer c' = Some s'" by (cases "peer c'") (auto simp: sawa_ready_def)
  with c' assms show ?thesis by (auto simp: sendWriteCmd_def not_less)
qed

theorem short_write_clobbers_witness:
  "\<exists>c' s'. sendWriteCmd serve_sawa None [7] 0 1 (client_of nine_sectors) = (Ok 0x42, c') \<and>
    peer c' = Some s' \<and> f_data (fp s') ! 1 = 0xBB \<and> f_data (fp nine_sectors) ! 1 = 0"
proof -
  obtain c' s' where "sendWriteCmd serve_sawa None [7] 0 1 (client_of nine_sectors) = (Ok 0x42, c')"
      "peer c' = Some s'" "f_data (fp s') = overwrite 0 ([7] @ uninit (\<lambda>i. 0xBB) 10 4105)
        (f_data (fp nine_sectors))"
    using short_write_clobbers [of "client_of nine_sectors" nine_sectors None 1 "[7]" 0]
    by auto
  moreover have "overwrite 0 ([7] @ uninit (\<lambda>i. 0xBB) 10 4105) (f_data (fp nine_sectors)) ! 1 = 0xBB"
    by (simp add: overwrite_def nth_append uninit_def del: upt_conv_Cons upt_rec_numeral)
  ultimately show ?thesis by auto
qed

text \<open>
  A write of more than 4096 bytes writes past the end of the client's heap block; nothing is
  sent.
\<close>

theorem long_write_overflows:
  assumes "4096 < sint n" and "unat n \<le> length payload" and "sawa \<noteq> Some False"
  shows "\<exists>c'. sendWriteCmd serve sawa payload off n c = (Fault Overwrite, c') \<and> peer c' = peer c"
proof -
  have n: "sint n = int (unat n)" using assms(1) by (intro sint_nonneg) simp
  have big: "4096 < unat n" using assms(1) n by linarith
  obtain c1 where own: "obtain_sawa sawa c = (Ok (), c1)" "peer c1 = peer c"
    using assms(3) by (cases sawa) (auto simp: obtain_sawa_def SawaInterface_def)
  let ?c = "prepareCommand SAWA_WRITE (4 + 4096) c1"
  obtain b where b: "poke 5 (le32 off) ?c = (Ok (), ?c\<lparr>buffer_out := b\<rparr>)" "length b = 4105"
    by (simp add: poke_def prepareCommand_def)
  have "poke 9 (take (unat n) payload) (?c\<lparr>buffer_out := b\<rparr>) = (Fault Overwrite, ?c\<lparr>buffer_out := b\<rparr>)"
    using big assms(2) b(2) by (simp add: poke_def)
  then show ?thesis
    using assms big n own b by (simp add: sendWriteCmd_def send_payload_def rbind_def prepareCommand_def)
qed

theorem long_write_overflows_witness:
  "\<exists>c'. sendWriteCmd serve_sawa None (replicate 5000 1) 0 4097 (client_of nine_sectors) =
     (Fault Overwrite, c') \<and> peer c' = Some nine_sectors"
  using long_write_overflows [of 4097 "replicate 5000 1" None serve_sawa 0 "client_of nine_sectors"]
  by simp

section \<open>Reads\<close>

text \<open>
  A read of one byte never returns it: the one-byte answer is taken for an error code, and the
  byte of the store is thrown as an exception.
\<close>

theorem one_byte_read_throws:
  assumes "peer c = Some s" and "sawa_inv s" and "c_rx c = []" and "sawa \<noteq> Some False"
    and "unat off < capacity s"
  shows "\<exists>c'. sendReadCmd serve_sawa sawa off 1 c =
    (Throw (int (unat (f_data (fp s) ! unat off))), c')"
proof -
  let ?b = "f_data (fp s) ! unat off"
  have one: "take 1 (drop (unat off) (f_data (fp s))) = [?b]"
    using assms(2,5) by (simp add: sawa_inv_def take_Suc_conv_app_nth hd_drop_conv_nth take_Suc)
  have "cmd_ok (Read off 1)" using assms(2,5) by (simp add: sawa_inv_def)
  then obtain p where p: "serve_sawa (frame (Read off 1)) (peer c) = ([Data [?b]], p)"
    using sawa.serve_command [of "peer c" "Read off 1"] assms one by (auto simp: Let_def capacity_def)
  have "sock_read (unat (1 :: u32)) [Data [?b]] = (1, [?b], [])" by simp
  from sendReadCmd_reply [where serve = serve_sawa, OF _ p assms(3,4) _ _ this] show ?thesis
    by (simp add: Let_def deposit_def)
qed

theorem one_byte_read_throws_witness:
  "\<exists>c'. sendReadCmd serve_sawa None 5 1 (client_of nine_sectors) = (Throw 0, c')"
  using one_byte_read_throws [of "client_of nine_sectors" nine_sectors None 5] by simp

text \<open>
  The client reads the reply with one \<open>read\<close>.  When the reply comes in pieces, the first piece
  (unless it is one byte long) is returned as if it were the whole block, its tail filled with what
  the heap held, and the other pieces stay in the socket for the next command to take as its reply.
\<close>

theorem partial_reply_accepted:
  assumes "serve (frame (Read off n)) (peer c) = (Data r # evs, p)" and "c_rx c = []"
    and "2 \<le> length r" and "length r \<le> unat n" and "0 \<le> sint n"
  shows "\<exists>c'. sendReadCmd serve None off n c =
      (Ok (r @ uninit (c_junk c (c_allocs c)) (length r) (unat n)), c') \<and> c_rx c' = evs"
proof -
  have "n \<noteq> 0" using assms(3,4) by auto
  moreover have "sock_read (unat n) (Data r # evs) = (int (length r), r, evs)" using assms(4) by simp
  ultimately show ?thesis
    using sendReadCmd_reply [where serve = serve, OF assms(5,1,2), of None "int (length r)" r evs] assms(3)
    by (auto simp: Let_def deposit_def uninit_def)
qed

theorem partial_reply_accepted_witness:
  "\<exists>c'. sendReadCmd (\<lambda>b p. ([Data [1, 2], Data [3]], p)) None 0 3 (client_of nine_sectors) =
      (Ok [1, 2, 0xBB], c') \<and> c_rx c' = [Data [3]]"
  using partial_reply_accepted [of "\<lambda>b p. ([Data [1, 2], Data [3]], p)" 0 3 "client_of nine_sectors"
      "[1, 2]" "[Data [3]]" "Some nine_sectors"]
  by (simp add: uninit_def upt_rec)

section \<open>The self test\<close>

lemma of_nat_eq_0_iff_u8: "n < 256 \<Longrightarrow> (of_nat n :: byte) = 0 \<longleftrightarrow> n = 0"
  by (auto simp: word_of_nat_eq_0_iff dest: nat_dvd_not_less)

lemma length_page [simp]: "length (page_pattern i) = 4096"
  by (simp add: page_pattern_def)

lemma nth_page: "j < 4096 \<Longrightarrow> page_pattern i ! j = of_nat ((i + j) mod 256)"
  by (simp add: page_pattern_def del: upt_rec_numeral)

lemma length_pages [simp]: "length (concat (map page_pattern ids)) = 4096 * length ids"
  by (induction ids) simp_all

lemma write_pages:
  "4096 * n \<le> length img \<Longrightarrow>
   fold (\<lambda>i. overwrite (i * 4096) (page_pattern i)) [0..<n] img =
     concat (map page_pattern [0..<n]) @ drop (4096 * n) img"
proof (induction n)
  case 0
  then show ?case by simp
next
  case (Suc n)
  let ?pre = "concat (map page_pattern [0..<n])"
  have "length ?pre = n * 4096" by simp
  then have "overwrite (n * 4096) (page_pattern n) (?pre @ drop (4096 * n) img) =
      ?pre @ page_pattern n @ drop (4096 * Suc n) img"
    by (simp add: overwrite_def)
  with Suc show ?case by (simp del: length_pages)
qed

text \<open>
  C16: On a server whose store is the megabyte the constructor sets up, the self test ends, reports
  no error, and leaves the test pattern in every page.
\<close>

theorem threadTest_passes:
  assumes "peer c = Some s" and "sawa_inv s" and "nb_sectors s = 2048"
  shows "\<exists>c'. threadTest serve_sawa True tid c = (Ok (), c') \<and>
    console c' = console c @ ''End thread '' @ show_dec tid @ newline \<and>
    sawa_image (peer c') = concat (map page_pattern [0..<256])"
proof -
  have cap: "512 * unat (sawa_sectors (peer c)) = 1048576" using assms(1,3) by simp
  have len: "length (sawa_image (peer c)) = 4096 * 256"
    using sawa.image_length [of "peer c"] assms cap by simp
  have "sawa_ready (peer c)" "1048576 \<le> 512 * unat (sawa_sectors (peer c))"
      "512 * unat (sawa_sectors (peer c)) < 2 ^ 32"
    using assms(1,2) cap by simp_all
  then have "\<exists>c'. threadTest serve_sawa True tid c = (Ok (), c') \<and>
    console c' = console c @ ''End thread '' @ show_dec tid @ newline \<and>
    sawa_image (peer c') =
      fold (\<lambda>i. overwrite (i * 4096) (page_pattern i)) [0..<256] (sawa_image (peer c))"
    by (rule sawa.threadTest_ok)
  moreover have "fold (\<lambda>i. overwrite (i * 4096) (page_pattern i)) [0..<256] (sawa_image (peer c)) =
      concat (map page_pattern [0..<256])"
    using write_pages [of 256 "sawa_image (peer c)"] len by (simp only: drop_all order_refl append_Nil2)
  ultimately show ?thesis by (simp only:)
qed

definition fresh_server :: sawa_state where
  "fresh_server = small_server\<lparr>nb_sectors := 2048,
     fp := \<lparr>f_data = replicate 1048576 0, f_pos = 0, f_room = 1048576\<rparr>\<rparr>"

lemma fresh_server_inv: "sawa_inv fresh_server" "nb_sectors fresh_server = 2048"
  by (simp_all add: fresh_server_def small_server_def sawa_inv_def capacity_def ConnectionThread_def)

theorem threadTest_passes_witness:
  "\<exists>c'. threadTest serve_sawa True 0 (client_of fresh_server) = (Ok (), c') \<and>
     console c' = ''End thread 0'' @ newline"
proof -
  have "show_dec 0 = ''0''" by code_simp
  then show ?thesis
    using threadTest_passes [OF _ fresh_server_inv, of "client_of fresh_server" 0]
    by (auto simp: client_of_def)
qed

lemma strncmp_eq_prefix:
  "k < length bs \<Longrightarrow> bs ! k = 0 \<Longrightarrow> (\<forall>i < k. bs ! i \<noteq> 0) \<Longrightarrow> k < n \<Longrightarrow> length as = length bs \<Longrightarrow>
   strncmp_eq as bs n \<longleftrightarrow> take (Suc k) as = take (Suc k) bs"
proof (induction k arbitrary: "as" bs n)
  case 0
  then show ?case by (cases "as"; cases bs; cases n) auto
next
  case (Suc k)
  then obtain a as' b bs' n' where eq: "as = a # as'" "bs = b # bs'" "n = Suc n'"
    by (cases "as"; cases bs; cases n) auto
  have "b \<noteq> 0" "\<forall>i < k. bs' ! i \<noteq> 0" using Suc.prems(3) eq by auto
  with Suc eq show ?case by auto
qed

lemma complement_mod:
  shows "(i + (256 - i mod 256) mod 256) mod 256 = (0 :: nat)"
    and "j < (256 - i mod 256) mod 256 \<Longrightarrow> (i + j) mod 256 \<noteq> (0 :: nat)"
proof -
  let ?r = "i mod 256"
  have r: "?r < 256" by simp
  have "(i + (256 - ?r) mod 256) mod 256 = (?r + (256 - ?r)) mod 256" by (simp only: mod_simps)
  then show "(i + (256 - ?r) mod 256) mod 256 = 0" using r by simp
  show "(i + j) mod 256 \<noteq> 0" if "j < (256 - ?r) mod 256"
  proof -
    have j: "0 < ?r" "?r + j < 256" using that r by (cases "?r = 0"; simp)+
    have "(i + j) mod 256 = (?r + j) mod 256" by (simp only: mod_simps)
    then show ?thesis using j by simp
  qed
qed

text \<open>
  The self test compares with \<open>strncmp\<close>, which stops at the first zero byte.  For page \<open>i\<close> that
  is byte \<open>(256 - i) mod 256\<close>: of the 4096 bytes read back at most the first 256 are compared, and
  of page 0 only the first.
\<close>

theorem self_test_compares_prefix:
  assumes "length buf = 4096"
  shows "strncmp_eq buf (page_pattern i) 4096 \<longleftrightarrow>
    take (Suc ((256 - i mod 256) mod 256)) buf =
    take (Suc ((256 - i mod 256) mod 256)) (page_pattern i)"
proof (rule strncmp_eq_prefix)
  let ?k = "(256 - i mod 256) mod 256"
  have k: "?k < 256" by simp
  note at = nth_page [of _ i]
  show "?k < length (page_pattern i)" and "?k < 4096" using k by simp_all
  have "(i + ?k) mod 256 = 0" by (rule complement_mod(1))
  then show "page_pattern i ! ?k = 0" using k by (subst at) simp_all
  show "\<forall>j < ?k. page_pattern i ! j \<noteq> 0"
  proof (intro allI impI)
    fix j assume j: "j < ?k"
    then have "(i + j) mod 256 \<noteq> 0" by (rule complement_mod(2))
    then have "(of_nat ((i + j) mod 256) :: byte) \<noteq> 0"
      by (simp add: of_nat_eq_0_iff_u8)
    then show "page_pattern i ! j \<noteq> 0" using j k by (subst at) simp_all
  qed
  show "length buf = length (page_pattern i)" using assms by simp
qed

theorem self_test_compares_prefix_witness:
  "strncmp_eq (0 # replicate 4095 0x55) (page_pattern 0) 4096"
proof -
  have "take (Suc 0) (page_pattern 0) = [0]"
    using nth_page [of 0 0] by (simp add: take_Suc_conv_app_nth)
  then show ?thesis
    using self_test_compares_prefix [of "0 # replicate 4095 0x55" 0] by simp
qed

section \<open>Elapsed time\<close>

definition usecs :: "timeval \<Rightarrow> int" where
  "usecs t = 1000000 * tv_sec t + tv_usec t"

lemma subtract_total:
  "usecs (fst (timeval_subtract x y)) = usecs x - usecs y"
  by (simp add: timeval_subtract_def usecs_def Let_def)

text \<open>
  The difference of two times is exact for every pair, normalised or not.  When both are
  normalised the microseconds of the result are too, and the result is reported negative exactly when
  the first time is the earlier.
\<close>

theorem timeval_subtract_exact:
  "usecs (fst (timeval_subtract x y)) = usecs x - usecs y \<and>
   (0 \<le> tv_usec x \<and> tv_usec x < 1000000 \<and> 0 \<le> tv_usec y \<and> tv_usec y < 1000000 \<longrightarrow>
      0 \<le> tv_usec (fst (timeval_subtract x y)) \<and> tv_usec (fst (timeval_subtract x y)) < 1000000 \<and>
      (snd (snd (timeval_subtract x y)) \<longleftrightarrow> usecs x < usecs y))"
proof -
  have "0 \<le> tv_usec (fst (timeval_subtract x y)) \<and> tv_usec (fst (timeval_subtract x y)) < 1000000 \<and>
      (snd (snd (timeval_subtract x y)) \<longleftrightarrow> usecs x < usecs y)"
    if "0 \<le> tv_usec x" "tv_usec x < 1000000" "0 \<le> tv_usec y" "tv_usec y < 1000000"
  proof (cases "tv_usec x < tv_usec y")
    case True
    then have "cdiv (tv_usec y - tv_usec x) 1000000 = 0"
      using that by (simp add: cdiv_def)
    with True that show ?thesis by (auto simp: timeval_subtract_def usecs_def Let_def)
  next
    case False
    with that show ?thesis by (auto simp: timeval_subtract_def usecs_def Let_def)
  qed
  with subtract_total show ?thesis by blast
qed

theorem timeval_subtract_exact_witness:
  "tv_usec (fst (timeval_subtract \<lparr>tv_sec = 5, tv_usec = 200000\<rparr> \<lparr>tv_sec = 3, tv_usec = 900000\<rparr>)) < 1000000"
  using timeval_subtract_exact [of "\<lparr>tv_sec = 5, tv_usec = 200000\<rparr>" "\<lparr>tv_sec = 3, tv_usec = 900000\<rparr>"]
  by simp

end
