(* ===== verification/Client_Main.thy ===== *)
theory Client_Main
  imports Client_Service
begin

text \<open>
  \<^verbatim>\<open>server/sawa_client.cpp\<close>: the command line of the client, and the dispatch of
  \<open>SawaClient::sendCommand\<close>.  What the program would do is a value of type \<open>action\<close>.
\<close>

section \<open>Numbers on the command line\<close>

definition is_digit :: "char \<Rightarrow> bool" where
  "is_digit c \<longleftrightarrow> 48 \<le> (of_char c :: nat) \<and> (of_char c :: nat) \<le> 57"

definition is_space :: "char \<Rightarrow> bool" where
  "is_space c \<longleftrightarrow> (of_char c :: nat) = 32 \<or> 9 \<le> (of_char c :: nat) \<and> (of_char c :: nat) \<le> 13"

text \<open>\<open>atoi\<close> on values an \<open>int\<close> can hold: blanks, a sign, digits up to the first other character.\<close>

definition digits_value :: "string \<Rightarrow> int" where
  "digits_value s =
     foldl (\<lambda>n c. 10 * n + (of_char c - 48)) 0 (takeWhile is_digit s)"

definition atoi :: "string \<Rightarrow> int" where
  "atoi s =
     (case dropWhile is_space s of
        [] \<Rightarrow> 0
      | c # s \<Rightarrow>
          if c = CHR ''-'' then - digits_value s
          else if c = CHR ''+'' then digits_value s
          else digits_value (c # s))"

section \<open>main\<close>

datatype action =
    Usage
  | Do_info | Do_stop | Do_stat
  | Do_test int
  | Do_command byte u32 u32

text \<open>
  \<open>argv\<close> is the list of arguments after the program's name.  \<open>offset\<close> and \<open>size\<close> are unsigned, so
  the test \<open>size <= 0\<close> is one for zero.
\<close>

definition client_main :: "string list \<Rightarrow> action" where
  "client_main argv =
     (case argv of
        [] \<Rightarrow> Usage
      | cmd # args \<Rightarrow>
          if cmd = ''info'' then Do_info
          else if cmd = ''stop'' then Do_stop
          else if cmd = ''stat'' then Do_stat
          else if cmd = ''test'' then Do_test (case args of [] \<Rightarrow> 1 | n # _ \<Rightarrow> atoi n)
          else if cmd \<noteq> ''read'' \<and> cmd \<noteq> ''write'' then Usage
          else
            let op = (if cmd = ''read'' then SAWA_READ else SAWA_WRITE)
            in (case args of
                  [] \<Rightarrow> Usage
                | off # rest \<Rightarrow>
                    let sz = (case rest of [] \<Rightarrow> 4096 | n # _ \<Rightarrow> word_of_int (atoi n)) :: u32
                    in if sz \<le> 0 then Usage
                       else Do_command op (word_of_int (atoi off)) sz))"

section \<open>sendCommand\<close>

text \<open>The default arguments open a connection for the command; \<open>up\<close> says whether that succeeds.\<close>

definition sendCommand :: "'s peer_fun \<Rightarrow> bool \<Rightarrow> byte \<Rightarrow> u32 \<Rightarrow> u32 \<Rightarrow> 's conn \<Rightarrow> unit res \<times> 's conn"
where
  "sendCommand serve up op offset sz =
     (if op = SAWA_READ then
        rbind (sendReadCmd serve (Some up) offset sz) (\<lambda>buffer c.
          (case dumpMem True buffer (sint sz) of
             Inl e \<Rightarrow> (Fault e, c)
           | Inr dump \<Rightarrow> (Ok (), print dump c)))
      else if op = SAWA_WRITE then
        rbind (sendWriteCmd_fill serve (Some up) offset sz) (\<lambda>response c.
          (Ok (), print ((if response = int (unat SAWA_MSG_OK) then ''Success!''
                          else if response = int (unat SAWA_MSG_ERR) then ''Error!''
                          else if response = int (unat SAWA_MSG_NOAUTH) then ''Not authorized!''
                          else ''Unknown response: '' @ show_dec response) @ newline) c))
      else (\<lambda>c. (Ok (), print (''Unknown operation: '' @ [char_of (unat op)] @ newline) c)))"

text \<open>
  The check of the size only refuses zero: a negative size on the command line is accepted, and
  the client then asks for an array of negative length, before anything is sent.
\<close>

theorem negative_size_accepted:
  assumes "atoi n < 0" and "- (2 ^ 31) \<le> atoi n"
  shows "client_main [''read'', off, n] =
      Do_command SAWA_READ (word_of_int (atoi off)) (word_of_int (atoi n)) \<and>
    sendCommand serve up SAWA_READ offset (word_of_int (atoi n)) c = (Fault Bad_array_length, c)"
proof -
  have "sint (word_of_int (atoi n) :: u32) = atoi n"
    using assms(1,2) by (simp add: sint_sbintrunc' signed_take_bit_int_eq_self)
  moreover from this assms(1) have "(word_of_int (atoi n) :: u32) \<noteq> 0" by auto
  ultimately show ?thesis
    using assms(1) by (simp add: client_main_def sendCommand_def sendReadCmd_def rbind_def)
qed

theorem negative_size_accepted_witness:
  "client_main [''read'', ''0'', ''-5''] = Do_command SAWA_READ 0 (- 5)"
proof -
  have 5: "atoi ''-5'' = -5" by code_simp
  have 0: "atoi ''0'' = 0" by code_simp
  show ?thesis using negative_size_accepted [of "''-5''" "''0''", THEN conjunct1] 5 0 by simp
qed

text \<open>
  \<open>write <offset>\<close> on the command line, run against the file server, prints \<open>Success!\<close> and leaves
  4096 bytes \<open>0xFF\<close> at the offset and the rest of the store as it was; past the end of the store it
  prints \<open>Not authorized!\<close> and changes nothing.
\<close>

theorem write_command_fills:
  assumes "peer c = Some s" and "sawa_inv s" and "unat (word_of_int (atoi off) :: u32) + 4096 < 2 ^ 32"
  shows "\<exists>c' s'. client_main [''write'', off] = Do_command SAWA_WRITE (word_of_int (atoi off)) 4096 \<and>
    sendCommand serve_sawa True SAWA_WRITE (word_of_int (atoi off)) 4096 c = (Ok (), c') \<and>
    peer c' = Some s' \<and>
    (if unat (word_of_int (atoi off) :: u32) + 4096 \<le> capacity s
     then console c' = console c @ ''Success!'' @ newline \<and>
       f_data (fp s') = overwrite (unat (word_of_int (atoi off) :: u32)) (replicate 4096 0xFF) (f_data (fp s))
     else console c' = console c @ ''Not authorized!'' @ newline \<and> f_data (fp s') = f_data (fp s))"
proof -
  let ?off = "word_of_int (atoi off) :: u32" and ?bs = "replicate 4096 0xFF :: byte list"
  let ?c = "c\<lparr>c_rx := []\<rparr>"
  let ?r = "if unat ?off + 4096 \<le> capacity s then SAWA_MSG_OK else SAWA_MSG_NOAUTH"
  have main: "client_main [''write'', off] = Do_command SAWA_WRITE ?off 4096"
    by (simp add: client_main_def)
  have data: "?bs @ uninit (c_junk ?c (c_allocs ?c)) (9 + length ?bs) 4105 = ?bs" by (simp add: uninit_def)
  have "cmd_ok (Write ?off ?bs)" using assms(3) by simp
  then obtain p where p: "serve_sawa (frame (Write ?off ?bs)) (peer c) = ([Data [?r]], p)" "sawa_ready p"
      "sawa_image p = fst (store_step (nb_sectors s) (f_data (fp s)) (Write ?off ?bs))"
    using sawa.serve_command [of "peer c" "Write ?off ?bs"] assms(1,2)
    by (auto simp: Let_def capacity_def split: if_splits)
  have own: "send_payload serve_sawa (Some True) ?off (Inl ?bs) c =
      send_payload serve_sawa (Some True) ?off (Inl ?bs) ?c"
    by (simp add: send_payload_def rbind_def obtain_sawa_def SawaInterface_def)
  have "send_payload serve_sawa (Some True) ?off (Inl ?bs) ?c = (Ok (sint ?r),
      ?c\<lparr>c_allocs := Suc (c_allocs c), total_size := 4105, buffer_out := [], peer := p, c_rx := []\<rparr>)"
    using send_payload_reply [where serve = serve_sawa, of ?bs ?c "Some True" ?off ?r p] p(1) data by simp
  then have sent: "sendWriteCmd_fill serve_sawa (Some True) ?off 4096 c = (Ok (sint ?r),
      ?c\<lparr>c_allocs := Suc (c_allocs c), total_size := 4105, buffer_out := [], peer := p, c_rx := []\<rparr>)"
    by (simp add: sendWriteCmd_fill_def own)
  obtain s' where s': "p = Some s'" using p(2) by (cases p) (auto simp: sawa_ready_def)
  show ?thesis
    using main sent p(3) s'
    by (auto simp: sendCommand_def rbind_def msg_defs print_def capacity_def sawa_image_def)
qed

theorem write_command_fills_witness:
  "\<exists>c'. sendCommand serve_sawa True SAWA_WRITE 0 4096
      \<lparr>peer = Some small_server, c_rx = [], buffer_out = [], total_size = 0, console = [],
       c_allocs = 0, c_junk = (\<lambda>k i. 0xBB)\<rparr> = (Ok (), c') \<and>
     console c' = ''Not authorized!'' @ newline"
proof -
  have 0: "atoi ''0'' = 0" by code_simp
  have small: "capacity small_server = 512" by (simp add: capacity_def small_server_def)
  show ?thesis
    using write_command_fills [of "\<lparr>peer = Some small_server, c_rx = [], buffer_out = [], total_size = 0,
        console = [], c_allocs = 0, c_junk = (\<lambda>k i. 0xBB)\<rparr>" small_server "''0''"] 0 small
    by auto
qed

end
