(* ===== verification/Client_Test.thy ===== *)
theory Client_Test
  imports Client_Service "HOL-Library.Multiset"
begin

text \<open>
  \<open>SawaClient::testServer\<close> of \<^verbatim>\<open>server/sawa_client_interface.cpp\<close>: the main thread starts up to ten threads that
  each run \<open>threadTest\<close>, and spins on a counter until all of them have counted down.  The counter is
  atomic, and starting a thread, its end and the exit of the loop are the points that interleave.
\<close>

section \<open>The threads of a test\<close>

text \<open>
  Where the main thread is; \<open>Aborted\<close> is the end of the process when an exception leaves a thread.
\<close>

datatype test_main = Creating nat | Spinning | Completed | Aborted

text \<open>How a thread comes out: with what it printed, by ending the process, or not at all.\<close>

datatype thread_result = Ends string | Kills | Hangs

record test_state =
  test_counter :: int
  running :: "nat list"
  at_main :: test_main
  printed :: "string list"

text \<open>
  The arguments of the relation: the number of threads, whether \<open>pthread_create\<close> succeeds for each (its
  result is not looked at), how each thread comes out, and the times before and after.
\<close>

record test_env =
  te_threads :: nat
  te_created :: "nat \<Rightarrow> bool"
  te_run :: "nat \<Rightarrow> thread_result"
  te_times :: "timeval \<times> timeval"

definition thread_run :: "'s peer_fun \<Rightarrow> (nat \<Rightarrow> bool \<times> 's conn) \<Rightarrow> nat \<Rightarrow> thread_result" where
  "thread_run serve conns i =
     (case threadTest serve (fst (conns i)) (int i) (snd (conns i)) of
        (Ok _, c) \<Rightarrow> Ends (console c)
      | (Blocked, _) \<Rightarrow> Hangs
      | _ \<Rightarrow> Kills)"

definition output_of :: "thread_result \<Rightarrow> string" where
  "output_of r = (case r of Ends txt \<Rightarrow> txt | _ \<Rightarrow> [])"

definition test_summary :: "test_env \<Rightarrow> string" where
  "test_summary e =
     (let (diff, _, _) = timeval_subtract (snd (te_times e)) (fst (te_times e))
      in ''Test completed in '' @ show_dec (tv_sec diff) @ '' seconds and '' @
         show_dec (cdiv (tv_usec diff) 1000) @ '' ms'' @ newline)"

text \<open>
  \<open>testServer\<close> up to the loop that creates the threads: the array is allocated before the number is capped,
  so a negative number throws.
\<close>

definition testServer :: "int \<Rightarrow> fault + nat \<times> test_state" where
  "testServer nb_threads =
     (if nb_threads < 0 then Inl Bad_array_length
      else
        let n = (if 10 < nb_threads then 10 else nb_threads)
        in Inr (nat n, \<lparr>test_counter = n, running = [], at_main = Creating 0,
                        printed = [''Staring test...'' @ newline]\<rparr>))"

inductive test_step :: "test_env \<Rightarrow> test_state \<Rightarrow> test_state \<Rightarrow> bool" for e where
  create: "at_main s = Creating i \<Longrightarrow> i < te_threads e \<Longrightarrow> te_created e i \<Longrightarrow>
    test_step e s (s\<lparr>running := running s @ [i], at_main := Creating (Suc i)\<rparr>)"
| create_fails: "at_main s = Creating i \<Longrightarrow> i < te_threads e \<Longrightarrow> \<not> te_created e i \<Longrightarrow>
    test_step e s (s\<lparr>at_main := Creating (Suc i)\<rparr>)"
| all_created: "at_main s = Creating i \<Longrightarrow> te_threads e \<le> i \<Longrightarrow> test_step e s (s\<lparr>at_main := Spinning\<rparr>)"
| thread_ends: "at_main s \<noteq> Aborted \<Longrightarrow> i \<in> set (running s) \<Longrightarrow> te_run e i = Ends txt \<Longrightarrow>
    test_step e s (s\<lparr>running := remove1 i (running s), test_counter := test_counter s - 1,
                     printed := printed s @ [txt]\<rparr>)"
| thread_throws: "at_main s \<noteq> Aborted \<Longrightarrow> i \<in> set (running s) \<Longrightarrow> te_run e i = Kills \<Longrightarrow>
    test_step e s (s\<lparr>at_main := Aborted\<rparr>)"
| completes: "at_main s = Spinning \<Longrightarrow> test_counter s \<le> 0 \<Longrightarrow>
    test_step e s (s\<lparr>at_main := Completed, printed := printed s @ [test_summary e]\<rparr>)"

inductive test_reachable :: "test_env \<Rightarrow> int \<Rightarrow> test_state \<Rightarrow> bool" for e num where
  start: "testServer num = Inr (te_threads e, s) \<Longrightarrow> test_reachable e num s"
| step: "test_reachable e num s \<Longrightarrow> test_step e s s' \<Longrightarrow> test_reachable e num s'"

section \<open>The invariant\<close>

definition position :: "test_env \<Rightarrow> test_state \<Rightarrow> nat" where
  "position e s = (case at_main s of Creating i \<Rightarrow> i | _ \<Rightarrow> te_threads e)"

text \<open>\<open>is\<close> are the threads that have ended, in order.\<close>

definition test_inv :: "test_env \<Rightarrow> test_state \<Rightarrow> nat list \<Rightarrow> bool" where
  "test_inv e s is \<longleftrightarrow> at_main s = Aborted \<or>
     distinct (is @ running s) \<and> (\<forall>i \<in> set (is @ running s). i < position e s \<and> te_created e i) \<and>
     position e s \<le> te_threads e \<and>
     (\<forall>i \<in> set is. \<exists>txt. te_run e i = Ends txt) \<and> test_counter s = int (te_threads e) - int (length is) \<and>
     (\<forall>i < position e s. te_created e i \<longrightarrow> i \<in> set (is @ running s)) \<and>
     (at_main s = Completed \<longrightarrow> te_threads e \<le> length is) \<and>
     printed s = (''Staring test...'' @ newline) # map (output_of \<circ> te_run e) is @
       (if at_main s = Completed then [test_summary e] else [])"

lemma test_inv_full:
  assumes "test_inv e s is" and "at_main s \<noteq> Aborted" and "te_threads e \<le> length is"
  shows "running s = [] \<and> mset is = mset [0..<te_threads e] \<and> position e s = te_threads e"
proof -
  have sub: "set (is @ running s) \<subseteq> {0..<position e s}" and d: "distinct (is @ running s)"
    and pos: "position e s \<le> te_threads e"
    using assms(1,2) by (auto simp: test_inv_def)
  have "length is + length (running s) \<le> position e s"
    using card_mono [OF _ sub] distinct_card [OF d] by simp
  with assms(3) pos have "length (running s) = 0" and len: "length is = te_threads e" and p: "position e s = te_threads e"
    by linarith+
  then have r: "running s = []" by simp
  have "set is = {0..<te_threads e}"
    using sub d r len p by (intro card_subset_eq) (auto simp: distinct_card)
  then have "mset is = mset [0..<te_threads e]"
    using d r by (intro set_eq_iff_mset_eq_distinct [THEN iffD1]) auto
  with r p show ?thesis by blast
qed

lemma test_inv_running:
  assumes "test_inv e s is" and "at_main s \<noteq> Aborted" and "i \<in> set (running s)"
  shows "i < te_threads e \<and> te_created e i"
proof -
  have "i < position e s \<and> te_created e i" "position e s \<le> te_threads e"
    using assms unfolding test_inv_def by auto
  then show ?thesis by simp
qed

lemma test_inv_step:
  assumes "test_step e s s'" and "test_inv e s is"
  shows "\<exists>is'. test_inv e s' is'"
  using assms(1)
proof cases
  case (create i)
  have "test_inv e s' is"
    using assms(2) create by (auto simp: test_inv_def position_def less_Suc_eq)
  then show ?thesis ..
next
  case (create_fails i)
  have "test_inv e s' is"
    using assms(2) create_fails by (auto simp: test_inv_def position_def less_Suc_eq)
  then show ?thesis ..
next
  case (all_created i)
  have "position e s \<le> te_threads e" using assms(2) all_created(2) by (simp add: test_inv_def)
  then have "position e s' = position e s" using all_created by (simp add: position_def)
  with assms(2) all_created(1,2) have "test_inv e s' is" by (simp add: test_inv_def)
  then show ?thesis ..
next
  case (thread_ends i t)
  have "at_main s \<noteq> Completed"
  proof
    assume "at_main s = Completed"
    with assms(2) have "te_threads e \<le> length is" by (simp add: test_inv_def)
    with test_inv_full [OF assms(2) thread_ends(2)] thread_ends(3) show False by simp
  qed
  then have inv: "distinct (is @ running s)" "\<forall>i \<in> set (is @ running s). i < position e s \<and> te_created e i"
      "position e s \<le> te_threads e" "\<forall>i \<in> set is. \<exists>txt. te_run e i = Ends txt"
      "test_counter s = int (te_threads e) - int (length is)"
      "\<forall>i < position e s. te_created e i \<longrightarrow> i \<in> set (is @ running s)"
      "printed s = (''Staring test...'' @ newline) # map (output_of \<circ> te_run e) is"
    using assms(2) thread_ends(2) unfolding test_inv_def by simp_all
  have mem: "set ((is @ [i]) @ running s') = set (is @ running s)" and dist: "distinct ((is @ [i]) @ running s')"
    using inv(1) thread_ends(1,3) by (auto simp: set_remove1_eq)
  have same: "position e s' = position e s" "at_main s' = at_main s" using thread_ends(1) by (simp_all add: position_def)
  have out: "test_counter s' = int (te_threads e) - int (length (is @ [i]))"
    "printed s' = (''Staring test...'' @ newline) # map (output_of \<circ> te_run e) (is @ [i])"
    using inv(5,7) thread_ends(1,4) by (simp_all add: output_of_def)
  have run: "\<forall>i \<in> set (is @ [i]). \<exists>txt. te_run e i = Ends txt" using inv(4) thread_ends(4) by simp
  have "test_inv e s' (is @ [i])"
    unfolding test_inv_def mem same using inv(2,3,6) dist out run \<open>at_main s \<noteq> Completed\<close> by simp
  then show ?thesis ..
next
  case (thread_throws i)
  have "test_inv e s' is" using thread_throws by (simp add: test_inv_def)
  then show ?thesis ..
next
  case completes
  have "test_inv e s' is" using assms(2) completes by (auto simp: test_inv_def position_def)
  then show ?thesis ..
qed

lemma test_inv_reachable: "test_reachable e num s \<Longrightarrow> \<exists>is. test_inv e s is"
proof (induction rule: test_reachable.induct)
  case (start s)
  then have "test_inv e s []"
    by (auto simp: test_inv_def testServer_def position_def Let_def split: if_splits)
  then show ?case ..
next
  case (step s s')
  then show ?case using test_inv_step by blast
qed

section \<open>The end of a test\<close>

text \<open>
  When the test reports its time, every one of the threads was created, ran its test to the end and
  printed its output before, in some order, and none is left.  So when \<open>pthread_create\<close> fails once, which
  nobody checks, or a thread hangs, the main thread spins for ever.
\<close>

lemma testServer_completed:
  assumes "test_reachable e num s" and "at_main s = Completed"
  shows "running s = [] \<and> (\<forall>i < te_threads e. te_created e i \<and> (\<exists>txt. te_run e i = Ends txt)) \<and>
    (\<exists>is. mset is = mset [0..<te_threads e] \<and>
       printed s = (''Staring test...'' @ newline) # map (output_of \<circ> te_run e) is @ [test_summary e])"
proof -
  obtain "is" where inv: "test_inv e s is" using test_inv_reachable [OF assms(1)] by blast
  then have len: "te_threads e \<le> length is" using assms(2) by (simp add: test_inv_def)
  note full = test_inv_full [OF inv _ len]
  then have "set is = {0..<te_threads e}" using assms(2) by (metis atLeastLessThan_upt set_mset_mset test_main.distinct(11))
  with inv full assms(2) show ?thesis by (auto simp: test_inv_def)
qed

lemma test_not_aborted:
  assumes "test_reachable e num s" and "\<forall>i < te_threads e. te_created e i \<and> (\<exists>txt. te_run e i = Ends txt)"
  shows "at_main s \<noteq> Aborted"
  using assms
proof (induction rule: test_reachable.induct)
  case (start s)
  then show ?case by (auto simp: testServer_def Let_def split: if_splits)
next
  case (step s s')
  then obtain "is" where inv: "test_inv e s is" using test_inv_reachable by blast
  from step.hyps(2) show ?case
  proof cases
    case (thread_throws i)
    then have "i < te_threads e" using test_inv_running [OF inv] by blast
    with thread_throws step.prems show ?thesis by force
  qed (use step in auto)
qed

text \<open>The steps that are left at most.\<close>

definition steps_left :: "test_env \<Rightarrow> test_state \<Rightarrow> nat" where
  "steps_left e s =
     (case at_main s of Creating i \<Rightarrow> 2 * (te_threads e - i) + 2 | Spinning \<Rightarrow> 1 | _ \<Rightarrow> 0) + length (running s)"

text \<open>
  C38: If every thread can be created and its test comes to an end, the self test of the client ends: in every
  reachable state in which it has not reported its time some thread can go on, and every step, in
  any interleaving, brings it nearer to the end.
\<close>

theorem testServer_ends:
  assumes "test_reachable e num s" and "\<forall>i < te_threads e. te_created e i \<and> (\<exists>txt. te_run e i = Ends txt)"
  shows "(at_main s = Completed \<or> (\<exists>s'. test_step e s s')) \<and>
    (\<forall>s'. test_step e s s' \<longrightarrow> steps_left e s' < steps_left e s)"
proof -
  obtain "is" where inv: "test_inv e s is" using test_inv_reachable [OF assms(1)] by blast
  have alive: "at_main s \<noteq> Aborted" by (rule test_not_aborted [OF assms])
  have run: "\<exists>txt. te_run e i = Ends txt" if "i \<in> set (running s)" for i
    using test_inv_running [OF inv alive that] assms(2) by blast
  have "\<exists>s'. test_step e s s'" if "at_main s \<noteq> Completed"
  proof (cases "at_main s")
    case (Creating i)
    then show ?thesis using test_step.create test_step.create_fails test_step.all_created by (metis not_le)
  next
    case Spinning
    show ?thesis
    proof (cases "running s")
      case Nil
      have "{0..<te_threads e} \<subseteq> set is"
        using inv alive Spinning Nil assms(2) by (auto simp: test_inv_def position_def)
      then have "te_threads e \<le> length is"
        using card_mono [of "set is" "{0..<te_threads e}"] card_length [of "is"] by simp
      then have "test_counter s \<le> 0" using inv alive by (simp add: test_inv_def)
      with Spinning show ?thesis using test_step.completes by blast
    next
      case (Cons i r)
      with run [of i] alive show ?thesis using test_step.thread_ends by (metis list.set_intros(1))
    qed
  qed (use that alive in auto)
  moreover have "steps_left e s' < steps_left e s" if "test_step e s s'" for s'
    using that
  proof cases
    case (thread_ends i t)
    then have "length (remove1 i (running s)) < length (running s)"
      using length_pos_if_in_set [OF thread_ends(3)] by (simp add: length_remove1)
    with thread_ends show ?thesis by (simp add: steps_left_def split: test_main.splits)
  next
    case (thread_throws i)
    with run [of i] show ?thesis by simp
  qed (auto simp: steps_left_def)
  ultimately show ?thesis by blast
qed

theorem testServer_ends_witness:
  "\<exists>s s'. testServer 1 = Inr (1, s) \<and>
     test_step \<lparr>te_threads = 1, te_created = (\<lambda>i. True), te_run = (\<lambda>i. Ends ''End thread''),
       te_times = (\<lparr>tv_sec = 0, tv_usec = 0\<rparr>, \<lparr>tv_sec = 1, tv_usec = 0\<rparr>)\<rparr> s s'"
proof -
  let ?e = "\<lparr>te_threads = 1, te_created = (\<lambda>i. True), te_run = (\<lambda>i. Ends ''End thread''),
    te_times = (\<lparr>tv_sec = 0, tv_usec = 0\<rparr>, \<lparr>tv_sec = 1, tv_usec = 0\<rparr>)\<rparr>"
  obtain s where s: "testServer 1 = Inr (1, s)" "at_main s \<noteq> Completed" by (auto simp: testServer_def)
  then have "test_reachable ?e 1 s" by (intro test_reachable.start) simp
  from testServer_ends [OF this] s show ?thesis by simp
qed

end
