(* ===== verification/Http_Request.thy ===== *)
theory Http_Request
  imports Sawa_Util
begin

text \<open>
  The request line of \<^verbatim>\<open>server/http_srv.cpp\<close>: what the regular expression of \<open>HTTPRequest\<close>
  matches and which groups it leaves in \<open>path\<close> and \<open>query_string\<close>, and \<open>ends_with\<close>.
\<close>

section \<open>Character classes\<close>

definition space_char :: "char \<Rightarrow> bool" where
  "space_char c \<longleftrightarrow> c = CHR '' '' \<or> c = CHR 0x09 \<or> c = CHR 0x0A \<or> c = CHR 0x0B \<or> c = CHR 0x0C \<or> c = CHR 0x0D"

definition word_char :: "char \<Rightarrow> bool" where
  "word_char c \<longleftrightarrow>
     (let k = of_char c :: nat
      in 48 \<le> k \<and> k \<le> 57 \<or> 65 \<le> k \<and> k \<le> 90 \<or> 97 \<le> k \<and> k \<le> 122) \<or> c = CHR ''_''"

text \<open>The class \<open>[\w\.\-/]\<close>, and what \<open>.\<close> does not match.\<close>

definition path_char :: "char \<Rightarrow> bool" where
  "path_char c \<longleftrightarrow> word_char c \<or> c = CHR ''.'' \<or> c = CHR ''-'' \<or> c = CHR ''/''"

definition line_end :: "char \<Rightarrow> bool" where
  "line_end c \<longleftrightarrow> c = CHR 0x0A \<or> c = CHR 0x0D"

lemma path_char_class: "path_char c \<Longrightarrow> \<not> space_char c \<and> c \<noteq> CHR ''?''"
  by (auto simp: path_char_def word_char_def space_char_def Let_def)

section \<open>The regular expression\<close>

fun prefix_of :: "string \<Rightarrow> string \<Rightarrow> bool" where
  "prefix_of [] s = True"
| "prefix_of (c # p) [] = False"
| "prefix_of (c # p) (d # s) = (c = d \<and> prefix_of p s)"

text \<open>\<open>\s+HTTP\<close>: the blanks cannot overlap with the word, so the longest run is the only candidate.\<close>

definition ws_http :: "string \<Rightarrow> bool" where
  "ws_http s \<longleftrightarrow> (case s of [] \<Rightarrow> False | c # _ \<Rightarrow> space_char c \<and> prefix_of ''HTTP'' (dropWhile space_char s))"

text \<open>\<open>(.*)\s+HTTP\<close>: the longest text without a line end that is followed by blanks and the word.\<close>

fun longest_query :: "string \<Rightarrow> string option" where
  "longest_query [] = None"
| "longest_query (c # s) =
     (case (if line_end c then None else longest_query s) of
        Some q \<Rightarrow> Some (c # q)
      | None \<Rightarrow> if ws_http (c # s) then Some [] else None)"

text \<open>
  The whole expression: the path is a longest run of its class, since a shorter one is followed by
  a character of the class.  The result is the first and the third group.
\<close>

definition match_request :: "string \<Rightarrow> (string \<times> string) option" where
  "match_request s =
     (if \<not> prefix_of ''GET'' s then None
      else
        let s1 = drop 3 s; s2 = dropWhile space_char s1;
            path = takeWhile path_char s2; s3 = dropWhile path_char s2
        in if s1 = s2 \<or> path = [] then None
           else if prefix_of ''?'' s3 then map_option (\<lambda>q. (path, q)) (longest_query (tl s3))
           else if ws_http s3 then Some (path, []) else None)"

section \<open>HTTPRequest\<close>

record http_request =
  req_method :: string
  req_path :: string
  req_query :: string
  req_valid :: bool
  req_keep_alive :: bool

text \<open>
  \<open>buffer_in\<close> is the memory from the request's first byte on.  The loop over the matches assigns on
  the groups 1 and 3 of the first match only, because \<open>idx\<close> is never reset; the assignment of group 1
  to the query falls through and is overwritten by group 3.
\<close>

definition HTTPRequest :: "string \<Rightarrow> fault + http_request" where
  "HTTPRequest buffer_in =
     (let line = takeWhile (\<lambda>c. c \<noteq> CHR 0x0A) (cstr buffer_in);
          (path, query) = (case match_request line of None \<Rightarrow> ([], []) | Some pq \<Rightarrow> pq)
      in sbind (strnCaseStr buffer_in ''Connection: Keep-Alive'' 1016)
           (\<lambda>keep. Inr \<lparr>req_method = ''GET'', req_path = path, req_query = query,
                         req_valid = (path \<noteq> []), req_keep_alive = keep\<rparr>))"

definition ends_with :: "string \<Rightarrow> string \<Rightarrow> bool" where
  "ends_with s ending \<longleftrightarrow> length ending \<le> length s \<and> drop (length s - length ending) s = ending"

section \<open>What a request line parses to\<close>

lemma longest_query_append:
  assumes "\<forall>c \<in> set q. \<not> line_end c" and "longest_query rest = Some []"
  shows "longest_query (q @ rest) = Some q"
  using assms by (induction q) auto

text \<open>No second \<open>HTTP\<close> after blanks in the protocol's name and what follows it on the line.\<close>

lemma longest_query_tail:
  assumes "ws_http (c # s)" and "longest_query s = None \<or> line_end c"
  shows "longest_query (c # s) = Some []"
  using assms by auto

lemma longest_query_no_space: "\<forall>c \<in> set s. \<not> space_char c \<Longrightarrow> longest_query s = None"
  by (induction s) (auto simp: ws_http_def)

lemma longest_query_version:
  assumes "\<forall>c \<in> set v. \<not> space_char c"
  shows "longest_query ('' HTTP'' @ v @ [CHR 0x0D]) = Some []"
proof (simp only: append_Cons append_Nil, rule longest_query_tail)
  show "ws_http (CHR '' '' # CHR ''H'' # CHR ''T'' # CHR ''T'' # CHR ''P'' # v @ [CHR 0x0D])"
    by (simp add: ws_http_def space_char_def)
  have "longest_query (w @ [CHR 0x0D]) = None" if "\<forall>c \<in> set w. \<not> space_char c" for w
    using that by (induction w) (auto simp: ws_http_def space_char_def line_end_def)
  from this [of "''HTTP'' @ v"] assms
  show "longest_query (CHR ''H'' # CHR ''T'' # CHR ''T'' # CHR ''P'' # v @ [CHR 0x0D]) = None \<or>
      line_end (CHR '' '')"
    by (simp add: space_char_def)
qed

lemma dropWhile_span: "\<forall>c \<in> set xs. P c \<Longrightarrow> \<not> P y \<Longrightarrow> dropWhile P (xs @ y # ys) = y # ys"
  by (induction xs) auto

lemma takeWhile_span: "\<forall>c \<in> set xs. P c \<Longrightarrow> \<not> P y \<Longrightarrow> takeWhile P (xs @ y # ys) = xs"
  by (induction xs) auto

text \<open>
  C22: A request line \<open>GET path HTTP/...\<close> or \<open>GET path?query HTTP/...\<close> parses to its path and its
  query: any non-empty path of the accepted characters (dots included, so \<open>/../\<close> too), and any query
  without line ends, even one that contains blanks or \<open>HTTP\<close> itself.
\<close>

theorem request_line_roundtrip:
  assumes "p \<noteq> []" and "\<forall>c \<in> set p. path_char c" and "\<forall>c \<in> set q. \<not> line_end c"
    and "\<forall>c \<in> set v. \<not> space_char c"
  shows "match_request (''GET '' @ p @ '' HTTP'' @ v @ [CHR 0x0D]) = Some (p, []) \<and>
    match_request (''GET '' @ p @ ''?'' @ q @ '' HTTP'' @ v @ [CHR 0x0D]) = Some (p, q)"
proof -
  obtain c p' where p: "p = c # p'" using assms(1) by (cases p) auto
  have c: "\<not> space_char c" using assms(2) p path_char_class by simp
  have blank: "\<not> path_char (CHR '' '')" "\<not> path_char (CHR ''?'')"
    by (auto simp: path_char_def word_char_def)
  have drop: "dropWhile space_char (CHR '' '' # p @ t) = p @ t" for t
    using c by (simp add: p space_char_def)
  have ws: "ws_http (CHR '' '' # CHR ''H'' # CHR ''T'' # CHR ''T'' # CHR ''P'' # t)" for t
    by (simp add: ws_http_def space_char_def)
  have "longest_query (q @ '' HTTP'' @ v @ [CHR 0x0D]) = Some q"
    using longest_query_append [OF assms(3) longest_query_version [OF assms(4)]] .
  then show ?thesis
    using assms(1) drop takeWhile_span [OF assms(2) blank(1)] dropWhile_span [OF assms(2) blank(1)]
      takeWhile_span [OF assms(2) blank(2)] dropWhile_span [OF assms(2) blank(2)] ws
    by (simp add: match_request_def Let_def)
qed

theorem request_line_roundtrip_witness:
  "match_request (''GET /../x?a HTTP b HTTP/1.1'' @ [CHR 0x0D]) = Some (''/../x'', ''a HTTP b'')"
  using request_line_roundtrip [of "''/../x''" "''a HTTP b''" "''/1.1''"]
  by (simp add: path_char_def word_char_def line_end_def space_char_def)

end
