(* ===== verification/Towa_Ipc.thy ===== *)
theory Towa_Ipc
  imports Posix
begin

text \<open>
  \<^verbatim>\<open>server/towa_ipc.cpp\<close>: the messages between the web server and the application pool, and the two
  named pipes that carry them.  What is in a pipe between its being opened and closed is a list of
  bytes.  The TCP and shared memory variants are stubs in the code and here.
\<close>

definition TOWA_HTTP_200 :: byte where "TOWA_HTTP_200 = 1"
definition TOWA_HTTP_404 :: byte where "TOWA_HTTP_404 = 2"
definition TOWA_HTTP_500 :: byte where "TOWA_HTTP_500 = 3"

lemmas towa_defs = TOWA_HTTP_200_def TOWA_HTTP_404_def TOWA_HTTP_500_def

section \<open>Message\<close>

text \<open>\<open>m_header\<close> is \<open>None\<close> while the field has not been set.\<close>

record message =
  m_content :: "byte list"
  m_size :: int
  m_header :: "byte option"

text \<open>
  \<open>Message(FILE*, bool)\<close> on the bytes of a pipe: the size, a header byte that counts in the size if
  the caller expects one, the contents.  The results of \<open>fread\<close> are ignored: what is missing is 0 in
  the size, which was cleared, and indeterminate elsewhere (\<open>blk\<close>).
\<close>

definition read_message :: "(nat \<Rightarrow> byte) \<Rightarrow> bool \<Rightarrow> byte list \<Rightarrow> fault + message" where
  "read_message blk hasHeader pipe =
     (let sz = sint (load32 (take 4 pipe @ replicate (4 - length pipe) 0));
          pipe1 = drop 4 pipe;
          (header, sz, pipe2) =
            (if hasHeader
             then (case pipe1 of [] \<Rightarrow> None | h # _ \<Rightarrow> Some h, sz - 1, drop 1 pipe1)
             else (None, sz, pipe1))
      in if sz < 0 then Inl Bad_array_length
         else Inr \<lparr>m_content = deposit blk (nat sz) (take (nat sz) pipe2), m_size = sz, m_header = header\<rparr>)"

definition Message_of :: "int \<Rightarrow> byte list \<Rightarrow> message" where
  "Message_of sz cont = \<lparr>m_content = cont, m_size = sz, m_header = None\<rparr>"

definition Message_string :: "string \<Rightarrow> message" where
  "Message_string s = \<lparr>m_content = bytes_of s, m_size = int (length s), m_header = None\<rparr>"

definition sendTo :: "message \<Rightarrow> fault + byte list" where
  "sendTo m =
     (if m_size m < 0 \<or> int (length (m_content m)) < m_size m then Inl Overread
      else Inr (le32 (word_of_int (m_size m)) @ take (nat (m_size m)) (m_content m)))"

definition getString :: "message \<Rightarrow> fault + string" where
  "getString m =
     (if m_size m < 0 then Inl Bad_array_length
      else if int (length (m_content m)) < m_size m then Inl Overread
      else Inr (chars_of (take (nat (m_size m)) (m_content m))))"

section \<open>TowaPipe\<close>

definition FAILURE_TOWA_IPC_CANNOT_CREATE_PIPE :: int where
  "FAILURE_TOWA_IPC_CANNOT_CREATE_PIPE = 0x30"

text \<open>The constructor: an existing pipe (\<open>errno\<close> 17) is fine.\<close>

definition TowaPipe :: "int \<times> int \<Rightarrow> int \<times> int \<Rightarrow> int + unit" where
  "TowaPipe ping pong =
     (if fst ping < 0 \<and> snd ping \<noteq> 17 then Inl FAILURE_TOWA_IPC_CANNOT_CREATE_PIPE
      else if fst pong < 0 \<and> snd pong \<noteq> 17 then Inl FAILURE_TOWA_IPC_CANNOT_CREATE_PIPE
      else Inr ())"

text \<open>\<open>other\<close> is the process at the other end: what it puts into the pong pipe for what it got.\<close>

definition request_text :: "string \<Rightarrow> string \<Rightarrow> string \<Rightarrow> string" where
  "request_text verb classname querystring = verb @ ''|'' @ classname @ ''|'' @ querystring"

definition pipe_sendMsg ::
  "(nat \<Rightarrow> byte) \<Rightarrow> (byte list \<Rightarrow> fault + byte list) \<Rightarrow> string \<Rightarrow> string \<Rightarrow> string \<Rightarrow> fault + message"
where
  "pipe_sendMsg blk other verb classname querystring =
     sbind (sendTo (Message_string (request_text verb classname querystring))) (\<lambda>ping.
     sbind (other ping) (\<lambda>pong. read_message blk True pong))"

text \<open>One round of the application pool; a null pointer from the callback is followed.\<close>

definition pipe_listenToMsg ::
  "(nat \<Rightarrow> byte) \<Rightarrow> (message \<Rightarrow> fault + message option) \<Rightarrow> byte list \<Rightarrow> fault + byte list"
where
  "pipe_listenToMsg blk callback ping =
     sbind (read_message blk False ping) (\<lambda>msg_in.
     sbind (callback msg_in) (\<lambda>r. case r of None \<Rightarrow> Inl Null_deref | Some msg_out \<Rightarrow> sendTo msg_out))"

section \<open>Round trips\<close>

lemma sint_word_of_int_u32: "0 \<le> k \<Longrightarrow> k < 2 ^ 31 \<Longrightarrow> sint (word_of_int k :: u32) = k"
  by (simp add: sint_sbintrunc' signed_take_bit_int_eq_self)

lemma sendTo_string:
  "sendTo (Message_string s) = Inr (le32 (of_nat (length s)) @ bytes_of s)"
  by (simp add: sendTo_def Message_string_def)

lemma read_message_plain:
  assumes "length bs < 2 ^ 31"
  shows "read_message blk False (le32 (of_nat (length bs)) @ bs) =
    Inr \<lparr>m_content = bs, m_size = int (length bs), m_header = None\<rparr>"
  using sint_of_nat_u32 [OF assms] by (simp add: read_message_def Let_def)

lemma read_message_header:
  assumes "Suc (length bs) < 2 ^ 31"
  shows "read_message blk True (le32 (of_nat (Suc (length bs))) @ h # bs) =
    Inr \<lparr>m_content = bs, m_size = int (length bs), m_header = Some h\<rparr>"
  using sint_of_nat_u32 [OF assms] by (simp add: read_message_def Let_def del: of_nat_Suc)

lemma pipe_exchange:
  assumes "length (request_text v c q) < 2 ^ 31" and "length reply < 2 ^ 31"
    and "callback \<lparr>m_content = bytes_of (request_text v c q), m_size = int (length (request_text v c q)),
           m_header = None\<rparr> = Inr (Some (Message_string reply))"
  shows "pipe_sendMsg blk (pipe_listenToMsg blk' callback) v c q =
    (case bytes_of reply of
       [] \<Rightarrow> Inl Bad_array_length
     | h # bs \<Rightarrow> Inr \<lparr>m_content = bs, m_size = int (length bs), m_header = Some h\<rparr>)"
proof -
  have ping: "read_message blk' False (le32 (of_nat (length (request_text v c q))) @ bytes_of (request_text v c q))
      = Inr \<lparr>m_content = bytes_of (request_text v c q), m_size = int (length (request_text v c q)),
             m_header = None\<rparr>"
    using read_message_plain [of "bytes_of (request_text v c q)" blk'] assms(1) by simp
  have listen: "pipe_listenToMsg blk' callback
      (le32 (of_nat (length (request_text v c q))) @ bytes_of (request_text v c q)) =
    Inr (le32 (of_nat (length reply)) @ bytes_of reply)"
    unfolding pipe_listenToMsg_def ping by (simp add: assms(3) sendTo_string)
  have send: "pipe_sendMsg blk (pipe_listenToMsg blk' callback) v c q =
      read_message blk True (le32 (of_nat (length reply)) @ bytes_of reply)"
    unfolding pipe_sendMsg_def by (simp add: sendTo_string listen)
  show ?thesis
  proof (cases reply)
    case Nil
    have "read_message blk True (le32 0) = Inl Bad_array_length" by (simp add: read_message_def Let_def)
    then show ?thesis using Nil by (simp add: send bytes_of_def)
  next
    case (Cons d ds)
    then show ?thesis
      unfolding send using read_message_header [of "bytes_of ds" blk "of_char d"] assms(2)
      by (simp add: bytes_of_def)
  qed
qed

text \<open>
  Over the pipes, the application pool gets exactly the text the web server built from verb, class
  and query, and the web server gets from a reply its first byte as the header and the rest as the
  contents; an empty reply makes the web server ask for an array of negative length.
\<close>

theorem pipe_round_trip:
  assumes "length (request_text v c q) < 2 ^ 31" and "length reply < 2 ^ 31"
    and "callback \<lparr>m_content = bytes_of (request_text v c q), m_size = int (length (request_text v c q)),
           m_header = None\<rparr> = Inr (Some (Message_string reply))"
  shows "pipe_sendMsg blk (pipe_listenToMsg blk' callback) v c q =
    (case bytes_of reply of
       [] \<Rightarrow> Inl Bad_array_length
     | h # bs \<Rightarrow> Inr \<lparr>m_content = bs, m_size = int (length bs), m_header = Some h\<rparr>)"
  using assms by (rule pipe_exchange)

theorem pipe_round_trip_witness:
  "pipe_sendMsg (\<lambda>i. 0) (pipe_listenToMsg (\<lambda>i. 0) (\<lambda>m. Inr (Some (Message_string ''AB'')))) ''GET'' ''T'' [] =
     Inr \<lparr>m_content = [0x42], m_size = 1, m_header = Some 0x41\<rparr>"
  using pipe_round_trip [of "''GET''" "''T''" "[]" "''AB''" "\<lambda>m. Inr (Some (Message_string ''AB''))"]
  by (simp add: request_text_def bytes_of_def)

end
