(* ===== verification/Http_Server.thy ===== *)
theory Http_Server
  imports Http_Request Connection_Thread Towa_Ipc
begin

text \<open>
  \<^verbatim>\<open>server/http_srv.cpp\<close>: the web server.  The state is what a connection's handler can touch: the
  cache of files, the bytes it has sent, the statistics of its thread, the allocator.  The file
  system is an argument, as is the application pool of ToWa that \<open>TowaMgr::sendMsg\<close> asks.
\<close>

section \<open>Texts\<close>

definition HTTP_200 :: string where
  "HTTP_200 = ''HTTP/1.1 200 OK'' @ newline @ ''Keep-Alive: timeout=15, max=95'' @ newline @
     ''Connection: Keep-Alive'' @ newline"

definition HTTP_404 :: string where
  "HTTP_404 = ''HTTP/1.1 404 Not Found'' @ newline @ ''Content-Type: text/html; charset=UTF-8'' @ newline @
     ''Content-Length: 12'' @ newline @ newline @ ''Error 404 - Not found'' @ newline @ newline"

definition root_dir :: string where "root_dir = ''./wwwroot''"
definition index_html :: string where "index_html = ''index.html''"

definition HTTP_200_COL :: nat where "HTTP_200_COL = 0"
definition HTTP_404_COL :: nat where "HTTP_404_COL = 1"
definition HTTP_500_COL :: nat where "HTTP_500_COL = 2"

definition request_message_len :: nat where "request_message_len = 1016"

section \<open>Files\<close>

text \<open>
  What \<open>stat\<close> and \<open>fopen\<close> say of a path: the mode, the size, and the bytes a read delivers (\<open>None\<close>:
  it cannot be opened; a directory can be opened and delivers none).
\<close>

record stat_entry =
  st_mode :: "32 word"
  st_size :: nat
  st_data :: "byte list option"

type_synonym file_system = "string \<Rightarrow> stat_entry option"

record web_file =
  content :: "byte list"
  wf_size :: int

type_synonym towa_fun = "string \<Rightarrow> string \<Rightarrow> string \<Rightarrow> fault + message"

record http_state =
  cache :: "string \<rightharpoonup> web_file option"
  h_tx :: "byte list"
  h_thread :: connection_thread
  h_allocs :: nat
  h_junk :: "nat \<Rightarrow> nat \<Rightarrow> byte"

text \<open>
  \<open>WebFile(path, size)\<close>: \<open>new\<close> of an array of negative length throws, which nothing catches; after it
  the null pointer of a failed \<open>fopen\<close> is followed.
\<close>

definition WebFile :: "stat_entry \<Rightarrow> int \<Rightarrow> http_state \<Rightarrow> fault + web_file \<times> http_state" where
  "WebFile e file_size s =
     (if file_size < 0 then Inl Bad_array_length
      else
        (case st_data e of
           None \<Rightarrow> Inl Null_deref
         | Some bs \<Rightarrow>
             Inr (\<lparr>content = deposit (h_junk s (h_allocs s)) (nat file_size) (take (nat file_size) bs),
                   wf_size = file_size\<rparr>, s\<lparr>h_allocs := Suc (h_allocs s)\<rparr>)))"

definition WebFile_msg :: "message \<Rightarrow> web_file" where
  "WebFile_msg m = \<lparr>content = m_content m, wf_size = m_size m\<rparr>"

text \<open>
  \<open>cache[path]\<close> inserts a null pointer for a new path.  \<open>st_mode & S_IFDIR != 0\<close> is
  \<open>st_mode & (S_IFDIR != 0)\<close>: the lowest bit of the mode.  \<open>int file_size = st.st_size\<close> keeps the
  lowest 32 bits of the size, as a signed number.
\<close>

definition getFile :: "file_system \<Rightarrow> string \<Rightarrow> http_state \<Rightarrow> fault + web_file option \<times> http_state" where
  "getFile fs path s =
     (let path = root_dir @ path;
          the_file = (case cache s path of None \<Rightarrow> None | Some f \<Rightarrow> f);
          s = s\<lparr>cache := (cache s)(path \<mapsto> the_file)\<rparr>
      in if the_file \<noteq> None then Inr (the_file, s)
         else
           (case fs path of
              None \<Rightarrow> Inr (None, s)
            | Some st \<Rightarrow>
                let is_dir = (st_mode st AND (if (0x4000 :: 32 word) \<noteq> 0 then 1 else 0) \<noteq> 0);
                    path = (if is_dir
                            then (if ends_with path ''/'' then path @ index_html
                                  else path @ ''/'' @ index_html)
                            else path)
                in (case (if is_dir then fs path else Some st) of
                      None \<Rightarrow> Inr (None, s)
                    | Some st \<Rightarrow>
                        sbind (WebFile st (sint (of_nat (st_size st) :: u32)) s)
                          (\<lambda>(f, s). Inr (Some f, s\<lparr>cache := (cache s)(path \<mapsto> Some f)\<rparr>)))))"

definition generate500Response :: "string \<Rightarrow> string" where
  "generate500Response desc =
     (let cont = ''<h1>500 Internal Server Error</h1>'' @ newline @ desc
      in ''HTTP/1.1 500 Internal Server Error'' @ newline @ ''Content-Type: text/html; charset=UTF-8'' @
         newline @ ''Content-Length: '' @ show_dec (int (length cont)) @ newline @ newline @ cont)"

section \<open>processRequest\<close>

definition send :: "byte list \<Rightarrow> http_state \<Rightarrow> http_state" where
  "send bs s = s\<lparr>h_tx := h_tx s @ bs\<rparr>"

definition http_updateScreen :: "nat \<Rightarrow> http_state \<Rightarrow> http_state" where
  "http_updateScreen idx s = s\<lparr>h_thread := updateScreen idx (h_thread s)\<rparr>"

definition header_200 :: "web_file \<Rightarrow> byte list" where
  "header_200 f = bytes_of (HTTP_200 @ ''Content-Length: '' @ show_dec (wf_size f) @ newline @
     ''Content-Type: text/html;'' @ newline @ newline)"

text \<open>
  The answer to a request whose file was looked up; \<open>write\<close> takes the size of the file, and a
  negative one makes it fail with nothing sent.
\<close>

definition respond :: "web_file option \<Rightarrow> bool \<Rightarrow> http_state \<Rightarrow> fault + bool \<times> http_state" where
  "respond the_file keep s =
     (case the_file of
        None \<Rightarrow> Inr (False, send (bytes_of HTTP_404) (http_updateScreen HTTP_404_COL s))
      | Some f \<Rightarrow>
          let s = send (header_200 f) (http_updateScreen HTTP_200_COL s)
          in if wf_size f < 0 then Inr (keep, s)
             else if int (length (content f)) < wf_size f then Inl Overread
             else Inr (keep, send (take (nat (wf_size f)) (content f)) s))"

text \<open>
  \<open>towa\<close> is \<open>None\<close> without the \<open>-towa\<close> flag.  The cases of the switch for 200 and 404 both leave it
  by \<open>break\<close>, and the file is built from the message after it.
\<close>

definition http_processRequest ::
  "file_system \<Rightarrow> towa_fun option \<Rightarrow> string \<Rightarrow> http_state \<Rightarrow> fault + bool \<times> http_state"
where
  "http_processRequest fs towa req_msg s =
     sbind (HTTPRequest req_msg) (\<lambda>request.
       if \<not> req_valid request then
         Inr (False, send (bytes_of (generate500Response ''Invalid request''))
                       (http_updateScreen HTTP_500_COL s))
       else
         (case towa of
            None \<Rightarrow>
              sbind (getFile fs (req_path request) s)
                (\<lambda>(f, s). respond f (req_keep_alive request) s)
          | Some sendMsg \<Rightarrow>
              sbind (sendMsg (req_method request) (drop 1 (req_path request)) (req_query request)) (\<lambda>msg_in.
                if m_header msg_in = Some TOWA_HTTP_200 \<or> m_header msg_in = Some TOWA_HTTP_404
                then respond (Some (WebFile_msg msg_in)) (req_keep_alive request) s
                else sbind (getString msg_in) (\<lambda>desc.
                  Inr (False, send (bytes_of (generate500Response desc))
                                (http_updateScreen HTTP_500_COL s))))))"

section \<open>readData\<close>

text \<open>
  A \<open>request_message\<close> is 1016 bytes and a pointer to the next, null unless another was chained; the
  parser takes the first one's memory as a string.  The bytes of a pointer that is not null are
  indeterminate but for the two highest, which are zero for an address of the process.
\<close>

definition block_memory :: "byte list \<Rightarrow> string" where
  "block_memory got = chars_of (got @ replicate (request_message_len - length got) 0 @ replicate 8 0)"

definition chained_memory :: "(nat \<Rightarrow> byte) \<Rightarrow> byte list \<Rightarrow> string" where
  "chained_memory ptr_bytes full = chars_of (full @ map ptr_bytes [0..<6] @ [0, 0])"

definition blank_line :: "byte list" where
  "blank_line = [0x0D, 0x0A, 0x0D, 0x0A]"

text \<open>
  \<open>top_msg\<close> is \<open>None\<close> while the message being read is the first of its chain, and the first one's bytes
  otherwise.  \<open>strcmp\<close> is zero, and so the test false, when the block ends with an empty line.
\<close>

function http_readData ::
  "file_system \<Rightarrow> towa_fun option \<Rightarrow> byte list option \<Rightarrow> byte rx list \<Rightarrow> http_state \<Rightarrow>
   fault + http_state \<times> byte rx list"
where
  "http_readData fs towa top_msg evs s =
     (let (n, got, evs1) = sock_read request_message_len evs
      in if n \<le> 0 then Inr (s, evs1)
         else if n < int request_message_len \<or> drop (request_message_len - 4) got \<noteq> blank_line then
           (let (memory, s) = (case top_msg of
                  None \<Rightarrow> (block_memory got, s)
                | Some full \<Rightarrow>
                    (chained_memory (h_junk s (h_allocs s)) full, s\<lparr>h_allocs := Suc (h_allocs s)\<rparr>))
            in (case http_processRequest fs towa memory s of
                  Inl e \<Rightarrow> Inl e
                | Inr (keep, s1) \<Rightarrow>
                    if keep then http_readData fs towa None evs1 s1 else Inr (s1, evs1)))
         else http_readData fs towa (Some (case top_msg of None \<Rightarrow> got | Some full \<Rightarrow> full)) evs1 s)"
  by pat_completeness auto
termination
  by (relation "measure (\<lambda>(fs, towa, top_msg, evs, s). rx_size evs)") (auto dest: sock_read_progress [OF sym])

declare http_readData.simps [simp del]

end
