(* ===== verification/Http_Claims.thy ===== *)
theory Http_Claims
  imports Http_Server
begin

text \<open>
  The web server on requests its parser accepts: the file that is served and cached, the test for
  directories, the end of a long request, and the answers of the application pool.
\<close>

section \<open>Requests in memory\<close>

text \<open>A request shorter than a block, as the parser finds it in memory.\<close>

lemma parse_block:
  assumes "length req < 1016" and "CHR 0x00 \<notin> set req"
    and "match_request (takeWhile (\<lambda>c. c \<noteq> CHR 0x0A) req) = Some (p, q)" and "p \<noteq> []"
  shows "\<exists>k. HTTPRequest (block_memory (bytes_of req)) =
    Inr \<lparr>req_method = ''GET'', req_path = p, req_query = q, req_valid = True, req_keep_alive = k\<rparr>"
proof -
  let ?pad = "replicate (1016 - length req) (CHR 0x00) @ replicate 7 (CHR 0x00)"
  have z: "char_of (unat (0 :: byte)) = CHR 0x00" by (simp add: char_of_def)
  have mem: "block_memory (bytes_of req) = (req @ ?pad) @ [CHR 0x00]"
    using assms(1) z by (simp add: block_memory_def chars_of_append request_message_len_def)
      (simp add: chars_of_def z replicate_append_same [symmetric] numeral_eq_Suc)
  have "cstr (block_memory (bytes_of req)) = req"
  proof -
    obtain n where "1016 - length req = Suc n" using assms(1) by (metis Suc_diff_Suc)
    then show ?thesis using assms(2) by (simp add: mem)
  qed
  moreover obtain k where "strnCaseStr (block_memory (bytes_of req)) ''Connection: Keep-Alive'' 1016 = Inr k"
    using strnCaseStr_nul [of "''Connection: Keep-Alive''" 1016 "req @ ?pad"] assms(1) by (auto simp: mem)
  ultimately show ?thesis using assms(3,4) by (simp add: HTTPRequest_def)
qed

text \<open>One request of less than a block, in one segment, on an idle connection.\<close>

lemma readData_one:
  assumes "length req < 1016" and "req \<noteq> []"
    and "http_processRequest fs towa (block_memory (bytes_of req)) s = Inr (k, s')"
  shows "http_readData fs towa None [Data (bytes_of req)] s = Inr (s', [])"
proof -
  have 1: "sock_read 1016 [Data (bytes_of req)] = (int (length req), bytes_of req, [])"
    using assms(1) by simp
  have 2: "http_readData fs towa None [] s' = Inr (s', [])" by (subst http_readData.simps) simp
  show ?thesis
    using assms 2 by (subst http_readData.simps) (simp add: request_message_len_def 1 Let_def del: sock_read.simps)
qed

section \<open>Files\<close>

lemma getFile_cached:
  assumes "cache s (root_dir @ p) = Some (Some f)"
  shows "getFile fs p s = Inr (Some f, s)"
proof -
  have "(cache s)(root_dir @ p \<mapsto> Some f) = cache s" using assms by (simp add: fun_upd_idem)
  then show ?thesis using assms by (simp add: getFile_def Let_def)
qed

lemma getFile_regular:
  assumes "cache s (root_dir @ p) \<in> {None, Some None}" and "fs (root_dir @ p) = Some st"
    and "st_mode st AND 1 = 0" and "st_data st = Some bs" and "st_size st = length bs" and "length bs < 2 ^ 31"
  shows "getFile fs p s = Inr (Some \<lparr>content = bs, wf_size = int (length bs)\<rparr>,
    s\<lparr>h_allocs := Suc (h_allocs s),
      cache := (cache s)(root_dir @ p \<mapsto> Some \<lparr>content = bs, wf_size = int (length bs)\<rparr>)\<rparr>)"
  using assms sint_of_nat_u32 [OF assms(6)] by (auto simp: getFile_def Let_def WebFile_def)

text \<open>
  A request for a regular file is answered with the 200 header, which gives its length, and its
  bytes, and counted; from then on the same request is answered with the same bytes from the cache,
  whatever has become of the file.
\<close>

theorem file_served_and_cached:
  assumes "length req < 1016" and "CHR 0x00 \<notin> set req" and "p \<noteq> []"
    and "match_request (takeWhile (\<lambda>c. c \<noteq> CHR 0x0A) req) = Some (p, q)"
    and "cache s (root_dir @ p) \<in> {None, Some None}" and "fs (root_dir @ p) = Some st"
    and "st_mode st AND 1 = 0" and "st_data st = Some bs" and "st_size st = length bs" and "length bs < 2 ^ 31"
  shows "\<exists>s'. http_readData fs None None [Data (bytes_of req)] s = Inr (s', []) \<and>
    h_tx s' = h_tx s @ header_200 \<lparr>content = bs, wf_size = int (length bs)\<rparr> @ bs \<and>
    h_thread s' = updateScreen HTTP_200_COL (h_thread s) \<and>
    (\<forall>fs'. \<exists>s''. http_readData fs' None None [Data (bytes_of req)] s' = Inr (s'', []) \<and>
       h_tx s'' = h_tx s' @ header_200 \<lparr>content = bs, wf_size = int (length bs)\<rparr> @ bs)"
proof -
  let ?f = "\<lparr>content = bs, wf_size = int (length bs)\<rparr>"
  have ne: "req \<noteq> []" using assms(4) by (auto simp: match_request_def)
  obtain k where k: "HTTPRequest (block_memory (bytes_of req)) =
      Inr \<lparr>req_method = ''GET'', req_path = p, req_query = q, req_valid = True, req_keep_alive = k\<rparr>"
    using parse_block [OF assms(1,2,4,3)] by blast
  let ?s1 = "s\<lparr>h_allocs := Suc (h_allocs s), cache := (cache s)(root_dir @ p \<mapsto> Some ?f)\<rparr>"
  have get: "getFile fs p s = Inr (Some ?f, ?s1)" using assms(5-10) by (rule getFile_regular)
  have resp: "respond (Some ?f) k u = Inr (k, send bs (send (header_200 ?f) (http_updateScreen HTTP_200_COL u)))"
    for u by (simp add: respond_def Let_def)
  let ?s' = "send bs (send (header_200 ?f) (http_updateScreen HTTP_200_COL ?s1))"
  have first: "http_readData fs None None [Data (bytes_of req)] s = Inr (?s', [])"
    by (rule readData_one [OF assms(1) ne, where k = k]) (simp add: http_processRequest_def k get resp)
  have c: "cache ?s' (root_dir @ p) = Some (Some ?f)" by (simp add: send_def http_updateScreen_def)
  have again: "http_readData fs' None None [Data (bytes_of req)] ?s' =
      Inr (send bs (send (header_200 ?f) (http_updateScreen HTTP_200_COL ?s')), [])" for fs'
    by (rule readData_one [OF assms(1) ne, where k = k])
      (simp add: http_processRequest_def k getFile_cached [OF c] resp)
  show ?thesis
    using first again by (intro exI [of _ ?s']) (simp add: send_def http_updateScreen_def)
qed

definition http_start :: http_state where
  "http_start = \<lparr>cache = Map.empty, h_tx = [], h_thread = ConnectionThread 4, h_allocs = 0,
     h_junk = (\<lambda>k i. 0xCC)\<rparr>"

theorem file_served_and_cached_witness:
  "\<exists>s'. http_readData (\<lambda>p. Some \<lparr>st_mode = 0x81A4, st_size = 2, st_data = Some [7, 8]\<rparr>) None None
      [Data (bytes_of ''GET /a HTTP/1.1'')] http_start = Inr (s', []) \<and>
    h_tx s' = header_200 \<lparr>content = [7, 8], wf_size = 2\<rparr> @ [7, 8]"
proof -
  have "match_request (takeWhile (\<lambda>c. c \<noteq> CHR 0x0A) ''GET /a HTTP/1.1'') = Some (''/a'', [])"
    by code_simp
  then show ?thesis
    using file_served_and_cached [of "''GET /a HTTP/1.1''" "''/a''" "[]" http_start
        "\<lambda>p. Some \<lparr>st_mode = 0x81A4, st_size = 2, st_data = Some [7, 8]\<rparr>" _ "[7, 8]"]
    by (auto simp: http_start_def)
qed

text \<open>
  What decides whether a path is a directory is the lowest bit of its mode, the execute permission
  for others.  A regular file with that bit is not found unless \<open><path>/index.html\<close> exists; and a
  directory without it is served as a file, whose contents are a fresh heap block nothing was read
  into.
\<close>

theorem directory_test_is_execute_bit:
  assumes "cache s (root_dir @ p) \<in> {None, Some None}" and "fs (root_dir @ p) = Some st"
    and "\<not> ends_with (root_dir @ p) ''/''" and "st_size st < 2 ^ 31"
  shows "(st_mode st AND 1 \<noteq> 0 \<and> fs (root_dir @ p @ ''/index.html'') = None \<longrightarrow>
      (\<exists>s'. getFile fs p s = Inr (None, s'))) \<and>
    (st_mode st AND 1 = 0 \<and> st_data st = Some [] \<longrightarrow>
      (\<exists>s'. getFile fs p s = Inr (Some \<lparr>content = uninit (h_junk s (h_allocs s)) 0 (st_size st),
         wf_size = int (st_size st)\<rparr>, s')))"
  using assms sint_of_nat_u32 [OF assms(4)]
  by (auto simp: getFile_def Let_def WebFile_def deposit_def uninit_def index_html_def)

text \<open>
  The size of a file is narrowed to an \<open>int\<close>: a file from 2 GiB up to 4 GiB makes the server allocate
  an array of negative length, and of a larger one at most the bytes of its size modulo \<open>2 ^ 32\<close> are served.
\<close>

lemma large_file_narrowed:
  assumes "cache s (root_dir @ p) \<in> {None, Some None}" and "fs (root_dir @ p) = Some st"
    and "st_mode st AND 1 = 0" and "st_data st = Some bs" and "2 ^ 31 \<le> st_size st" and "st_size st < 2 ^ 32"
  shows "getFile fs p s = Inl Bad_array_length"
proof -
  have "unat (of_nat (st_size st) :: u32) = st_size st" using assms(6) by (intro unat_of_nat_u32) simp
  then have "\<not> 0 \<le> sint (of_nat (st_size st) :: u32)"
    using assms(5) sint_nonneg [of "of_nat (st_size st)"] sint_lt [of "of_nat (st_size st) :: u32"] by auto
  with assms(1-4) show ?thesis by (auto simp: getFile_def Let_def WebFile_def)
qed

theorem directory_test_is_execute_bit_witness:
  "(\<exists>s'. getFile (\<lambda>p. if p = ''./wwwroot/a.sh'' then Some \<lparr>st_mode = 0x81ED, st_size = 1, st_data = Some [1]\<rparr>
        else None) ''/a.sh'' http_start = Inr (None, s')) \<and>
   (\<exists>s'. getFile (\<lambda>p. if p = ''./wwwroot/d'' then Some \<lparr>st_mode = 0x41E8, st_size = 2, st_data = Some []\<rparr>
        else None) ''/d'' http_start = Inr (Some \<lparr>content = [0xCC, 0xCC], wf_size = 2\<rparr>, s'))"
proof
  show "\<exists>s'. getFile (\<lambda>p. if p = ''./wwwroot/a.sh'' then Some \<lparr>st_mode = 0x81ED, st_size = 1, st_data = Some [1]\<rparr>
        else None) ''/a.sh'' http_start = Inr (None, s')"
    using directory_test_is_execute_bit [of http_start "''/a.sh''" "\<lambda>p. if p = ''./wwwroot/a.sh''
        then Some \<lparr>st_mode = 0x81ED, st_size = 1, st_data = Some [1]\<rparr> else None"
        "\<lparr>st_mode = 0x81ED, st_size = 1, st_data = Some [1]\<rparr>"]
    by (simp add: http_start_def root_dir_def ends_with_def)
  show "\<exists>s'. getFile (\<lambda>p. if p = ''./wwwroot/d'' then Some \<lparr>st_mode = 0x41E8, st_size = 2, st_data = Some []\<rparr>
        else None) ''/d'' http_start = Inr (Some \<lparr>content = [0xCC, 0xCC], wf_size = 2\<rparr>, s')"
    using directory_test_is_execute_bit [of http_start "''/d''" "\<lambda>p. if p = ''./wwwroot/d''
        then Some \<lparr>st_mode = 0x41E8, st_size = 2, st_data = Some []\<rparr> else None"
        "\<lparr>st_mode = 0x41E8, st_size = 2, st_data = Some []\<rparr>"]
    by (simp add: http_start_def root_dir_def ends_with_def uninit_def upt_rec)
qed

section \<open>Requests of a block or more\<close>

text \<open>
  The test for the end of a request is inverted.  A request of exactly 1016 bytes that ends with
  its empty line is not answered: the server waits for more.  One that is longer, so that the first
  1016 bytes do not end with an empty line, is processed on those bytes alone, and the rest of it is
  taken for another request.
\<close>

theorem long_request_split:
  assumes "length got = 1016"
  shows "(drop 1012 got = blank_line \<longrightarrow>
      http_readData fs towa None [Data got] s = Inr (s, [])) \<and>
    (drop 1012 got \<noteq> blank_line \<longrightarrow>
      http_readData fs towa None (Data (got @ rest) # evs) s =
        sbind (http_processRequest fs towa (block_memory got) s)
          (\<lambda>(keep, s1). let evs1 = (if rest = [] then evs else Data rest # evs)
             in if keep then http_readData fs towa None evs1 s1 else Inr (s1, evs1)))"
proof -
  have 1: "sock_read 1016 [Data got] = (1016, got, [])" using assms by simp
  have 2: "sock_read 1016 (Data (got @ rest) # evs) =
      (1016, got, if rest = [] then evs else Data rest # evs)"
    using assms by simp
  have 3: "http_readData fs towa (Some got) [] s = Inr (s, [])"
    by (subst http_readData.simps) simp
  have "http_readData fs towa None [Data got] s = Inr (s, [])" if "drop 1012 got = blank_line"
    using that 3 by (subst http_readData.simps) (simp add: request_message_len_def 1 del: sock_read.simps)
  moreover have "http_readData fs towa None (Data (got @ rest) # evs) s =
        sbind (http_processRequest fs towa (block_memory got) s)
          (\<lambda>(keep, s1). let evs1 = (if rest = [] then evs else Data rest # evs)
             in if keep then http_readData fs towa None evs1 s1 else Inr (s1, evs1))"
    if "drop 1012 got \<noteq> blank_line"
    using that by (subst http_readData.simps)
      (simp add: request_message_len_def 2 Let_def sbind_def case_prod_beta del: sock_read.simps
        split: sum.splits)
  ultimately show ?thesis by blast
qed

theorem long_request_split_witness:
  "http_readData (\<lambda>p. None) None None [Data (replicate 1012 0x41 @ blank_line)] http_start =
     Inr (http_start, [])"
  using long_request_split [of "replicate 1012 0x41 @ blank_line"] by (simp add: blank_line_def)

section \<open>Answers of the application pool\<close>

text \<open>
  With ToWa, an answer with the code 404 is sent to the client as a 200: header, length and body of
  a found page, counted as one.
\<close>

theorem towa_not_found_sent_as_200:
  assumes "length req < 1016" and "CHR 0x00 \<notin> set req" and "p \<noteq> []"
    and "match_request (takeWhile (\<lambda>c. c \<noteq> CHR 0x0A) req) = Some (p, q)"
    and "sendMsg ''GET'' (drop 1 p) q =
      Inr \<lparr>m_content = bs, m_size = int (length bs), m_header = Some TOWA_HTTP_404\<rparr>"
  shows "\<exists>s'. http_readData fs (Some sendMsg) None [Data (bytes_of req)] s = Inr (s', []) \<and>
    h_tx s' = h_tx s @ header_200 \<lparr>content = bs, wf_size = int (length bs)\<rparr> @ bs \<and>
    h_thread s' = updateScreen HTTP_200_COL (h_thread s)"
proof -
  let ?f = "\<lparr>content = bs, wf_size = int (length bs)\<rparr>"
  have ne: "req \<noteq> []" using assms(4) by (auto simp: match_request_def)
  obtain k where k: "HTTPRequest (block_memory (bytes_of req)) =
      Inr \<lparr>req_method = ''GET'', req_path = p, req_query = q, req_valid = True, req_keep_alive = k\<rparr>"
    using parse_block [OF assms(1,2,4,3)] by blast
  have "http_readData fs (Some sendMsg) None [Data (bytes_of req)] s =
      Inr (send bs (send (header_200 ?f) (http_updateScreen HTTP_200_COL s)), [])"
    by (rule readData_one [OF assms(1) ne, where k = k])
      (simp add: http_processRequest_def k assms(5) [simplified] respond_def WebFile_msg_def Let_def)
  then show ?thesis by (simp add: send_def http_updateScreen_def)
qed

theorem towa_not_found_sent_as_200_witness:
  "\<exists>s'. http_readData (\<lambda>p. None)
      (Some (\<lambda>m c q. Inr \<lparr>m_content = [9], m_size = 1, m_header = Some TOWA_HTTP_404\<rparr>)) None
      [Data (bytes_of ''GET /a HTTP/1.1'')] http_start = Inr (s', []) \<and>
    h_tx s' = header_200 \<lparr>content = [9], wf_size = 1\<rparr> @ [9]"
proof -
  have "match_request (takeWhile (\<lambda>c. c \<noteq> CHR 0x0A) ''GET /a HTTP/1.1'') = Some (''/a'', [])"
    by code_simp
  then show ?thesis
    using towa_not_found_sent_as_200 [of "''GET /a HTTP/1.1''" "''/a''" "[]"
        "\<lambda>m c q. Inr \<lparr>m_content = [9], m_size = 1, m_header = Some TOWA_HTTP_404\<rparr>" "[9]" "\<lambda>p. None" http_start]
    by (auto simp: http_start_def)
qed

end
