(* ===== verification/Driver.thy ===== *)
theory Driver
  imports Client_Service
begin

text \<open>
  The block driver's side of the protocol: \<^verbatim>\<open>tcp.c\<close> (the loops around the kernel's socket
  calls) and \<^verbatim>\<open>sawa.c\<close> (the messages for a range of sectors).  What the kernel's calls return
  is an argument, as a list of results; a list that runs out stands for a call that never returns
  anything else, and the value is \<open>None\<close>.
\<close>

section \<open>tcp.c\<close>

definition ERESTARTSYS :: int where "ERESTARTSYS = 512"
definition EAGAIN :: int where "EAGAIN = 11"
definition EINPROGRESS :: int where "EINPROGRESS = 115"

text \<open>\<open>create_address\<close>: add a byte, shift, four times, without the last shift.\<close>

definition create_address :: "byte list \<Rightarrow> u32" where
  "create_address ip =
     (let a0 = push_bit 8 (0 + ucast (ip ! 0)); a1 = push_bit 8 (a0 + ucast (ip ! 1));
          a2 = push_bit 8 (a1 + ucast (ip ! 2))
      in a2 + ucast (ip ! 3))"

text \<open>\<open>inet_addr\<close> on the four numbers \<open>sscanf\<close> found.\<close>

definition inet_addr :: "int \<Rightarrow> int \<Rightarrow> int \<Rightarrow> int \<Rightarrow> u32" where
  "inet_addr a b c d = un_le32 (word_of_int a) (word_of_int b) (word_of_int c) (word_of_int d)"

definition tcp_client_connect :: "int \<Rightarrow> int \<Rightarrow> int" where
  "tcp_client_connect create_rc connect_rc =
     (if create_rc < 0 then -1
      else if connect_rc \<noteq> 0 \<and> connect_rc \<noteq> - EINPROGRESS then -1 else 0)"

text \<open>The loop of \<open>tcp_client_send\<close>; the second result is what went out.\<close>

fun send_loop :: "bool \<Rightarrow> byte list \<Rightarrow> nat \<Rightarrow> int list \<Rightarrow> (int \<times> byte list) option" where
  "send_loop dontwait buf written [] = None"
| "send_loop dontwait buf written (len # rs) =
     (if len = - ERESTARTSYS \<or> \<not> dontwait \<and> len = - EAGAIN then send_loop dontwait buf written rs
      else if 0 < len then
        (let written = written + nat len
         in if length buf - written \<noteq> 0 then send_loop dontwait buf written rs
            else Some (int written, take written buf))
      else Some (if written \<noteq> 0 then int written else len, take written buf))"

definition tcp_client_send :: "bool \<Rightarrow> byte list \<Rightarrow> int list \<Rightarrow> (int \<times> byte list) option" where
  "tcp_client_send dontwait buf rs = send_loop dontwait buf 0 rs"

text \<open>One \<open>kernel_recvmsg\<close> after the other until one neither asks to try again nor was interrupted.\<close>

fun tcp_client_receive :: "nat \<Rightarrow> (int \<times> byte list) list \<Rightarrow> (int \<times> byte list) option" where
  "tcp_client_receive max_size [] = None"
| "tcp_client_receive max_size ((len, bs) # rs) =
     (if len = - EAGAIN \<or> len = - ERESTARTSYS then tcp_client_receive max_size rs
      else Some (min len (int max_size), take max_size bs))"

section \<open>sawa.c\<close>

text \<open>
  The network of an operation: the result of connecting, those of \<open>kernel_sendmsg\<close>, and those of
  \<open>kernel_recvmsg\<close> once the message \<open>bytes\<close> went out.
\<close>

record network =
  connect :: int
  send_rs :: "int list"
  recv_rs :: "byte list \<Rightarrow> (int \<times> byte list) list"

text \<open>The result of \<open>tcp_client_receive\<close> is ignored; \<open>blk\<close> is the buffer on the stack.\<close>

definition sawa_send_info :: "network \<Rightarrow> (nat \<Rightarrow> byte) \<Rightarrow> (int \<times> u32 option) option" where
  "sawa_send_info net blk =
     (if connect net < 0 then Some (-1, None)
      else
        Option.bind (tcp_client_send False (le32 1 @ [SAWA_INFO]) (send_rs net)) (\<lambda>(rc, sent).
        Option.bind (tcp_client_receive 4 (recv_rs net sent)) (\<lambda>(n, got).
          Some (0, Some (load32 (overwrite 0 got (0x42 # map blk [1..<4])))))))"

text \<open>\<open>offset\<close> and \<open>payload_size\<close> are 32 bits wide, \<open>sector\<close> and \<open>nb_sectors\<close> are not.\<close>

definition write_message :: "nat \<Rightarrow> nat \<Rightarrow> byte list \<Rightarrow> byte list" where
  "write_message sector nsect buffer =
     (let offset = of_nat (sector * 512) :: u32; payload_size = of_nat (nsect * 512) :: u32
      in le32 (payload_size + 5) @ [SAWA_WRITE] @ le32 offset @ take (unat payload_size) buffer)"

definition sawa_write_data :: "network \<Rightarrow> nat \<Rightarrow> nat \<Rightarrow> byte list \<Rightarrow> int option" where
  "sawa_write_data net sector nsect buffer =
     (if connect net < 0 then Some (-1)
      else Option.bind (tcp_client_send False (write_message sector nsect buffer) (send_rs net)) (\<lambda>_. Some 0))"

definition read_message_of :: "nat \<Rightarrow> nat \<Rightarrow> byte list" where
  "read_message_of sector nsect =
     le32 9 @ [SAWA_READ] @ le32 (of_nat (sector * 512)) @ le32 (of_nat (nsect * 512))"

text \<open>The result and the caller's buffer: any answer of more than one byte counts as the data.\<close>

definition sawa_read_data :: "network \<Rightarrow> nat \<Rightarrow> nat \<Rightarrow> byte list \<Rightarrow> (int \<times> byte list) option" where
  "sawa_read_data net sector nsect buffer_in =
     (if connect net < 0 then Some (-1, buffer_in)
      else
        Option.bind (tcp_client_send False (read_message_of sector nsect) (send_rs net)) (\<lambda>(rc, sent).
        Option.bind (tcp_client_receive (unat (of_nat (nsect * 512) :: u32)) (recv_rs net sent)) (\<lambda>(n, got).
          Some (if 1 < n then 0 else -1, overwrite 0 got buffer_in))))"

text \<open>
  What the kernel log says of an answer of one byte; the caller passes the first byte of its buffer, also when nothing was
  received.
\<close>

definition sawa_handle_error :: "byte \<Rightarrow> string" where
  "sawa_handle_error code =
     (if code = SAWA_MSG_ERR then ''SaWa: failure to read (Error)''
      else if code = SAWA_MSG_NOAUTH then ''SaWa: failure to read (Unauthorized)''
      else ''SaWa: failure to read (unknown response code '' @ show_base 16 (unat code) @ '')'') @ newline"

definition sawa_read_log :: "network \<Rightarrow> nat \<Rightarrow> nat \<Rightarrow> byte list \<Rightarrow> string option" where
  "sawa_read_log net sector nsect buffer_in =
     Option.bind (sawa_read_data net sector nsect buffer_in) (\<lambda>(rc, buffer).
       if connect net < 0 then Some (''SaWa: could not connect'' @ newline)
       else if rc = 0 then Some (''SaWa: Read '' @ show_dec (int nsect) @ '' sectors'' @ newline)
       else map_option sawa_handle_error (case buffer of [] \<Rightarrow> None | b # _ \<Rightarrow> Some b))"

lemma refused_read_logged:
  assumes "0 \<le> connect net" and "tcp_client_send False (read_message_of sector nsect) (send_rs net) = Some (rc, sent)"
    and "tcp_client_receive (unat (of_nat (nsect * 512) :: u32)) (recv_rs net sent) = Some (1, [SAWA_MSG_ERR])" and "buffer_in \<noteq> []"
  shows "sawa_read_log net sector nsect buffer_in = Some (''SaWa: failure to read (Error)'' @ newline)"
  using assms by (cases buffer_in) (simp_all add: sawa_read_log_def sawa_read_data_def sawa_handle_error_def overwrite_def)

definition blockdev_transfer :: "network \<Rightarrow> nat \<Rightarrow> nat \<Rightarrow> byte list \<Rightarrow> bool \<Rightarrow> (int \<times> byte list) option" where
  "blockdev_transfer net sector nsect buffer is_write =
     (if \<not> is_write then sawa_read_data net sector nsect buffer
      else map_option (\<lambda>rc. (rc, buffer)) (sawa_write_data net sector nsect buffer))"

section \<open>The loops\<close>

text \<open>
  What the kernel may answer while a message goes out completely: interruptions, requests to try again,
  and portions of what is left.
\<close>

fun sends_all :: "nat \<Rightarrow> int list \<Rightarrow> bool" where
  "sends_all left [] = False"
| "sends_all left (len # rs) =
     (if len = - ERESTARTSYS \<or> len = - EAGAIN then sends_all left rs
      else 0 < len \<and> nat len \<le> left \<and> (if nat len = left then rs = [] else sends_all (left - nat len) rs))"

lemma send_loop_all:
  "sends_all (length buf - written) rs \<Longrightarrow> written \<le> length buf \<Longrightarrow>
   send_loop False buf written rs = Some (int (length buf), buf)"
proof (induction rs arbitrary: written)
  case Nil
  then show ?case by simp
next
  case (Cons len rs)
  show ?case
  proof (cases "len = - ERESTARTSYS \<or> len = - EAGAIN")
    case True
    with Cons show ?thesis by auto
  next
    case False
    with Cons.prems have len: "0 < len" "nat len \<le> length buf - written"
      by simp_all
    from Cons.prems False have rest: "if nat len = length buf - written then rs = []
        else sends_all (length buf - written - nat len) rs"
      by (auto simp only: sends_all.simps if_False)
    show ?thesis
    proof (cases "nat len = length buf - written")
      case True
      with False len rest Cons.prems(2) show ?thesis by simp
    next
      case False2: False
      with rest have "sends_all (length buf - (written + nat len)) rs"
        by (simp only: if_False diff_diff_left)
      then have "send_loop False buf (written + nat len) rs = Some (int (length buf), buf)"
        using len(1,2) Cons.prems(2) by (intro Cons.IH) simp_all
      moreover have "length buf - (written + nat len) \<noteq> 0" using False2 len(2) by linarith
      ultimately show ?thesis using False len(1) by (simp add: Let_def)
    qed
  qed
qed

lemma receive_after_retries:
  "\<forall>r \<in> set retries. fst r = - EAGAIN \<or> fst r = - ERESTARTSYS \<Longrightarrow>
   tcp_client_receive n (retries @ rs) = tcp_client_receive n rs"
  by (induction retries) auto

lemma read_message_frame: "read_message_of sector nsect = frame (Read (of_nat (sector * 512)) (of_nat (nsect * 512)))"
  by (simp add: read_message_of_def frame_def)

lemma write_message_frame:
  assumes "nsect * 512 + 5 < 2 ^ 32" and "length buffer = nsect * 512"
  shows "write_message sector nsect buffer = frame (Write (of_nat (sector * 512)) buffer)"
proof -
  have "unat (of_nat (nsect * 512) :: u32) = nsect * 512" using assms(1) by (intro unat_of_nat_u32) simp
  then show ?thesis using assms(2) by (simp add: write_message_def frame_def Let_def add.commute)
qed

section \<open>The driver against the file server\<close>

text \<open>
  The file server on a message that reaches it as the segments \<open>segs\<close>: the network may cut what was sent
  anywhere, whatever portions the kernel took it in.  The driver's connection then stays silent.
\<close>

definition serve_segments :: "byte list list \<Rightarrow> sawa_state option \<Rightarrow> byte rx list \<times> sawa_state option" where
  "serve_segments segs p =
     (case p of
        None \<Rightarrow> ([Data []], None)
      | Some s \<Rightarrow>
          (case sawa_readData (map Data segs) s of
             Inl e \<Rightarrow> ([Data []], None)
           | Inr (s', rest) \<Rightarrow>
               let out = drop (length (tx s)) (tx s')
               in (if out = [] then [] else [Data out], Some s')))"

text \<open>
  What the socket delivers to the driver when the server in state \<open>p\<close> gets the message in the segments \<open>segm\<close>
  makes of it, after some calls that had to be tried again.
\<close>

definition arrivals :: "byte rx list \<Rightarrow> (int \<times> byte list) list" where
  "arrivals = map (\<lambda>e. case e of Data bs \<Rightarrow> (int (length bs), bs) | Rx_error \<Rightarrow> (-104, []))"

definition net_to :: "sawa_state option \<Rightarrow> (byte list \<Rightarrow> byte list list) \<Rightarrow> int list \<Rightarrow> (int \<times> byte list) list \<Rightarrow> network" where
  "net_to p segm rs retries =
     \<lparr>connect = 0, send_rs = rs, recv_rs = (\<lambda>sent. retries @ arrivals (fst (serve_segments (segm sent) p)))\<rparr>"

text \<open>The state of the server after a message of the driver.\<close>

definition after_message :: "sawa_state option \<Rightarrow> byte list list \<Rightarrow> sawa_state option" where
  "after_message p segs = snd (serve_segments segs p)"

text \<open>The body of the message is not cut: the server's one \<open>read\<close> for it finds all of it.\<close>

definition whole :: "byte list list \<Rightarrow> byte list \<Rightarrow> bool" where
  "whole segs msg \<longleftrightarrow> segs = [msg] \<or> segs = [take 4 msg, drop 4 msg]"

lemma serve_whole:
  assumes "whole segs (frame cmd)"
  shows "serve_segments segs p = serve_sawa (frame cmd) p"
proof -
  obtain w b where f: "frame cmd = le32 w @ b" "b \<noteq> []" by (cases cmd) (simp_all add: frame_def)
  have "sock_read 4 [Data (le32 w), Data b] = sock_read 4 [Data (le32 w @ b)]"
    using f(2) by simp
  then have "sawa_readData [Data (le32 w), Data b] s = sawa_readData [Data (le32 w @ b)] s" for s
    by (subst (1 2) sawa_readData.simps) (simp del: sock_read.simps)
  with assms f(1) show ?thesis
    by (auto simp: serve_segments_def serve_sawa_def whole_def split: option.splits)
qed

lemma serve_write:
  assumes "sawa_inv s" and "unat off + length bs \<le> capacity s" and "length bs \<le> 32763"
  shows "\<exists>s'. serve_sawa (frame (Write off bs)) (Some s) = ([Data [SAWA_MSG_OK]], Some s') \<and> sawa_inv s' \<and>
    capacity s' = capacity s \<and> f_data (fp s') = overwrite (unat off) bs (f_data (fp s))"
proof -
  have "cmd_ok (Write off bs)" using assms by (simp add: sawa_inv_def)
  then obtain p where p: "serve_sawa (frame (Write off bs)) (Some s) = ([Data [SAWA_MSG_OK]], p)"
      "sawa_ready p" "sawa_sectors p = nb_sectors s" "sawa_image p = overwrite (unat off) bs (f_data (fp s))"
    using sawa.serve_command [of "Some s" "Write off bs"] assms by (auto simp: Let_def capacity_def)
  then obtain s' where "p = Some s'" by (cases p) (auto simp: sawa_ready_def)
  with p show ?thesis by (auto simp: capacity_def)
qed

lemma serve_read:
  assumes "sawa_inv s" and "unat off + unat n \<le> capacity s" and "n \<noteq> 0"
  shows "\<exists>p. serve_sawa (frame (Read off n)) (Some s) =
    ([Data (take (unat n) (drop (unat off) (f_data (fp s))))], p)"
proof -
  have "cmd_ok (Read off n)" using assms by (simp add: sawa_inv_def)
  moreover have "take (unat n) (drop (unat off) (f_data (fp s))) \<noteq> []"
  proof -
    have "0 < unat n" using assms(3) by (simp add: unat_gt_0)
    moreover have "unat off < length (f_data (fp s))"
      using assms(1,2) \<open>0 < unat n\<close> by (simp add: sawa_inv_def)
    ultimately show ?thesis by simp
  qed
  ultimately show ?thesis
    using sawa.serve_command [of "Some s" "Read off n"] assms by (auto simp: Let_def capacity_def)
qed

text \<open>
  C27: Up to 63 sectors inside the store, whatever interruptions and portions the kernel's calls report while a message
  goes out, when the server finds the body of each message in one read and its reply comes in one piece: a write of the
  driver reports success; a read that the server serves after that write returns what was written, and reports success;
  and, since the driver does not wait for the answer to a write, a read that the server serves before it reports success
  too and returns what was there before.
\<close>

theorem driver_round_trip:
  assumes "sawa_inv s" and "0 < nsect" and "nsect \<le> 63" and "512 * (sector + nsect) \<le> capacity s"
    and "length buffer = 512 * nsect" and "length target = 512 * nsect"
    and "sends_all (length (write_message sector nsect buffer)) rs"
    and "sends_all 13 rs'" and "\<forall>r \<in> set retries. fst r = - EAGAIN \<or> fst r = - ERESTARTSYS"
    and "whole (segm (write_message sector nsect buffer)) (write_message sector nsect buffer)"
    and "whole (segm (read_message_of sector nsect)) (read_message_of sector nsect)"
  shows "blockdev_transfer (net_to (Some s) segm rs []) sector nsect buffer True = Some (0, buffer) \<and>
    blockdev_transfer
      (net_to (after_message (Some s) (segm (write_message sector nsect buffer))) segm rs' retries)
      sector nsect target False = Some (0, buffer) \<and>
    blockdev_transfer (net_to (Some s) segm rs' retries) sector nsect target False =
      Some (0, take (512 * nsect) (drop (512 * sector) (f_data (fp s))))"
proof -
  let ?off = "of_nat (sector * 512) :: u32" and ?n = "of_nat (nsect * 512) :: u32"
  have cap: "capacity s < 2 ^ 32" using assms(1) by (simp add: sawa_inv_def)
  have off: "unat ?off = sector * 512" using assms(4) cap by (intro unat_of_nat_u32) simp
  have n: "unat ?n = nsect * 512" using assms(3) by (intro unat_of_nat_u32) simp
  then have n0: "?n \<noteq> 0" using assms(2) by auto
  have wmsg: "write_message sector nsect buffer = frame (Write ?off buffer)"
    using assms(3,5) by (intro write_message_frame) simp_all
  obtain s' where s': "serve_sawa (frame (Write ?off buffer)) (Some s) = ([Data [SAWA_MSG_OK]], Some s')"
      "sawa_inv s'" "capacity s' = capacity s" "f_data (fp s') = overwrite (sector * 512) buffer (f_data (fp s))"
    using serve_write [OF assms(1), of ?off buffer] assms(3-5) off by auto
  have page: "take (unat ?n) (drop (unat ?off) (f_data (fp s'))) = buffer"
    unfolding s'(4) off n using overwrite_block [of "sector * 512" buffer "f_data (fp s)"] assms(1,4,5)
    by (simp add: sawa_inv_def mult.commute)
  let ?old = "take (512 * nsect) (drop (512 * sector) (f_data (fp s)))"
  have old: "take (unat ?n) (drop (unat ?off) (f_data (fp s))) = ?old" "length ?old = 512 * nsect"
    using off n assms(1,4) by (simp_all add: sawa_inv_def mult.commute)
  obtain p where p: "serve_sawa (frame (Read ?off ?n)) (Some s') = ([Data buffer], p)"
    using serve_read [OF s'(2), of ?off ?n] s'(3) off n n0 page assms(4) by auto
  obtain q where q: "serve_sawa (frame (Read ?off ?n)) (Some s) = ([Data ?old], q)"
    using serve_read [OF assms(1), of ?off ?n] off n n0 old(1) assms(4) by auto
  have send: "tcp_client_send False (write_message sector nsect buffer) rs =
      Some (int (length (write_message sector nsect buffer)), write_message sector nsect buffer)"
    unfolding tcp_client_send_def using assms(7) by (intro send_loop_all) simp_all
  have len: "length (read_message_of sector nsect) = 13" by (simp add: read_message_of_def)
  have send': "tcp_client_send False (read_message_of sector nsect) rs' =
      Some (13, read_message_of sector nsect)"
    unfolding tcp_client_send_def using assms(8) send_loop_all [of "read_message_of sector nsect" 0 rs'] len
    by simp
  have "EAGAIN \<noteq> 0" "ERESTARTSYS \<noteq> 0" by (simp_all add: EAGAIN_def ERESTARTSYS_def)
  then have recv: "tcp_client_receive (unat ?n) (retries @ [(int (length bs), bs)]) = Some (int (length bs), bs)"
    if "length bs = 512 * nsect" for bs
    using that n receive_after_retries [OF assms(9)] by (simp add: EAGAIN_def ERESTARTSYS_def)
  have after: "after_message (Some s) (segm (write_message sector nsect buffer)) = Some s'"
    using serve_whole [OF assms(10) [unfolded wmsg]] s'(1) by (simp add: after_message_def wmsg)
  have read: "blockdev_transfer (net_to (Some u) segm rs' retries) sector nsect target False = Some (0, bs)"
    if "serve_sawa (frame (Read ?off ?n)) (Some u) = ([Data bs], r)" and "length bs = 512 * nsect" for u bs r
  proof -
    have "serve_segments (segm (read_message_of sector nsect)) (Some u) = ([Data bs], r)"
      using serve_whole [OF assms(11) [unfolded read_message_frame]] that(1) by (simp add: read_message_frame)
    then show ?thesis
      using recv [OF that(2)] that(2) assms(2,6)
      by (simp add: blockdev_transfer_def sawa_read_data_def net_to_def send' arrivals_def overwrite_def)
  qed
  have "blockdev_transfer (net_to (Some s) segm rs []) sector nsect buffer True = Some (0, buffer)"
    by (simp add: blockdev_transfer_def sawa_write_data_def net_to_def send)
  then show ?thesis using read [OF p assms(5)] read [OF q old(2)] by (simp add: after)
qed

text \<open>A network that delivers the length of a message on its own.\<close>

definition length_first :: "byte list \<Rightarrow> byte list list" where
  "length_first msg = [take 4 msg, drop 4 msg]"

theorem driver_round_trip_witness:
  "blockdev_transfer (net_to (after_message (Some small_server)
      (length_first (write_message 0 1 (replicate 512 5)))) length_first [-512, 6, 7] [(-11, [])]) 0 1 (replicate 512 0) False =
   Some (0, replicate 512 5)"
proof -
  have "length (write_message 0 1 (replicate 512 5)) = 521" by (simp add: write_message_def Let_def)
  then show ?thesis
    using driver_round_trip [of small_server 1 0 "replicate 512 5" "replicate 512 0" "[500, -11, 21]" "[-512, 6, 7]"
        "[(-11, [])]" length_first]
    by (simp add: capacity_def small_server_def EAGAIN_def ERESTARTSYS_def whole_def length_first_def
        small_server_inv [unfolded small_server_def])
qed

text \<open>
  A write of 64 sectors or more is lost: the server refuses the message for its length and closes
  the connection without storing anything, and the driver, which does not read the reply, reports
  success.
\<close>

theorem large_write_lost:
  assumes "64 \<le> nsect" and "nsect * 512 + 5 < 2 ^ 31" and "length buffer = nsect * 512"
    and "sends_all (length (write_message sector nsect buffer)) rs"
  shows "blockdev_transfer (net_to (Some s) segm rs retries) sector nsect buffer True = Some (0, buffer) \<and>
    (\<exists>rest. sawa_readData [Data (write_message sector nsect buffer)] s = Inr (s, rest))"
proof -
  let ?m = "write_message sector nsect buffer"
  have send: "tcp_client_send False ?m rs = Some (int (length ?m), ?m)"
    unfolding tcp_client_send_def using assms(4) by (intro send_loop_all) simp_all
  have m: "?m = frame (Write (of_nat (sector * 512)) buffer)"
    using assms(2,3) by (intro write_message_frame) simp_all
  let ?w = "of_nat (5 + length buffer) :: u32" and ?b = "body (Write (of_nat (sector * 512)) buffer)"
  have "unat ?w = 5 + length buffer" using assms(2,3) by (intro unat_of_nat_u32) simp
  then have big: "32768 < ?w" using assms(1,3) by (simp add: word_less_nat_alt)
  have hdr: "sock_read 4 [Data (le32 ?w @ ?b)] = (4, le32 ?w, [Data ?b])"
    by (subst sock_read_Data) simp_all
  obtain x got evs2 where r2: "sock_read (unat (load32 (le32 ?w))) [Data ?b] = (x, got, evs2)"
    by (metis prod_cases3)
  have "frame (Write (of_nat (sector * 512)) buffer) = le32 ?w @ ?b" by (simp add: frame_def)
  then have "sawa_readData [Data ?m] s = Inr (s, [Data ?b])"
    using sawa_readData_unfold [OF hdr r2, of s] big m by simp
  then show ?thesis
    using send by (simp add: blockdev_transfer_def sawa_write_data_def net_to_def)
qed

theorem large_write_lost_witness:
  "blockdev_transfer (net_to (Some small_server) (\<lambda>m. [m]) [32777] []) 0 64 (replicate 32768 1) True =
     Some (0, replicate 32768 1)"
proof -
  have "length (write_message 0 64 (replicate 32768 1)) = 32777" by (simp add: write_message_def Let_def)
  then show ?thesis
    using large_write_lost [of 64 "replicate 32768 1" 0 "[32777]" small_server "\<lambda>m. [m]" "[]"]
    by (simp add: EAGAIN_def ERESTARTSYS_def)
qed

end
