(* ===== verification/Driver_Init.thy ===== *)
theory Driver_Init
  imports Driver Sawa_Util
begin

text \<open>
  \<^verbatim>\<open>main.c\<close>: loading and unloading the block driver, and the geometry it reports; and from
  \<^verbatim>\<open>sawa.c\<close> the dump of a buffer into the kernel log.  The results of the kernel's functions are
  arguments.
\<close>

section \<open>Loading and unloading\<close>

definition ENOMEM :: int where "ENOMEM = 12"

record gendisk =
  gd_major :: u32
  gd_first_minor :: nat
  gd_minors :: u32
  gd_name :: string
  gd_capacity :: u32
  gd_added :: bool

text \<open>
  \<open>sawa_dev\<close> and the module's other variables; \<open>lock_initialised\<close> is what \<open>spin_lock_init\<close> left in the
  lock, \<open>registered\<close> the block device numbers the kernel has given out.
\<close>

record driver_module =
  dev_sectors :: u32
  lock_initialised :: bool
  has_queue :: bool
  disk :: "gendisk option"
  major_number :: u32
  registered :: "u32 set"

definition unloaded :: driver_module where
  "unloaded = \<lparr>dev_sectors = 0, lock_initialised = False, has_queue = False, disk = None,
     major_number = 0, registered = {}\<rparr>"

text \<open>The kernel's answers: \<open>sawa_send_info\<close>, \<open>blk_init_queue\<close>, \<open>register_blkdev\<close>, \<open>alloc_disk\<close>.\<close>

record kernel_answers =
  k_info :: "int \<times> u32 option"
  k_queue :: bool
  k_register :: int
  k_disk :: bool

text \<open>
  \<open>memset\<close> clears the lock that was just initialised.  \<open>major_number\<close> is unsigned: its test against 0 is
  the comparison of words.
\<close>

definition sawa_driver_init :: "kernel_answers \<Rightarrow> driver_module \<Rightarrow> int \<times> driver_module" where
  "sawa_driver_init k m =
     (let m = m\<lparr>lock_initialised := True\<rparr>
      in if fst (k_info k) < 0 then (-1, m)
         else
           let nsect = (case snd (k_info k) of None \<Rightarrow> 0 | Some n \<Rightarrow> n);
               m = m\<lparr>dev_sectors := nsect, lock_initialised := False, has_queue := k_queue k, disk := None\<rparr>
           in if \<not> k_queue k then (- ENOMEM, m)
              else
                let m = m\<lparr>major_number := word_of_int (k_register k),
                          registered := (if 0 < k_register k
                                         then insert (word_of_int (k_register k)) (registered m)
                                         else registered m)\<rparr>
                in if major_number m < 0 then (- ENOMEM, m)
                   else if \<not> k_disk k
                        then (- ENOMEM, m\<lparr>registered := registered m - {major_number m}\<rparr>)
                        else (0, m\<lparr>disk := Some \<lparr>gd_major = major_number m, gd_first_minor = 0,
                                     gd_minors = nsect, gd_name = ''sawa0'', gd_capacity = nsect,
                                     gd_added = True\<rparr>\<rparr>))"

definition sawa_driver_exit :: "driver_module \<Rightarrow> driver_module" where
  "sawa_driver_exit m =
     (let m = m\<lparr>disk := None\<rparr>; m = m\<lparr>registered := registered m - {major_number m}\<rparr>
      in m\<lparr>has_queue := False\<rparr>)"

text \<open>
  Loading the driver succeeds exactly when the server answered and the queue and the disk could be
  allocated.  A refused registration (a negative result) is not noticed, because \<open>major_number\<close> is
  unsigned: the disk is added with a number the kernel never gave out.  After a failed \<open>alloc_disk\<close> the
  queue is still allocated.  Unloading after a successful load gives everything back.
\<close>

theorem driver_init_result:
  "let (rc, m) = sawa_driver_init k unloaded
   in (rc = 0 \<longleftrightarrow> 0 \<le> fst (k_info k) \<and> k_queue k \<and> k_disk k) \<and>
      (case disk m of
         None \<Rightarrow> rc \<noteq> 0
       | Some gd \<Rightarrow>
           rc = 0 \<and> gd_major gd = word_of_int (k_register k) \<and>
           (gd_major gd \<in> registered m \<longleftrightarrow> 0 < k_register k) \<and>
           snd (k_info k) \<in> {None, Some (gd_capacity gd)}) \<and>
      (has_queue m \<longleftrightarrow> 0 \<le> fst (k_info k) \<and> k_queue k) \<and>
      disk (sawa_driver_exit m) = None \<and> registered (sawa_driver_exit m) = {} \<and>
      \<not> has_queue (sawa_driver_exit m)"
  by (auto simp: sawa_driver_init_def unloaded_def sawa_driver_exit_def Let_def ENOMEM_def
      split: option.splits)

section \<open>Geometry\<close>

text \<open>\<open>struct hd_geometry\<close> of the kernel: heads and sectors are bytes, the cylinders a 16-bit number.\<close>

record hd_geometry =
  heads :: byte
  sectors :: byte
  cylinders :: "16 word"
  start :: nat

definition blockdev_getgeo :: "u32 \<Rightarrow> int \<times> hd_geometry" where
  "blockdev_getgeo nsect = (0, \<lparr>heads = 1, sectors = ucast nsect, cylinders = 64, start = 0\<rparr>)"

text \<open>
  The geometry describes \<open>64 * (nb_sectors mod 256)\<close> sectors, because the number of sectors per track
  is a byte: for every store whose size is a multiple of 256 sectors, as the server's 2048, a disk with
  no sector at all.
\<close>

theorem geometry_truncated:
  "case blockdev_getgeo n of (rc, geo) \<Rightarrow>
     rc = 0 \<and> unat (cylinders geo) * unat (heads geo) * unat (sectors geo) = 64 * (unat n mod 256) \<and>
     (sectors geo = 0 \<longleftrightarrow> 256 dvd unat n)"
proof -
  have u: "unat (ucast n :: byte) = unat n mod 256" by (simp add: unsigned_ucast_eq take_bit_eq_mod)
  then have "(ucast n :: byte) = 0 \<longleftrightarrow> 256 dvd unat n" by (metis unat_eq_0 dvd_eq_mod_eq_0)
  with u show ?thesis by (simp add: blockdev_getgeo_def)
qed

section \<open>dump_mem\<close>

text \<open>
  One pass of the inner loop: \<open>i\<close> cells are left, \<open>j\<close> is the index of the next byte, \<open>buf\<close> the first
  \<open>col\<close> characters of the line.  The last result is whether the function returns from inside.
\<close>

fun dump_line :: "byte list \<Rightarrow> nat \<Rightarrow> nat \<Rightarrow> nat \<Rightarrow> string \<Rightarrow> string \<times> nat \<times> bool" where
  "dump_line addr sz 0 j buf = (buf @ newline, j, False)"
| "dump_line addr sz (Suc i) j buf =
     (if sz \<le> j then (buf @ newline, j, True)
      else dump_line addr sz i (Suc j) (buf @ '' '' @ show_hex 2 (unat (addr ! j))))"

lemma dump_line_index: "dump_line addr sz i j buf = (line, j', ret) \<Longrightarrow> j' = min (j + i) (max j sz)"
  by (induction addr sz i j buf rule: dump_line.induct) (auto split: if_splits)

text \<open>The column restarts at 6 whatever the number of digits of the offset.\<close>

function dump_mem_from :: "byte list \<Rightarrow> nat \<Rightarrow> nat \<Rightarrow> string list" where
  "dump_mem_from addr sz j =
     (if sz \<le> j then []
      else
        let (line, j', ret) = dump_line addr sz 16 j (take 6 (show_hex 4 j @ ''  ''))
        in line # (if ret then [] else dump_mem_from addr sz j'))"
  by pat_completeness auto
termination
  by (relation "measure (\<lambda>(addr, sz, j). sz - j)") (auto dest: dump_line_index [OF sym])

declare dump_mem_from.simps [simp del]

definition dump_mem :: "byte list \<Rightarrow> nat \<Rightarrow> string list" where
  "dump_mem addr sz = dump_mem_from addr sz 0"

definition cells :: "byte list \<Rightarrow> string" where
  "cells bs = concat (map (\<lambda>b. '' '' @ show_hex 2 (unat b)) bs)"

lemma dump_line_text:
  assumes "sz \<le> length addr" and "j \<le> sz"
  shows "dump_line addr sz i j buf =
    (buf @ cells (take (min i (sz - j)) (drop j addr)) @ newline, min (j + i) (max j sz), sz < j + i)"
  using assms(2)
proof (induction i arbitrary: j buf)
  case 0
  then show ?case by (simp add: cells_def)
next
  case (Suc i)
  show ?case
  proof (cases "sz \<le> j")
    case True
    with Suc.prems show ?thesis by (simp add: cells_def)
  next
    case False
    then have "drop j addr = addr ! j # drop (Suc j) addr"
      using assms by (simp add: Cons_nth_drop_Suc)
    moreover have "min (Suc i) (sz - j) = Suc (min i (sz - Suc j))" using False by linarith
    ultimately have "cells (take (min (Suc i) (sz - j)) (drop j addr)) =
        '' '' @ show_hex 2 (unat (addr ! j)) @ cells (take (min i (sz - Suc j)) (drop (Suc j) addr))"
      by (simp add: cells_def)
    with False Suc.IH [of "Suc j"] show ?thesis by (auto simp: min_def max_def)
  qed
qed

text \<open>The lines of a dump: the offset and the bytes of every sixteen, the last ones possibly fewer.\<close>

lemma dump_mem_from_text:
  assumes "sz \<le> length addr"
  shows "dump_mem_from addr sz (16 * k) =
    map (\<lambda>i. take 6 (show_hex 4 (16 * i) @ ''  '') @ cells (take (min 16 (sz - 16 * i)) (drop (16 * i) addr)) @ newline)
      [k..<(sz + 15) div 16]"
proof (induction "sz - 16 * k" arbitrary: k rule: less_induct)
  case less
  show ?case
  proof (cases "sz \<le> 16 * k")
    case True
    then have "(sz + 15) div 16 \<le> k" by linarith
    with True show ?thesis by (simp add: dump_mem_from.simps)
  next
    case False
    then have upt: "[k..<(sz + 15) div 16] = k # [Suc k..<(sz + 15) div 16]"
      by (intro upt_conv_Cons) linarith
    have line: "dump_line addr sz 16 (16 * k) buf =
        (buf @ cells (take (min 16 (sz - 16 * k)) (drop (16 * k) addr)) @ newline, min (16 * k + 16) sz,
         sz < 16 * k + 16)" for buf
      using dump_line_text [OF assms, of "16 * k" 16 buf] False by simp
    have rest: "(if sz < 16 * k + 16 then [] else dump_mem_from addr sz (min (16 * k + 16) sz)) =
        map (\<lambda>i. take 6 (show_hex 4 (16 * i) @ ''  '') @
            cells (take (min 16 (sz - 16 * i)) (drop (16 * i) addr)) @ newline) [Suc k..<(sz + 15) div 16]"
    proof (cases "sz < 16 * k + 16")
      case True
      then have "(sz + 15) div 16 \<le> Suc k" by linarith
      with True show ?thesis by simp
    next
      case ge: False
      then have "min (16 * k + 16) sz = 16 * Suc k" by simp
      moreover have "sz - 16 * Suc k < sz - 16 * k" using ge by simp
      ultimately show ?thesis using ge less [of "Suc k"] by (simp only: if_False)
    qed
    show ?thesis
      unfolding upt using False rest by (subst dump_mem_from.simps) (simp add: line Let_def)
  qed
qed

lemma dump_mem_text:
  "sz \<le> length addr \<Longrightarrow>
   dump_mem addr sz =
     map (\<lambda>i. take 6 (show_hex 4 (16 * i) @ ''  '') @ cells (take (min 16 (sz - 16 * i)) (drop (16 * i) addr)) @ newline)
       [0..<(sz + 15) div 16]"
  using dump_mem_from_text [of sz addr 0] by (simp add: dump_mem_def)

end
