(* ===== verification/Driver_Queue.thy ===== *)
theory Driver_Queue
  imports Prelude
begin

text \<open>
  \<^verbatim>\<open>main.c\<close>: the request queue of the block driver.  The kernel calls
  \<open>blockdev_request\<close> with the queue's lock held when a request is queued; the work item runs
  \<open>work_handler\<close>, which transfers the current request chunk by chunk.  A step is one point the others
  can observe: a section under the lock, a transfer, or the test of \<open>current_req\<close> after the lock is
  released.  The kernel runs one instance of a work item at a time, and one more if it was scheduled
  while it ran.
\<close>

section \<open>Requests\<close>

text \<open>A request: its number, whether it is one of the file system, its chunks (at least one).\<close>

record request =
  r_id :: nat
  r_fs :: bool
  r_chunks :: nat

text \<open>
  \<open>current\<close> is \<open>current_req\<close> with the next chunk to transfer; \<open>log\<close> and \<open>refused\<close> record, for the
  statements only, the chunks transferred and the requests ended with an error.
\<close>

datatype handler = Resting | Transferring | Finishing | Testing | Crashed

record driver =
  queue :: "request list"
  current :: "(request \<times> nat) option"
  scheduled :: bool
  handler :: handler
  log :: "(nat \<times> nat) list"
  refused :: "nat list"

text \<open>The loop of \<open>set_next_request\<close>: the first request of the file system; the others are ended.\<close>

fun next_request :: "request list \<Rightarrow> (request \<times> nat) option \<times> request list \<times> nat list" where
  "next_request [] = (None, [], [])"
| "next_request (r # rs) =
     (if \<not> r_fs r then (let (c, q, skip) = next_request rs in (c, q, r_id r # skip))
      else (Some (r, 0), rs, []))"

definition set_next_request :: "driver \<Rightarrow> driver" where
  "set_next_request d =
     (let (c, q, skip) = next_request (queue d)
      in d\<lparr>current := c, queue := q, refused := refused d @ skip\<rparr>)"

definition blockdev_request :: "driver \<Rightarrow> driver" where
  "blockdev_request d =
     (if current d \<noteq> None then d
      else
        let d = set_next_request d
        in if current d = None then d else d\<lparr>scheduled := True\<rparr>)"

text \<open>\<open>__blk_end_request_cur\<close> ends the chunk: true while the request has more.\<close>

definition end_request_cur :: "driver \<Rightarrow> bool \<times> driver" where
  "end_request_cur d =
     (case current d of
        None \<Rightarrow> (False, d)
      | Some (r, k) \<Rightarrow>
          if Suc k < r_chunks r then (True, d\<lparr>current := Some (r, Suc k)\<rparr>) else (False, d))"

definition finish_chunk :: "driver \<Rightarrow> driver" where
  "finish_chunk d = (let (more, d) = end_request_cur d in if \<not> more then set_next_request d else d)"

definition init_driver :: driver where
  "init_driver = \<lparr>queue = [], current = None, scheduled = False, handler = Resting, log = [], refused = []\<rparr>"

text \<open>
  The steps, labelled with the request that arrives.  \<open>transfer\<close> reads the fields of \<open>current_req\<close>
  without a test: a null pointer stops the machine.
\<close>

inductive driver_step :: "driver \<Rightarrow> request list \<Rightarrow> driver \<Rightarrow> bool" where
  arrive: "0 < r_chunks r \<Longrightarrow> driver_step d [r] (blockdev_request (d\<lparr>queue := queue d @ [r]\<rparr>))"
| start: "handler d = Resting \<Longrightarrow> scheduled d \<Longrightarrow>
     driver_step d [] (d\<lparr>scheduled := False, handler := Transferring\<rparr>)"
| transfer: "handler d = Transferring \<Longrightarrow> current d = Some (r, k) \<Longrightarrow>
     driver_step d [] (d\<lparr>log := log d @ [(r_id r, k)], handler := Finishing\<rparr>)"
| transfer_null: "handler d = Transferring \<Longrightarrow> current d = None \<Longrightarrow>
     driver_step d [] (d\<lparr>handler := Crashed\<rparr>)"
| finish: "handler d = Finishing \<Longrightarrow> driver_step d [] ((finish_chunk d)\<lparr>handler := Testing\<rparr>)"
| again: "handler d = Testing \<Longrightarrow> current d \<noteq> None \<Longrightarrow> driver_step d [] (d\<lparr>handler := Transferring\<rparr>)"
| rest: "handler d = Testing \<Longrightarrow> current d = None \<Longrightarrow> driver_step d [] (d\<lparr>handler := Resting\<rparr>)"

inductive driver_run :: "driver \<Rightarrow> request list \<Rightarrow> driver \<Rightarrow> bool" where
  none: "driver_run d [] d"
| more: "driver_run d rs d' \<Longrightarrow> driver_step d' ss d'' \<Longrightarrow> driver_run d (rs @ ss) d''"

section \<open>Every chunk once, in order\<close>

definition chunks_from :: "nat \<Rightarrow> request \<Rightarrow> (nat \<times> nat) list" where
  "chunks_from k r = map (Pair (r_id r)) [k..<r_chunks r]"

definition chunks_of :: "request list \<Rightarrow> (nat \<times> nat) list" where
  "chunks_of rs = concat (map (chunks_from 0) (filter r_fs rs))"

definition refused_of :: "request list \<Rightarrow> nat list" where
  "refused_of rs = map r_id (filter (\<lambda>r. \<not> r_fs r) rs)"

text \<open>What is still to be transferred: the chunk being finished is done already.\<close>

definition remaining :: "driver \<Rightarrow> (nat \<times> nat) list" where
  "remaining d =
     (case current d of
        None \<Rightarrow> []
      | Some (r, k) \<Rightarrow> chunks_from (if handler d = Finishing then Suc k else k) r) @ chunks_of (queue d)"

definition driver_inv :: "request list \<Rightarrow> driver \<Rightarrow> bool" where
  "driver_inv rs d \<longleftrightarrow>
     log d @ remaining d = chunks_of rs \<and> refused d @ refused_of (queue d) = refused_of rs \<and>
     (\<forall>r \<in> set (queue d). 0 < r_chunks r) \<and>
     (case current d of None \<Rightarrow> queue d = [] \<and> handler d \<noteq> Finishing | Some (r, k) \<Rightarrow> k < r_chunks r)"

lemma chunks_of_simps [simp]:
  "chunks_of [] = []" "chunks_of (r # rs) = (if r_fs r then chunks_from 0 r else []) @ chunks_of rs"
  "chunks_of (rs @ ss) = chunks_of rs @ chunks_of ss"
  by (simp_all add: chunks_of_def)

lemma refused_of_simps [simp]:
  "refused_of [] = []" "refused_of (r # rs) = (if r_fs r then [] else [r_id r]) @ refused_of rs"
  "refused_of (rs @ ss) = refused_of rs @ refused_of ss"
  by (simp_all add: refused_of_def)

lemma next_request_chunks:
  "next_request rs = (c, q, skip) \<Longrightarrow> \<forall>r \<in> set rs. 0 < r_chunks r \<Longrightarrow>
   chunks_of rs = (case c of None \<Rightarrow> [] | Some (r, k) \<Rightarrow> chunks_from k r) @ chunks_of q \<and>
   refused_of rs = skip @ refused_of q \<and> set q \<subseteq> set rs \<and>
   (case c of None \<Rightarrow> q = [] | Some (r, k) \<Rightarrow> k < r_chunks r)"
  by (induction rs arbitrary: c q skip) (fastforce split: prod.splits if_splits option.splits)+

lemma chunks_from_Cons: "k < r_chunks r \<Longrightarrow> chunks_from k r = (r_id r, k) # chunks_from (Suc k) r"
  by (simp add: chunks_from_def upt_conv_Cons)

lemma driver_step_inv:
  assumes "driver_step d ss d'" and "driver_inv rs d"
  shows "driver_inv (rs @ ss) d'"
  using assms
proof (induction rule: driver_step.induct)
  case (arrive r d)
  show ?case
  proof (cases "current d")
    case None
    with arrive show ?thesis
      by (auto simp: driver_inv_def remaining_def blockdev_request_def set_next_request_def Let_def)
  next
    case (Some c)
    with arrive show ?thesis
      by (auto simp: driver_inv_def remaining_def blockdev_request_def)
  qed
next
  case (start d)
  then show ?case by (auto simp: driver_inv_def remaining_def split: option.splits)
next
  case (transfer d r k)
  then have "chunks_from k r = (r_id r, k) # chunks_from (Suc k) r"
    by (intro chunks_from_Cons) (simp add: driver_inv_def)
  with transfer show ?case by (simp add: driver_inv_def remaining_def)
next
  case (transfer_null d)
  then show ?case by (auto simp: driver_inv_def remaining_def)
next
  case (finish d)
  then obtain r k where c: "current d = Some (r, k)" "k < r_chunks r"
    by (auto simp: driver_inv_def split: option.splits)
  show ?case
  proof (cases "Suc k < r_chunks r")
    case True
    with c finish show ?thesis
      by (simp add: driver_inv_def remaining_def finish_chunk_def end_request_cur_def)
  next
    case False
    obtain c' q skip where n: "next_request (queue d) = (c', q, skip)" by (metis prod_cases3)
    have "\<forall>r \<in> set (queue d). 0 < r_chunks r" using finish by (simp add: driver_inv_def)
    note q = next_request_chunks [OF n this]
    have "chunks_from (Suc k) r = []" using False by (simp add: chunks_from_def)
    with c False finish q n show ?thesis
      by (auto simp: driver_inv_def remaining_def finish_chunk_def end_request_cur_def
          set_next_request_def split: option.splits)
  qed
next
  case (again d)
  then show ?case by (auto simp: driver_inv_def remaining_def)
next
  case (rest d)
  then show ?case by (auto simp: driver_inv_def remaining_def)
qed

lemma driver_run_inv: "driver_run d rs d' \<Longrightarrow> driver_inv rs0 d \<Longrightarrow> driver_inv (rs0 @ rs) d'"
proof (induction rule: driver_run.induct)
  case (none d)
  then show ?case by simp
next
  case (more d rs d' ss d'')
  then show ?case using driver_step_inv [of d' ss d'' "rs0 @ rs"] by simp
qed

lemma driver_inv_init: "driver_inv [] init_driver"
  by (simp add: driver_inv_def init_driver_def remaining_def)

text \<open>
  C28: In every run, whatever the interleaving of arriving requests with the work item, the chunks
  transferred so far and those still to come are together the chunks of the file-system requests in the
  order they arrived, each once; the other requests are refused in order.
\<close>

theorem driver_transfers_in_order:
  assumes "driver_run init_driver rs d"
  shows "log d @ remaining d = chunks_of rs \<and> refused d @ refused_of (queue d) = refused_of rs"
  using driver_run_inv [OF assms driver_inv_init] by (simp add: driver_inv_def)

definition one_request :: request where
  "one_request = \<lparr>r_id = 7, r_fs = True, r_chunks = 1\<rparr>"

definition next_one :: request where
  "next_one = \<lparr>r_id = 8, r_fs = True, r_chunks = 1\<rparr>"

definition accepted :: driver where
  "accepted = init_driver\<lparr>current := Some (one_request, 0), scheduled := True\<rparr>"

definition finished_one :: driver where
  "finished_one = init_driver\<lparr>handler := Testing, log := [(7, 0)]\<rparr>"

lemma run_accepted: "driver_run init_driver [one_request] accepted"
proof -
  have "driver_run init_driver ([] @ [one_request])
      (blockdev_request (init_driver\<lparr>queue := queue init_driver @ [one_request]\<rparr>))"
    by (rule driver_run.more [OF driver_run.none driver_step.arrive]) (simp add: one_request_def)
  then show ?thesis
    by (simp add: blockdev_request_def set_next_request_def Let_def init_driver_def accepted_def one_request_def)
qed

lemma run_finished: "driver_run init_driver [one_request] finished_one"
proof -
  have 1: "driver_run init_driver ([one_request] @ []) (accepted\<lparr>scheduled := False, handler := Transferring\<rparr>)"
    by (rule driver_run.more [OF run_accepted driver_step.start]) (simp_all add: accepted_def init_driver_def)
  have 2: "driver_run init_driver (([one_request] @ []) @ [])
      (accepted\<lparr>scheduled := False, handler := Finishing, log := [(7, 0)]\<rparr>)"
    using driver_run.more [OF 1 driver_step.transfer [of _ one_request 0]]
    by (simp add: accepted_def init_driver_def one_request_def)
  show ?thesis
    using driver_run.more [OF 2 driver_step.finish]
    by (simp add: accepted_def finished_one_def init_driver_def finish_chunk_def end_request_cur_def
        set_next_request_def one_request_def)
qed

theorem driver_transfers_in_order_witness:
  "log finished_one @ remaining finished_one = chunks_of [one_request]"
  using driver_transfers_in_order [OF run_finished] by simp

text \<open>
  The work item can be run with no request.  It tests \<open>current_req\<close> after it has released the
  lock; a request that arrives in between becomes current and schedules the work item again, the
  running instance goes on to process it, and the scheduled one starts on a null pointer.
\<close>

theorem driver_starts_without_request:
  "\<exists>rs d. driver_run init_driver rs d \<and> handler d = Crashed"
proof -
  let ?d1 = "finished_one\<lparr>current := Some (next_one, 0), scheduled := True\<rparr>"
  have 1: "driver_run init_driver ([one_request] @ [next_one]) ?d1"
    using driver_run.more [OF run_finished driver_step.arrive [of next_one]]
    by (simp add: finished_one_def init_driver_def blockdev_request_def set_next_request_def Let_def
        next_one_def)
  have 2: "driver_run init_driver (([one_request] @ [next_one]) @ []) (?d1\<lparr>handler := Transferring\<rparr>)"
    by (rule driver_run.more [OF 1 driver_step.again]) (simp_all add: finished_one_def)
  let ?d3 = "?d1\<lparr>log := [(7, 0), (8, 0)], handler := Finishing\<rparr>"
  have 3: "driver_run init_driver ((([one_request] @ [next_one]) @ []) @ []) ?d3"
    using driver_run.more [OF 2 driver_step.transfer [of _ next_one 0]]
    by (simp add: finished_one_def next_one_def)
  let ?d4 = "?d3\<lparr>current := None, handler := Testing\<rparr>"
  have 4: "driver_run init_driver (((([one_request] @ [next_one]) @ []) @ []) @ []) ?d4"
    using driver_run.more [OF 3 driver_step.finish]
    by (simp add: finished_one_def init_driver_def finish_chunk_def end_request_cur_def
        set_next_request_def next_one_def)
  have 5: "driver_run init_driver ((((([one_request] @ [next_one]) @ []) @ []) @ []) @ []) (?d4\<lparr>handler := Resting\<rparr>)"
    by (rule driver_run.more [OF 4 driver_step.rest]) simp_all
  have 6: "driver_run init_driver (((((([one_request] @ [next_one]) @ []) @ []) @ []) @ []) @ [])
      (?d4\<lparr>scheduled := False, handler := Transferring\<rparr>)"
    using driver_run.more [OF 5 driver_step.start] by simp
  have "driver_step (?d4\<lparr>scheduled := False, handler := Transferring\<rparr>) []
      (?d4\<lparr>scheduled := False, handler := Crashed\<rparr>)"
    using driver_step.transfer_null [of "?d4\<lparr>scheduled := False, handler := Transferring\<rparr>"] by simp
  from driver_run.more [OF 6 this] show ?thesis by fastforce
qed

end
