(* ===== verification/Display.thy ===== *)
theory Display
  imports Connection_Thread Sawa_Util
begin

text \<open>
  \<^verbatim>\<open>server/display.cpp\<close>: the four displays of the server.  What a method does is the list of its
  calls to the curses library, to the mutex of the display, and to the streams; formatted texts are
  arguments.  What the curses library makes of the calls is a parameter of the theorems.
\<close>

section \<open>The methods\<close>

datatype out =
    Initscr | Cbreak | Noecho | Clear | Mvaddstr nat nat string | Refresh | Endwin
  | Lock_display | Unlock_display
  | Stdout string | Stderr string | Open_log string | Log string | Flush_log | Close_log

datatype display = Default_display "string list" | Debug_display | Daemon_display | Quiet_display

text \<open>The constructor, on the result of \<open>pthread_mutex_init\<close>.\<close>

definition DisplayDefault :: "bool \<Rightarrow> int \<Rightarrow> int + display" where
  "DisplayDefault http mutex_rc =
     (let info_label = (if http then [''200'', ''404'', ''500''] else [''Info'', ''Reads'', ''Writes''])
      in if mutex_rc \<noteq> 0 then Inl FAILURE_MUTEX_INIT else Inr (Default_display info_label))"

definition DISPLAY_DEFAULT :: int where "DISPLAY_DEFAULT = 1"
definition DISPLAY_DEBUG :: int where "DISPLAY_DEBUG = 2"
definition DISPLAY_DAEMON :: int where "DISPLAY_DAEMON = 3"
definition DISPLAY_QUIET :: int where "DISPLAY_QUIET = 4"

lemmas display_defs = DISPLAY_DEFAULT_def DISPLAY_DEBUG_def DISPLAY_DAEMON_def DISPLAY_QUIET_def

definition select_display :: "int \<Rightarrow> bool \<Rightarrow> int \<Rightarrow> int + display" where
  "select_display code http mutex_rc =
     (if code = DISPLAY_DEFAULT then DisplayDefault http mutex_rc
      else if code = DISPLAY_DEBUG then Inr Debug_display
      else if code = DISPLAY_DAEMON then Inr Daemon_display
      else if code = DISPLAY_QUIET then Inr Quiet_display
      else DisplayDefault http mutex_rc)"

definition draw_labels :: "string list \<Rightarrow> out list" where
  "draw_labels labels =
     concat (map (\<lambda>i. if labels ! i \<noteq> [] then [Mvaddstr 1 (24 + i * 8) (labels ! i)] else []) [0, 1, 2])"

subsection \<open>DisplayDefault\<close>

definition default_init :: "string list \<Rightarrow> int \<Rightarrow> out list" where
  "default_init labels prt =
     [Initscr, Cbreak, Noecho, Clear,
      Mvaddstr 0 0 (''Server started on port '' @ show_dec prt),
      Mvaddstr 1 0 ''Thread# Active? #Conn''] @ draw_labels labels @ [Refresh]"

definition default_refresh_thread :: "string list \<Rightarrow> connection_thread \<Rightarrow> nat \<Rightarrow> out list" where
  "default_refresh_thread labels t i =
     (if labels ! i = [] then []
      else [Lock_display, Mvaddstr (nb t + 2) (24 + i * 8) (show_dec (int (info t ! i))), Refresh,
            Unlock_display])"

definition default_thread_update :: "connection_thread \<Rightarrow> out list" where
  "default_thread_update t =
     [Lock_display, Mvaddstr (nb t + 2) 16 (show_dec (int (nb_connections t))), Refresh, Unlock_display]"

definition default_status :: "connection_thread \<Rightarrow> bool \<Rightarrow> out list" where
  "default_status t is_on =
     [Lock_display, Mvaddstr (nb t + 2) 8 (if is_on then ''Y'' else ''.''), Refresh, Unlock_display]"

definition default_new_thread :: "connection_thread \<Rightarrow> out list" where
  "default_new_thread t =
     Mvaddstr (nb t + 2) 0 (show_dec (int (nb t))) # default_thread_update t @ default_status t True"

text \<open>The message is formatted into a buffer of 256 bytes on the stack.\<close>

definition default_error :: "string \<Rightarrow> fault + out list" where
  "default_error formatted =
     (if 256 \<le> length formatted then Inl Overwrite
      else Inr [Lock_display, Mvaddstr 6 0 formatted, Refresh, Unlock_display])"

lemmas default_display_defs = default_init_def default_refresh_thread_def default_thread_update_def
  default_status_def default_new_thread_def default_error_def

subsection \<open>DisplayDebug, DisplayDaemon and DisplayQuiet\<close>

text \<open>\<open>msec\<close> is the millisecond that \<open>gettimeofday\<close> reports.\<close>

definition debug_init :: "int \<Rightarrow> out list" where
  "debug_init prt = [Stdout (''Server started on port '' @ show_dec prt @ newline)]"

definition debug_new_thread :: "connection_thread \<Rightarrow> out list" where
  "debug_new_thread t = [Stdout (''Created thread '' @ show_dec (int (nb t)) @ newline)]"

definition debug_debug :: "int \<Rightarrow> string \<Rightarrow> out list" where
  "debug_debug msec formatted = [Stdout (''['' @ show_dec msec @ ''] ''), Stdout formatted]"

definition debug_error :: "string \<Rightarrow> out list" where
  "debug_error formatted = [Stderr formatted]"

definition debug_status :: "int \<Rightarrow> connection_thread \<Rightarrow> bool \<Rightarrow> out list" where
  "debug_status msec t is_on =
     [Stdout (''['' @ show_dec msec @ (if is_on then ''] Resumed thread '' else ''] Release thread '') @
        show_dec (int (nb t)) @ newline)]"

definition daemon_init :: "out list" where
  "daemon_init = [Open_log ''./sawa.log'']"

definition daemon_debug :: "bool \<Rightarrow> string \<Rightarrow> out list" where
  "daemon_debug debug_flag formatted = (if \<not> debug_flag then [] else [Log formatted, Flush_log])"

definition daemon_error :: "string \<Rightarrow> out list" where
  "daemon_error formatted = [Log formatted, Flush_log]"

definition quiet_init :: "int \<Rightarrow> out list" where
  "quiet_init prt = [Stdout (''Server started on port '' @ show_dec prt @ newline)]"

definition quiet_error :: "string \<Rightarrow> out list" where
  "quiet_error formatted = [Stderr formatted]"

subsection \<open>The virtual methods\<close>

text \<open>The methods that are not listed for a class have an empty body there.\<close>

definition display_init :: "display \<Rightarrow> int \<Rightarrow> out list" where
  "display_init d prt =
     (case d of
        Default_display labels \<Rightarrow> default_init labels prt
      | Debug_display \<Rightarrow> debug_init prt
      | Daemon_display \<Rightarrow> daemon_init
      | Quiet_display \<Rightarrow> quiet_init prt)"

definition refresh_thread :: "display \<Rightarrow> connection_thread \<Rightarrow> nat \<Rightarrow> out list" where
  "refresh_thread d t i =
     (case d of Default_display labels \<Rightarrow> default_refresh_thread labels t i | _ \<Rightarrow> [])"

definition thread_update :: "display \<Rightarrow> connection_thread \<Rightarrow> out list" where
  "thread_update d t = (case d of Default_display _ \<Rightarrow> default_thread_update t | _ \<Rightarrow> [])"

definition status :: "display \<Rightarrow> int \<Rightarrow> connection_thread \<Rightarrow> bool \<Rightarrow> out list" where
  "status d msec t is_on =
     (case d of
        Default_display _ \<Rightarrow> default_status t is_on
      | Debug_display \<Rightarrow> debug_status msec t is_on
      | _ \<Rightarrow> [])"

definition new_thread :: "display \<Rightarrow> connection_thread \<Rightarrow> out list" where
  "new_thread d t =
     (case d of
        Default_display _ \<Rightarrow> default_new_thread t
      | Debug_display \<Rightarrow> debug_new_thread t
      | _ \<Rightarrow> [])"

definition display_cleanup :: "display \<Rightarrow> out list" where
  "display_cleanup d =
     (case d of Default_display _ \<Rightarrow> [Endwin] | Daemon_display \<Rightarrow> [Close_log] | _ \<Rightarrow> [])"

definition display_debug :: "display \<Rightarrow> bool \<Rightarrow> int \<Rightarrow> string \<Rightarrow> out list" where
  "display_debug d debug_flag msec formatted =
     (case d of
        Debug_display \<Rightarrow> debug_debug msec formatted
      | Daemon_display \<Rightarrow> daemon_debug debug_flag formatted
      | _ \<Rightarrow> [])"

definition display_error :: "display \<Rightarrow> string \<Rightarrow> fault + out list" where
  "display_error d formatted =
     (case d of
        Default_display _ \<Rightarrow> default_error formatted
      | Debug_display \<Rightarrow> Inr (debug_error formatted)
      | Daemon_display \<Rightarrow> Inr (daemon_error formatted)
      | Quiet_display \<Rightarrow> Inr (quiet_error formatted))"

lemmas display_method_defs = refresh_thread_def thread_update_def status_def new_thread_def
  display_error_def default_display_defs

section \<open>The lock of the display\<close>

text \<open>Whether every call that draws is made with the display's mutex held.\<close>

fun draws_locked :: "bool \<Rightarrow> out list \<Rightarrow> bool" where
  "draws_locked held [] = True"
| "draws_locked held (c # cs) =
     (case c of
        Lock_display \<Rightarrow> draws_locked True cs
      | Unlock_display \<Rightarrow> draws_locked False cs
      | Mvaddstr _ _ _ \<Rightarrow> held \<and> draws_locked held cs
      | Refresh \<Rightarrow> held \<and> draws_locked held cs
      | _ \<Rightarrow> draws_locked held cs)"

text \<open>
  The default display draws under its mutex, as its comment demands, but for \<open>new_thread\<close>, which the
  accepting thread calls while workers draw.
\<close>

lemma draws_under_lock:
  "draws_locked False (refresh_thread (Default_display ls) t i)"
  "draws_locked False (thread_update (Default_display ls) t)"
  "draws_locked False (status (Default_display ls) msec t is_on)"
  "display_error (Default_display ls) s = Inr cs \<Longrightarrow> draws_locked False cs"
  by (auto simp: display_method_defs split: if_splits)

lemma new_thread_draws_unlocked: "\<not> draws_locked False (new_thread (Default_display ls) t)"
  by (simp add: display_method_defs)

section \<open>The terminal\<close>

text \<open>
  The events the server reports to its display, and their calls.  \<open>Count\<close> is what \<open>updateScreen\<close>
  reports after it has incremented a counter.
\<close>

datatype event =
    New connection_thread
  | Connections connection_thread
  | Activity connection_thread bool
  | Count connection_thread nat
  | Err string

fun event_out :: "display \<Rightarrow> int \<Rightarrow> event \<Rightarrow> fault + out list" where
  "event_out d msec (New t) = Inr (new_thread d t)"
| "event_out d msec (Connections t) = Inr (thread_update d t)"
| "event_out d msec (Activity t is_on) = Inr (status d msec t is_on)"
| "event_out d msec (Count t i) = Inr (refresh_thread d t i)"
| "event_out d msec (Err s) = display_error d s"

fun events_out :: "display \<Rightarrow> int \<Rightarrow> event list \<Rightarrow> fault + out list" where
  "events_out d msec [] = Inr []"
| "events_out d msec (e # es) =
     sbind (event_out d msec e) (\<lambda>o1. sbind (events_out d msec es) (\<lambda>o2. Inr (o1 @ o2)))"

text \<open>
  What \<open>mvaddstr\<close> is documented to do on a window of \<open>rows\<close> by \<open>cols\<close> characters, for a string of printable
  characters that fits its row: it replaces the characters it covers; a row outside the window is an error without
  effect.  Control characters, such as the line end some messages of the servers end with, move the cursor, clear or
  are shown with two characters; nothing is assumed of them.
\<close>

definition printable :: "char \<Rightarrow> bool" where
  "printable c \<longleftrightarrow> 32 \<le> (of_char c :: nat) \<and> (of_char c :: nat) < 127"

definition mvaddstr_law ::
  "nat \<Rightarrow> nat \<Rightarrow> (nat \<Rightarrow> nat \<Rightarrow> string \<Rightarrow> 'scr \<Rightarrow> 'scr) \<Rightarrow> ('scr \<Rightarrow> nat \<Rightarrow> nat \<Rightarrow> char) \<Rightarrow> bool"
where
  "mvaddstr_law rows cols paint cell \<longleftrightarrow>
     (\<forall>y x s scr. y < rows \<longrightarrow> x + length s \<le> cols \<longrightarrow> list_all printable s \<longrightarrow>
        (\<forall>y' x'. cell (paint y x s scr) y' x' =
           (if y' = y \<and> x \<le> x' \<and> x' < x + length s then s ! (x' - x) else cell scr y' x'))) \<and>
     (\<forall>y x s scr. rows \<le> y \<longrightarrow> paint y x s scr = scr)"

definition draw :: "(nat \<Rightarrow> nat \<Rightarrow> string \<Rightarrow> 'scr \<Rightarrow> 'scr) \<Rightarrow> out \<Rightarrow> 'scr \<Rightarrow> 'scr" where
  "draw paint c scr = (case c of Mvaddstr y x s \<Rightarrow> paint y x s scr | _ \<Rightarrow> scr)"

section \<open>The table the screen shows\<close>

text \<open>
  A thread has six fields of eight characters: its number, its activity, its connections and its three
  counters.  \<open>texts n f\<close> is what an event writes into field \<open>f\<close> of thread \<open>n\<close>.
\<close>

definition field :: "('scr \<Rightarrow> nat \<Rightarrow> nat \<Rightarrow> char) \<Rightarrow> 'scr \<Rightarrow> nat \<Rightarrow> nat \<Rightarrow> string" where
  "field cell scr n f = map (cell scr (n + 2)) [8 * f..<8 * f + 8]"

definition put_text :: "string \<Rightarrow> string \<Rightarrow> string" where
  "put_text s old = s @ drop (length s) old"

fun texts :: "nat \<Rightarrow> nat \<Rightarrow> event \<Rightarrow> string list" where
  "texts n f (New t) =
     (if nb t = n \<and> f = 0 then [show_dec (int n)]
      else if nb t = n \<and> f = 2 then [show_dec (int (nb_connections t))]
      else if nb t = n \<and> f = 1 then [''Y''] else [])"
| "texts n f (Connections t) = (if nb t = n \<and> f = 2 then [show_dec (int (nb_connections t))] else [])"
| "texts n f (Activity t is_on) = (if nb t = n \<and> f = 1 then [if is_on then ''Y'' else ''.''] else [])"
| "texts n f (Count t i) = (if nb t = n \<and> f = i + 3 then [show_dec (int (info t ! i))] else [])"
| "texts n f (Err s) = []"

fun fits :: "nat \<Rightarrow> event \<Rightarrow> bool" where
  "fits cols (New t) = (nb t < 10 ^ 8 \<and> nb_connections t < 10 ^ 8)"
| "fits cols (Connections t) = (nb_connections t < 10 ^ 8)"
| "fits cols (Activity t is_on) = True"
| "fits cols (Count t i) = (i < 3 \<and> info t ! i < 10 ^ 8)"
| "fits cols (Err s) = (length s \<le> cols \<and> length s < 256 \<and> list_all printable s)"

lemma length_show_base: "0 < k \<Longrightarrow> n < 10 ^ k \<Longrightarrow> length (show_base 10 n) \<le> k"
proof (induction k arbitrary: n)
  case (Suc k)
  show ?case
  proof (cases "n < 10")
    case True
    then show ?thesis by (simp add: show_base.simps)
  next
    case False
    then have "0 < k" using Suc.prems(2) by (cases k) simp_all
    moreover have "n div 10 < 10 ^ k" using Suc.prems(2) by (simp add: less_mult_imp_div_less)
    ultimately have "length (show_base 10 (n div 10)) \<le> k" by (rule Suc.IH)
    with False show ?thesis by (subst show_base.simps) simp
  qed
qed simp

lemma length_show_dec: "n < 10 ^ 8 \<Longrightarrow> length (show_dec (int n)) \<le> 8"
  using length_show_base [of 8 n] by (simp add: show_dec_def)

lemma printable_digit: "k < 10 \<Longrightarrow> printable (digit k)"
  by (simp add: printable_def digit_def)

lemma printable_show_base: "list_all printable (show_base 10 n)"
proof (induction n rule: less_induct)
  case (less n)
  show ?case
  proof (cases "n < 10")
    case True
    then show ?thesis by (subst show_base.simps) (simp add: printable_digit)
  next
    case False
    then have "list_all printable (show_base 10 (n div 10))" by (intro less) simp
    with False show ?thesis by (subst show_base.simps) (simp add: printable_digit)
  qed
qed

lemma printable_flags: "printable (CHR ''Y'')" "printable (CHR ''.'')"
  by (simp_all add: printable_def)

lemma printable_show_dec [simp]: "list_all printable (show_dec (int n))"
  using printable_show_base by (simp add: show_dec_def)

lemma field_paint:
  assumes "mvaddstr_law rows cols paint cell" and "48 \<le> cols" and "n + 2 < rows"
    and "length s \<le> 8" and "list_all printable s" and "f < 6" and "g < 6"
  shows "field cell (paint (m + 2) (8 * g) s scr) n f =
    (if m = n \<and> g = f then put_text s (field cell scr n f) else field cell scr n f)"
proof (cases "m + 2 < rows")
  case False
  with assms(1,3) show ?thesis by (auto simp: mvaddstr_law_def)
next
  case True
  have "8 * g + length s \<le> cols" using assms(2,4,7) by linarith
  with True assms(1,5) have c: "cell (paint (m + 2) (8 * g) s scr) y' x' =
      (if y' = m + 2 \<and> 8 * g \<le> x' \<and> x' < 8 * g + length s then s ! (x' - 8 * g) else cell scr y' x')"
    for y' x'
    unfolding mvaddstr_law_def by blast
  note c = c [unfolded add_2_eq_Suc']
  show ?thesis
  proof (cases "m = n \<and> g = f")
    case True
    then have "field cell (paint (m + 2) (8 * g) s scr) n f = put_text s (field cell scr n f)"
      using assms(4) c [of "Suc (Suc n)"]
      by (intro nth_equalityI) (simp_all add: field_def put_text_def nth_append)
    with True show ?thesis by simp
  next
    case False
    then have "cell (paint (m + 2) (8 * g) s scr) (n + 2) x' = cell scr (n + 2) x'"
      if "x' \<in> set [8 * f..<8 * f + 8]" for x'
      using that assms(4) by (auto simp: c)
    with False show ?thesis by (auto simp: field_def intro!: map_cong)
  qed
qed

lemma field_error:
  assumes "mvaddstr_law rows cols paint cell" and "n + 2 < rows" and "n \<noteq> 4" and "length s \<le> cols" and "list_all printable s"
  shows "field cell (paint 6 0 s scr) n f = field cell scr n f"
  using assms by (cases "6 < rows") (auto simp: mvaddstr_law_def field_def)

text \<open>One event writes its texts into the fields of its thread and leaves the others alone.\<close>

lemma event_fields:
  assumes law: "mvaddstr_law rows cols paint cell" and "48 \<le> cols" and n: "n + 2 < rows" and "f < 6"
    and "fits cols e" and "n \<noteq> 4 \<or> (\<forall>s. e \<noteq> Err s)" and labels: "\<forall>i < 3. labels ! i \<noteq> []"
  shows "\<exists>cs. event_out (Default_display labels) msec e = Inr cs \<and>
    field cell (fold (draw paint) cs scr) n f = fold put_text (texts n f e) (field cell scr n f)"
proof -
  note paint = field_paint [OF law \<open>48 \<le> cols\<close>, where g = 0, simplified]
    field_paint [OF law \<open>48 \<le> cols\<close>, where g = 1, simplified]
    field_paint [OF law \<open>48 \<le> cols\<close>, where g = 2, simplified]
  note n' = n [simplified] and f' = \<open>f < 6\<close>
  show ?thesis
  proof (cases e)
    case (New t)
    with assms(5) show ?thesis
      using n' f' by (auto simp: display_method_defs draw_def paint length_show_dec printable_flags)
  next
    case (Connections t)
    with assms(5) show ?thesis using n' f' by (auto simp: display_method_defs draw_def paint length_show_dec printable_flags)
  next
    case (Activity t b)
    then show ?thesis using n' f' by (auto simp: display_method_defs draw_def paint printable_flags)
  next
    case (Count t i)
    have call: "refresh_thread (Default_display labels) t i =
        [Lock_display, Mvaddstr (nb t + 2) (8 * (i + 3)) (show_dec (int (info t ! i))), Refresh, Unlock_display]"
      using Count assms(5) labels by (simp add: display_method_defs)
    show ?thesis
      using Count assms(5) field_paint [OF law \<open>48 \<le> cols\<close> n length_show_dec printable_show_dec \<open>f < 6\<close>, of "info t ! i" "i + 3"]
      by (simp add: call draw_def del: distrib_left_numeral add_2_eq_Suc')
  next
    case (Err s)
    with assms(5,6) show ?thesis
      using field_error [OF law n, of s] by (auto simp: display_method_defs draw_def)
  qed
qed

text \<open>
  C30: On a window of at least 48 columns the default display is a table: whatever the order of the
  events, field \<open>f\<close> of thread \<open>n\<close> holds the texts written for that thread and field, one over the other
  from its first character, as long as the numbers have at most eight digits and the error messages are of printable
  characters only (no line end) and fit the row.  The thread with the number 4 is an exception once an error is
  reported: its row is where errors are written.
\<close>

theorem display_is_table:
  assumes "mvaddstr_law rows cols paint cell" and "48 \<le> cols" and "n + 2 < rows" and "f < 6"
    and "list_all (fits cols) es" and "n \<noteq> 4 \<or> (\<forall>s. Err s \<notin> set es)"
    and "DisplayDefault http 0 = Inr d"
  shows "\<exists>cs. events_out d msec es = Inr cs \<and>
    field cell (fold (draw paint) cs scr) n f =
      fold put_text (concat (map (texts n f) es)) (field cell scr n f)"
proof -
  obtain labels where d: "d = Default_display labels" and labels: "\<forall>i < 3. labels ! i \<noteq> []"
    using assms(7) by (auto simp: DisplayDefault_def numeral_3_eq_3 less_Suc_eq split: if_splits)
  show ?thesis
    using assms(5,6)
  proof (induction es arbitrary: scr)
    case (Cons e es)
    obtain cs where cs: "event_out d msec e = Inr cs"
      "field cell (fold (draw paint) cs scr) n f = fold put_text (texts n f e) (field cell scr n f)"
      using event_fields [OF assms(1-4) _ _ labels, of e msec scr] Cons.prems d by auto
    obtain cs' where "events_out d msec es = Inr cs'"
      "field cell (fold (draw paint) cs' (fold (draw paint) cs scr)) n f =
         fold put_text (concat (map (texts n f) es)) (field cell (fold (draw paint) cs scr) n f)"
      using Cons.IH [of "fold (draw paint) cs scr"] Cons.prems by auto
    with cs show ?case by simp
  qed simp
qed

definition grid_paint :: "nat \<Rightarrow> nat \<Rightarrow> string \<Rightarrow> (nat \<Rightarrow> nat \<Rightarrow> char) \<Rightarrow> nat \<Rightarrow> nat \<Rightarrow> char" where
  "grid_paint y x s scr y' x' =
     (if y < 24 \<and> y' = y \<and> x \<le> x' \<and> x' < x + length s then s ! (x' - x) else scr y' x')"

theorem display_is_table_witness:
  "\<exists>cs. events_out (Default_display [''200'', ''404'', ''500'']) 0
        [New (ConnectionThread 5), Count (updateScreen 0 (ConnectionThread 5)) 0, Err ''x''] = Inr cs \<and>
     field id (fold (draw grid_paint) cs (\<lambda>y x. CHR '' '')) 0 3 = ''1       ''"
proof -
  have law: "mvaddstr_law 24 80 grid_paint id" by (auto simp: mvaddstr_law_def grid_paint_def fun_eq_iff)
  have one: "show_dec 1 = ''1''" by code_simp
  let ?es = "[New (ConnectionThread 5), Count (updateScreen 0 (ConnectionThread 5)) 0, Err ''x'']"
  have texts: "concat (map (texts 0 3) ?es) = [''1'']"
    by (simp add: ConnectionThread_def updateScreen_def one)
  have fits: "list_all (fits 80) ?es" by (simp add: ConnectionThread_def updateScreen_def printable_def)
  have "field id (\<lambda>y x. CHR '' '') 0 3 = replicate 8 (CHR '' '')"
    by (simp add: field_def map_replicate_const numeral_eq_Suc)
  then have shown: "put_text ''1'' (field id (\<lambda>y x. CHR '' '') 0 3) = ''1       ''"
    by (simp add: put_text_def numeral_eq_Suc)
  have "DisplayDefault True 0 = Inr (Default_display [''200'', ''404'', ''500''])"
    by (simp add: DisplayDefault_def)
  from display_is_table [OF law _ _ _ fits _ this, of 0 3 0 "\<lambda>y x. CHR '' ''"]
  show ?thesis by (simp only: texts fold.simps o_apply id_apply shown) simp
qed

end
