(* ===== verification/Xml_Util.thy ===== *)
theory Xml_Util
  imports Sawa_Util
begin

unbundle bit_operations_syntax

text \<open>
  The utilities of the XML library the manager of ToWa reads \<^verbatim>\<open>web.xml\<close> with
  (\<^verbatim>\<open>server/tinyxml2.h\<close> and \<^verbatim>\<open>server/tinyxml2.cpp\<close>): character classes, the byte order
  mark, UTF-8, and character references.  A pointer into the text is what is left of it; the text
  ends where its list does, so that reading \<open>*p\<close> at its end yields the terminating zero.
\<close>

section \<open>Character classes\<close>

definition IsUTF8Continuation :: "char \<Rightarrow> bool" where
  "IsUTF8Continuation c \<longleftrightarrow> 128 \<le> (of_char c :: nat)"

definition isspace :: "char \<Rightarrow> bool" where
  "isspace c \<longleftrightarrow> (let k = of_char c :: nat in 9 \<le> k \<and> k \<le> 13 \<or> k = 32)"

definition IsWhiteSpace :: "char \<Rightarrow> bool" where
  "IsWhiteSpace c \<longleftrightarrow> \<not> IsUTF8Continuation c \<and> isspace c"

definition isalpha :: "char \<Rightarrow> bool" where
  "isalpha c \<longleftrightarrow> (let k = of_char c :: nat in 65 \<le> k \<and> k \<le> 90 \<or> 97 \<le> k \<and> k \<le> 122)"

definition isdigit :: "char \<Rightarrow> bool" where
  "isdigit c \<longleftrightarrow> (let k = of_char c :: nat in 48 \<le> k \<and> k \<le> 57)"

definition IsNameStartChar :: "char \<Rightarrow> bool" where
  "IsNameStartChar c \<longleftrightarrow> 128 \<le> (of_char c :: nat) \<or> isalpha c \<or> c = CHR '':'' \<or> c = CHR ''_''"

definition IsNameChar :: "char \<Rightarrow> bool" where
  "IsNameChar c \<longleftrightarrow> IsNameStartChar c \<or> isdigit c \<or> c = CHR ''.'' \<or> c = CHR ''-''"

text \<open>\<open>SkipWhiteSpace\<close> counts the line feeds it passes.\<close>

fun SkipWhiteSpace :: "string \<Rightarrow> nat \<Rightarrow> string \<times> nat" where
  "SkipWhiteSpace [] line = ([], line)"
| "SkipWhiteSpace (c # p) line =
     (if IsWhiteSpace c then SkipWhiteSpace p (if c = CHR 0x0A then line + 1 else line)
      else (c # p, line))"

text \<open>\<open>StringEqual(p, q, n)\<close> for a literal \<open>q\<close> of length \<open>n\<close>.\<close>

definition starts_with :: "string \<Rightarrow> string \<Rightarrow> bool" where
  "starts_with q p \<longleftrightarrow> take (length q) p = q"

definition ReadBOM :: "string \<Rightarrow> string \<times> bool" where
  "ReadBOM p =
     (if starts_with [CHR 0xEF, CHR 0xBB, CHR 0xBF] p then (drop 3 p, True) else (p, False))"

section \<open>UTF-8\<close>

type_synonym u64 = "64 word"

text \<open>\<open>(char)\<close> of an \<open>unsigned long\<close>.\<close>

definition to_char :: "u64 \<Rightarrow> char" where
  "to_char w = char_of (unat (ucast w :: byte))"

definition BYTE_MASK :: u64 where "BYTE_MASK = 0xBF"
definition BYTE_MARK :: u64 where "BYTE_MARK = 0x80"

definition FIRST_BYTE_MARK :: "u64 list" where
  "FIRST_BYTE_MARK = [0x00, 0x00, 0xC0, 0xE0, 0xF0, 0xF8, 0xFC]"

definition utf8_length :: "u64 \<Rightarrow> nat" where
  "utf8_length input =
     (if input < 0x80 then 1 else if input < 0x800 then 2 else if input < 0x10000 then 3
      else if input < 0x200000 then 4 else 0)"

text \<open>
  The cases of the switch fall through from 4 to 1; each stores a byte in front of those stored
  before, so that the result is built from its end.
\<close>

fun utf8_store :: "nat \<Rightarrow> nat \<Rightarrow> u64 \<Rightarrow> string \<Rightarrow> string" where
  "utf8_store len 0 input out = out"
| "utf8_store len (Suc 0) input out = to_char (input OR FIRST_BYTE_MARK ! len) # out"
| "utf8_store len (Suc (Suc k)) input out =
     utf8_store len (Suc k) (drop_bit 6 input) (to_char ((input OR BYTE_MARK) AND BYTE_MASK) # out)"

definition ConvertUTF32ToUTF8 :: "u64 \<Rightarrow> string" where
  "ConvertUTF32ToUTF8 input = utf8_store (utf8_length input) (utf8_length input) input []"

section \<open>Character references\<close>

definition hex_digit :: "char \<Rightarrow> u32 option" where
  "hex_digit c =
     (let k = of_char c :: nat
      in if 48 \<le> k \<and> k \<le> 57 then Some (of_nat (k - 48))
         else if 97 \<le> k \<and> k \<le> 102 then Some (of_nat (k - 97 + 10))
         else if 65 \<le> k \<and> k \<le> 70 then Some (of_nat (k - 65 + 10))
         else None)"

definition dec_digit :: "char \<Rightarrow> u32 option" where
  "dec_digit c = (let k = of_char c :: nat in if 48 \<le> k \<and> k \<le> 57 then Some (of_nat (k - 48)) else None)"

text \<open>
  The loop that walks back from the semicolon to \<open>stop\<close>, over the text in reverse.  \<open>mult\<close> and the
  scaled digit are 32 bits wide and wrap around; the assertions about that are off in a release build.
\<close>

fun ref_scan :: "char \<Rightarrow> u32 \<Rightarrow> (char \<Rightarrow> u32 option) \<Rightarrow> string \<Rightarrow> u32 \<Rightarrow> u64 \<Rightarrow> u64 option" where
  "ref_scan stop base digit_of [] mult ucs = None"
| "ref_scan stop base digit_of (c # rev_text) mult ucs =
     (if c = stop then Some ucs
      else
        (case digit_of c of
           None \<Rightarrow> None
         | Some d \<Rightarrow> ref_scan stop base digit_of rev_text (mult * base) (ucs + ucast (mult * d))))"

text \<open>
  \<open>p\<close> starts with the ampersand.  The result is the text behind the reference and the bytes it stands
  for, or \<open>None\<close> for the null pointer.
\<close>

definition GetCharacterRef :: "string \<Rightarrow> (string \<times> string) option" where
  "GetCharacterRef p =
     (if starts_with ''#'' (drop 1 p) \<and> drop 2 p \<noteq> [] then
        let q = (if starts_with ''x'' (drop 2 p) then drop 3 p else drop 2 p);
            text = takeWhile (\<lambda>c. c \<noteq> CHR '';'') q
        in if q = [] \<or> CHR '';'' \<notin> set q then None
           else
             map_option (\<lambda>ucs. (tl (dropWhile (\<lambda>c. c \<noteq> CHR '';'') q), ConvertUTF32ToUTF8 ucs))
               (if starts_with ''x'' (drop 2 p)
                then ref_scan (CHR ''x'') 16 hex_digit (rev (''x'' @ text)) 1 0
                else ref_scan (CHR ''#'') 10 dec_digit (rev (''#'' @ text)) 1 0)
      else Some (drop 1 p, []))"

section \<open>Entities\<close>

text \<open>The table \<open>entities\<close>: pattern and value.\<close>

definition entities :: "(string \<times> char) list" where
  "entities = [(''quot'', CHR 0x22), (''amp'', CHR ''&''), (''apos'', CHR 0x27), (''lt'', CHR ''<''),
     (''gt'', CHR ''>'')]"

end
