(* ===== verification/Xml_Chars.thy ===== *)
theory Xml_Chars
  imports Xml_Util
begin

unbundle bit_operations_syntax

text \<open>
  What the XML library's conversion to UTF-8 and its character references come to, in arithmetic.
\<close>

section \<open>UTF-8 in arithmetic\<close>

definition utf8 :: "nat \<Rightarrow> string" where
  "utf8 n = map char_of
     (if n < 0x80 then [n]
      else if n < 0x800 then [0xC0 + n div 64, 0x80 + n mod 64]
      else if n < 0x10000 then [0xE0 + n div 4096, 0x80 + n div 64 mod 64, 0x80 + n mod 64]
      else if n < 0x200000
        then [0xF0 + n div 262144, 0x80 + n div 4096 mod 64, 0x80 + n div 64 mod 64, 0x80 + n mod 64]
      else [])"

lemma to_char_or:
  assumes "unat w < 2 ^ k" and "\<And>n. bit c n \<Longrightarrow> k \<le> n" and "unat c = m" and "unat w + m < 256"
  shows "to_char (w OR c) = char_of (m + unat w)"
proof -
  have "\<not> bit w n \<or> \<not> bit c n" for n
  proof (cases "k \<le> n")
    case True
    have "2 ^ k \<le> (2 :: nat) ^ n" using True by simp
    then have "unat w < 2 ^ n" using assms(1) by linarith
    then have "\<not> bit (unat w) n" by (simp add: bit_iff_odd)
    then show ?thesis by (simp add: bit_unsigned_iff)
  next
    case False
    then show ?thesis using assms(2) by (meson not_le)
  qed
  then have or: "w OR c = w + c" by (simp add: disjunctive_add)
  have "unat (w + c) = m + unat w" unfolding assms(3) [symmetric] add.commute [of "unat c"]
    using assms(3,4) by (intro unat_add_lem [THEN iffD1]) simp
  then show ?thesis
    using assms(4) by (simp add: or to_char_def unsigned_ucast_eq take_bit_eq_mod)
qed

lemma bit_ge: "bit (push_bit k x :: u64) n \<Longrightarrow> k \<le> n"
  by (simp add: bit_push_bit_iff)

lemma to_char_continuation: "to_char ((w OR BYTE_MARK) AND BYTE_MASK) = char_of (0x80 + unat w mod 64)"
proof -
  have mask: "BYTE_MASK = mask 6 OR push_bit 7 1" and mark: "BYTE_MARK = push_bit 7 1"
    by (simp_all add: BYTE_MASK_def BYTE_MARK_def mask_eq_exp_minus_1 push_bit_eq_mult)
  have "(w OR BYTE_MARK) AND BYTE_MASK = take_bit 6 w OR 0x80"
    unfolding mask mark
    by (rule bit_word_eqI) (auto simp: bit_simps)
  moreover have "unat (take_bit 6 w) = unat w mod 64"
    by (simp only: unsigned_take_bit_eq) (simp add: take_bit_eq_mod)
  moreover have "to_char (take_bit 6 w OR 0x80) = char_of (0x80 + unat (take_bit 6 w))"
  proof (rule to_char_or [of _ 6])
    show "bit (0x80 :: u64) n \<Longrightarrow> 6 \<le> n" for n
      using bit_ge [of 7 1 n] by simp
    show "unat (0x80 :: u64) = 0x80" by code_simp
  qed (simp_all add: calculation(2))
  ultimately show ?thesis by simp
qed

lemma first_byte:
  "unat w < 0x80 \<Longrightarrow> to_char (w OR 0) = char_of (unat w)"
  "unat w < 0x20 \<Longrightarrow> to_char (w OR 0xC0) = char_of (0xC0 + unat w)"
  "unat w < 0x10 \<Longrightarrow> to_char (w OR 0xE0) = char_of (0xE0 + unat w)"
  "unat w < 0x08 \<Longrightarrow> to_char (w OR 0xF0) = char_of (0xF0 + unat w)"
proof -
  have c0: "bit (0xC0 :: u64) n \<Longrightarrow> 5 \<le> n" for n using bit_ge [of 6 3 n] by simp
  have e0: "bit (0xE0 :: u64) n \<Longrightarrow> 4 \<le> n" for n using bit_ge [of 5 7 n] by simp
  have f0: "bit (0xF0 :: u64) n \<Longrightarrow> 3 \<le> n" for n using bit_ge [of 4 15 n] by simp
  have uc0: "unat (0xC0 :: u64) = 0xC0" and ue0: "unat (0xE0 :: u64) = 0xE0"
    and uf0: "unat (0xF0 :: u64) = 0xF0"
    by code_simp+
  show "unat w < 0x80 \<Longrightarrow> to_char (w OR 0) = char_of (unat w)"
    using to_char_or [of w 7 0 0] by simp
  show "unat w < 0x20 \<Longrightarrow> to_char (w OR 0xC0) = char_of (0xC0 + unat w)"
    using to_char_or [of w 5 "0xC0" "0xC0", OF _ c0] uc0 by simp
  show "unat w < 0x10 \<Longrightarrow> to_char (w OR 0xE0) = char_of (0xE0 + unat w)"
    using to_char_or [of w 4 "0xE0" "0xE0", OF _ e0] ue0 by simp
  show "unat w < 0x08 \<Longrightarrow> to_char (w OR 0xF0) = char_of (0xF0 + unat w)"
    using to_char_or [of w 3 "0xF0" "0xF0", OF _ f0] uf0 by simp
qed

lemma unat_shift: "unat (drop_bit k (w :: u64)) = unat w div 2 ^ k"
proof -
  have "take_bit 64 (unat w) = unat w" using unsigned_less [of w] by (intro take_bit_nat_eq_self) simp
  then show ?thesis by (simp only: unsigned_drop_bit_eq) (simp add: drop_bit_eq_div)
qed

lemma utf8_store_numerals:
  "utf8_store len 1 w out = to_char (w OR FIRST_BYTE_MARK ! len) # out"
  "utf8_store len 2 w out =
     utf8_store len 1 (drop_bit 6 w) (to_char ((w OR BYTE_MARK) AND BYTE_MASK) # out)"
  "utf8_store len 3 w out =
     utf8_store len 2 (drop_bit 6 w) (to_char ((w OR BYTE_MARK) AND BYTE_MASK) # out)"
  "utf8_store len 4 w out =
     utf8_store len 3 (drop_bit 6 w) (to_char ((w OR BYTE_MARK) AND BYTE_MASK) # out)"
  by (simp_all add: eval_nat_numeral)

text \<open>
  The conversion is UTF-8: one to four bytes by the size of the code, whose marks and six-bit groups
  are those of the standard, for every code below 0x200000, and nothing for the others.
\<close>

theorem ConvertUTF32ToUTF8_is_utf8: "ConvertUTF32ToUTF8 w = utf8 (unat w)"
proof -
  have len: "utf8_length w = (if unat w < 0x80 then 1 else if unat w < 0x800 then 2
      else if unat w < 0x10000 then 3 else if unat w < 0x200000 then 4 else 0)"
    by (simp add: utf8_length_def word_less_nat_alt)
  consider "unat w < 0x80" | "0x80 \<le> unat w" "unat w < 0x800" | "0x800 \<le> unat w" "unat w < 0x10000"
    | "0x10000 \<le> unat w" "unat w < 0x200000" | "0x200000 \<le> unat w"
    by linarith
  then show ?thesis
  proof cases
    case 1
    then show ?thesis
      using first_byte(1) [of w] by (simp add: ConvertUTF32ToUTF8_def len utf8_def FIRST_BYTE_MARK_def)
  next
    case 2
    then have "unat (drop_bit 6 w) < 0x20" by (simp add: unat_shift)
    with 2 show ?thesis
      using first_byte(2) [of "drop_bit 6 w"]
      by (simp add: ConvertUTF32ToUTF8_def len utf8_def FIRST_BYTE_MARK_def to_char_continuation unat_shift
          utf8_store_numerals)
  next
    case 3
    let ?w = "drop_bit 12 w"
    have u: "unat ?w = unat w div 4096" by (simp add: unat_shift)
    with 3 have "unat ?w < 0x10" by simp
    with 3 u show ?thesis
      using first_byte(3) [of ?w]
      by (simp add: ConvertUTF32ToUTF8_def len utf8_def FIRST_BYTE_MARK_def to_char_continuation unat_shift
          utf8_store_numerals)
  next
    case 4
    let ?w = "drop_bit 18 w"
    have u: "unat ?w = unat w div 262144" by (simp add: unat_shift)
    with 4 have "unat ?w < 0x08" by simp
    with 4 u show ?thesis
      using first_byte(4) [of ?w]
      by (simp add: ConvertUTF32ToUTF8_def len utf8_def FIRST_BYTE_MARK_def to_char_continuation unat_shift
          utf8_store_numerals)
  next
    case 5
    then show ?thesis by (simp add: ConvertUTF32ToUTF8_def len utf8_def)
  qed
qed

section \<open>Character references\<close>

lemma of_char_digit: "d < 10 \<Longrightarrow> of_char (digit d) = (48 + d :: nat)"
  by (simp add: digit_def)

lemma dec_digit_digit: "d < 10 \<Longrightarrow> dec_digit (digit d) = Some (of_nat d)"
  by (simp add: dec_digit_def of_char_digit Let_def)

lemma digit_eq: "d < 10 \<Longrightarrow> digit d = c \<longleftrightarrow> of_char c = 48 + d"
  using of_char_digit [of d] by (metis of_char_eq_iff)

lemma show_base_digits: "c \<in> set (show_base 10 n) \<Longrightarrow> \<exists>d < 10. c = digit d"
proof (induction "10 :: nat" n rule: show_base.induct)
  case (1 n)
  have "\<exists>d < 10. digit (n mod 10) = digit d" by (rule exI [of _ "n mod 10"]) simp
  with 1 show ?case by (cases "n < 10") (auto simp: show_base.simps [of 10 n])
qed

text \<open>The loop from the last digit back to the hash adds up the number as long as nothing wraps.\<close>

lemma ref_scan_decimal:
  "unat mult * n < 2 ^ 32 \<Longrightarrow>
   ref_scan (CHR ''#'') 10 dec_digit (rev (show_base 10 n) @ [CHR ''#'']) mult ucs =
     Some (ucs + of_nat (unat mult * n))"
proof (induction "10 :: nat" n arbitrary: mult ucs rule: show_base.induct)
  case (1 n)
  have scaled: "ucast (mult * of_nat d :: u32) = (of_nat (unat mult * d) :: u64)" if "unat mult * d < 2 ^ 32" for d
  proof -
    have "unat (mult * of_nat d) = unat mult * d"
      using that by (simp add: unat_word_ariths unat_of_nat mod_mult_right_eq)
    then show ?thesis by (metis of_nat_unat)
  qed
  show ?case
  proof (cases "n < 10")
    case True
    then show ?thesis
      using 1(2) scaled [of n]
      by (simp add: show_base.simps [of 10 n] dec_digit_digit digit_eq)
  next
    case False
    have "unat mult * 10 \<le> unat mult * n" "unat mult * (n mod 10) \<le> unat mult * n"
      using False by (intro mult_le_mono2; simp)+
    then have small: "unat mult * 10 < 2 ^ 32" "unat mult * (n mod 10) < 2 ^ 32"
      using 1(2) by linarith+
    have u: "unat (mult * 10) = unat mult * 10" using small(1) by (simp add: unat_word_ariths)
    have split: "unat mult * 10 * (n div 10) + unat mult * (n mod 10) = unat mult * n"
      by (metis mult.assoc distrib_left mult_div_mod_eq)
    then have "unat (mult * 10) * (n div 10) < 2 ^ 32" using 1(2) u by simp
    then have IH: "ref_scan (CHR ''#'') 10 dec_digit (rev (show_base 10 (n div 10)) @ [CHR ''#'']) (mult * 10) v =
        Some (v + of_nat (unat mult * 10 * (n div 10)))" for v
      using 1(1) [of "mult * 10" v] False u by simp
    have "rev (show_base 10 n) @ [CHR ''#''] =
        digit (n mod 10) # rev (show_base 10 (n div 10)) @ [CHR ''#'']"
      using False by (simp add: show_base.simps [of 10 n])
    moreover have "of_nat (unat mult * (n mod 10)) + of_nat (unat mult * 10 * (n div 10)) =
        (of_nat (unat mult * n) :: u64)"
      using split by (simp only: of_nat_add [symmetric] add.commute)
    ultimately show ?thesis
      using scaled [OF small(2)] by (simp add: dec_digit_digit digit_eq IH add.assoc del: of_nat_mult)
  qed
qed

lemma show_base_not_Nil: "show_base 10 n \<noteq> []"
  by (simp add: show_base.simps [of 10 n])

text \<open>
  A decimal character reference stands for its character: \<open>&#n;\<close> is read as the UTF-8 bytes of \<open>n\<close>,
  for every code below 0x200000, and reading goes on behind the semicolon.
\<close>

theorem character_ref_decimal:
  assumes "n < 0x200000"
  shows "GetCharacterRef (''&#'' @ show_dec (int n) @ '';'' @ rest) = Some (rest, utf8 n)"
proof -
  let ?d = "show_base 10 n"
  have no: "c \<notin> set ?d" if "of_char c < (48 :: nat) \<or> 57 < (of_char c :: nat)" for c
    using that show_base_digits [of c n] of_char_digit by force
  have semi: "CHR '';'' \<notin> set ?d" by (rule no) simp
  have x: "\<not> starts_with ''x'' (?d @ t)" for t
    using no [of "CHR ''x''"] show_base_not_Nil [of n] by (cases ?d) (auto simp: starts_with_def)
  have take: "takeWhile (\<lambda>c. c \<noteq> CHR '';'') (?d @ CHR '';'' # rest) = ?d"
    using semi by (subst takeWhile_append2) auto
  have drop: "dropWhile (\<lambda>c. c \<noteq> CHR '';'') (?d @ CHR '';'' # rest) = CHR '';'' # rest"
    using semi by (subst dropWhile_append2) auto
  have "ref_scan (CHR ''#'') 10 dec_digit (rev ?d @ [CHR ''#'']) 1 0 = Some (of_nat n)"
    using ref_scan_decimal [of 1 n 0] assms by simp
  moreover have "unat (of_nat n :: u64) = n" using assms by (simp add: unat_of_nat)
  ultimately show ?thesis
    using x [of "CHR '';'' # rest"] take drop
    by (simp add: GetCharacterRef_def show_dec_def starts_with_def ConvertUTF32ToUTF8_is_utf8 Let_def)
qed

theorem character_ref_decimal_witness:
  "GetCharacterRef ''&#8364;abc'' = Some (''abc'', [CHR 0xE2, CHR 0x82, CHR 0xAC])"
proof -
  have "show_dec 8364 = ''8364''" by (simp add: show_dec_def show_base.simps digit_eq)
  moreover have "utf8 8364 = [CHR 0xE2, CHR 0x82, CHR 0xAC]" by (simp add: utf8_def char_of_def bit_0)
  ultimately show ?thesis using character_ref_decimal [of 8364 "''abc''"] by simp
qed

lemma ref_scan_digits:
  "\<forall>c \<in> set rs. c \<noteq> stop \<and> digit_of c \<noteq> None \<Longrightarrow>
   \<exists>v. \<forall>ts. ref_scan stop base digit_of (rs @ ts) mult ucs = ref_scan stop base digit_of ts (mult * base ^ length rs) v"
proof (induction rs arbitrary: mult ucs)
  case (Cons c rs)
  then obtain d where "digit_of c = Some d" by auto
  with Cons.prems Cons.IH [of "mult * base" "ucs + ucast (mult * d)"] show ?case
    by (auto simp: mult.assoc)
qed auto

lemma ref_scan_zero:
  "\<forall>c \<in> set rs. c \<noteq> stop \<and> digit_of c \<noteq> None \<Longrightarrow>
   ref_scan stop base digit_of (rs @ [stop]) 0 ucs = Some ucs"
  by (induction rs) auto

text \<open>
  A hexadecimal reference keeps only its last eight digits, because the multiplier wraps around to 0:
  \<open>&#x100000041;\<close> is read as the letter A.
\<close>

theorem character_ref_wraps:
  assumes "\<forall>c \<in> set (ds @ es). hex_digit c \<noteq> None" and "length es = 8"
  shows "GetCharacterRef (''&#x'' @ ds @ es @ '';'' @ rest) = GetCharacterRef (''&#x'' @ es @ '';'' @ rest)"
proof -
  have ok: "c \<noteq> CHR ''x'' \<and> c \<noteq> CHR '';'' \<and> hex_digit c \<noteq> None" if "c \<in> set (ds @ es)" for c
  proof -
    have "hex_digit c \<noteq> None" using that assms(1) by blast
    then show ?thesis by (auto simp: hex_digit_def Let_def split: if_splits)
  qed
  have scan: "GetCharacterRef (''&#x'' @ xs @ '';'' @ rest) =
      map_option (\<lambda>ucs. (rest, ConvertUTF32ToUTF8 ucs)) (ref_scan (CHR ''x'') 16 hex_digit (rev xs @ [CHR ''x'']) 1 0)"
    if "set xs \<subseteq> set (ds @ es)" for xs
  proof -
    have "\<forall>c \<in> set xs. c \<noteq> CHR '';''" using ok that by blast
    then have "takeWhile (\<lambda>c. c \<noteq> CHR '';'') (xs @ CHR '';'' # rest) = xs"
      "dropWhile (\<lambda>c. c \<noteq> CHR '';'') (xs @ CHR '';'' # rest) = CHR '';'' # rest"
      by (simp_all add: takeWhile_append2 dropWhile_append2)
    then show ?thesis by (simp add: GetCharacterRef_def starts_with_def Let_def)
  qed
  have "\<forall>c \<in> set (rev es). c \<noteq> CHR ''x'' \<and> hex_digit c \<noteq> None" using ok by auto
  then obtain v where v: "\<forall>ts. ref_scan (CHR ''x'') 16 hex_digit (rev es @ ts) 1 0 =
      ref_scan (CHR ''x'') 16 hex_digit ts (1 * 16 ^ length (rev es)) v"
    using ref_scan_digits [of "rev es" "CHR ''x''" hex_digit 16 1 0] by blast
  have wrap: "(4294967296 :: u32) = 0" by code_simp
  have "\<forall>c \<in> set (rev ds). c \<noteq> CHR ''x'' \<and> hex_digit c \<noteq> None" using ok by auto
  then have "ref_scan (CHR ''x'') 16 hex_digit (rev es @ rev ds @ [CHR ''x'']) 1 0 = Some v"
    using v assms(2) ref_scan_zero [of "rev ds" "CHR ''x''" hex_digit 16 v] wrap by simp
  moreover have "ref_scan (CHR ''x'') 16 hex_digit (rev es @ [CHR ''x'']) 1 0 = Some v"
    using v by simp
  ultimately show ?thesis using scan [of "ds @ es"] scan [of es] by simp
qed

theorem character_ref_wraps_witness: "GetCharacterRef ''&#x100000041;b'' = Some (''b'', ''A'')"
proof -
  have "GetCharacterRef ''&#x00000041;b'' = Some (''b'', ''A'')" by code_simp
  then show ?thesis
    using character_ref_wraps [of "''1''" "''00000041''" "''b''"] by (simp add: hex_digit_def)
qed

end
