(* ===== verification/Xml_Text.thy ===== *)
theory Xml_Text
  imports Xml_Chars
begin

text \<open>
  \<open>StrPair\<close> of \<^verbatim>\<open>server/tinyxml2.cpp\<close>: the strings of a parsed document point into the text of the
  file, and are translated in place when they are first asked for.
\<close>

definition LF :: char where "LF = CHR 0x0A"
definition CR :: char where "CR = CHR 0x0D"
definition NUL :: char where "NUL = CHR 0x00"

lemmas control_chars = LF_def CR_def NUL_def

section \<open>Flags and pairs\<close>

record str_flags =
  needs_entity :: bool
  needs_newline :: bool
  needs_collapse :: bool

definition TEXT_ELEMENT :: str_flags where
  "TEXT_ELEMENT = \<lparr>needs_entity = True, needs_newline = True, needs_collapse = False\<rparr>"

definition TEXT_ELEMENT_LEAVE_ENTITIES :: str_flags where
  "TEXT_ELEMENT_LEAVE_ENTITIES = \<lparr>needs_entity = False, needs_newline = True, needs_collapse = False\<rparr>"

definition ATTRIBUTE_NAME :: str_flags where
  "ATTRIBUTE_NAME = \<lparr>needs_entity = False, needs_newline = False, needs_collapse = False\<rparr>"

definition ATTRIBUTE_VALUE :: str_flags where
  "ATTRIBUTE_VALUE = TEXT_ELEMENT"

definition ATTRIBUTE_VALUE_LEAVE_ENTITIES :: str_flags where
  "ATTRIBUTE_VALUE_LEAVE_ENTITIES = TEXT_ELEMENT_LEAVE_ENTITIES"

definition COMMENT :: str_flags where
  "COMMENT = TEXT_ELEMENT_LEAVE_ENTITIES"

lemmas flag_defs = TEXT_ELEMENT_def TEXT_ELEMENT_LEAVE_ENTITIES_def ATTRIBUTE_NAME_def ATTRIBUTE_VALUE_def
  ATTRIBUTE_VALUE_LEAVE_ENTITIES_def COMMENT_def

text \<open>
  A pair that is set: the text from \<open>_start\<close> to \<open>_end\<close> and its flags.  The ranges of the pairs of a
  document and their end positions are disjoint, so each has its own copy here.
\<close>

record str_pair =
  sp_text :: string
  sp_flags :: str_flags

definition SetStr :: "string \<Rightarrow> str_pair" where
  "SetStr s = \<lparr>sp_text = s, sp_flags = ATTRIBUTE_NAME\<rparr>"

text \<open>
  \<open>ParseText\<close>: the text up to the end tag and what follows it, or \<open>None\<close>; the line is counted on either
  way.  \<open>acc\<close> is the text from the start to \<open>p\<close>.
\<close>

fun parse_text :: "string \<Rightarrow> string \<Rightarrow> string \<Rightarrow> nat \<Rightarrow> (string \<times> string) option \<times> nat" where
  "parse_text endTag acc [] line = (None, line)"
| "parse_text endTag acc (c # p) line =
     (if c = hd endTag \<and> starts_with endTag (c # p) then (Some (acc, drop (length endTag) (c # p)), line)
      else parse_text endTag (acc @ [c]) p (if c = LF then line + 1 else line))"

definition ParseText :: "string \<Rightarrow> string \<Rightarrow> str_flags \<Rightarrow> nat \<Rightarrow> (str_pair \<times> string) option \<times> nat" where
  "ParseText p endTag strFlags line =
     (case parse_text endTag [] p line of
        (None, line) \<Rightarrow> (None, line)
      | (Some (text, p), line) \<Rightarrow> (Some (\<lparr>sp_text = text, sp_flags = strFlags\<rparr>, p), line))"

definition ParseName :: "string \<Rightarrow> (str_pair \<times> string) option" where
  "ParseName p =
     (case p of
        [] \<Rightarrow> None
      | c # p' \<Rightarrow>
          if \<not> IsNameStartChar c then None
          else Some (\<lparr>sp_text = c # takeWhile IsNameChar p', sp_flags = ATTRIBUTE_NAME\<rparr>,
                     dropWhile IsNameChar p'))"

text \<open>The read position is never behind the write position, so what is written is not read again.\<close>

lemma SkipWhiteSpace_length: "length (fst (SkipWhiteSpace p line)) \<le> length p"
  by (induction p line rule: SkipWhiteSpace.induct) auto

function collapse_loop :: "string \<Rightarrow> string" where
  "collapse_loop [] = []"
| "collapse_loop (c # p) =
     (if IsWhiteSpace c then
        (case fst (SkipWhiteSpace (c # p) 0) of
           [] \<Rightarrow> []
         | d # p' \<Rightarrow> CHR '' '' # d # collapse_loop p')
      else c # collapse_loop p)"
  by pat_completeness auto
termination
proof (relation "measure length", simp, goal_cases)
  case (1 c p d p')
  then show ?case using SkipWhiteSpace_length [of "c # p" 0] by simp
qed simp

definition CollapseWhitespace :: "string \<Rightarrow> string" where
  "CollapseWhitespace s = collapse_loop (fst (SkipWhiteSpace s 0))"

section \<open>GetStr\<close>

text \<open>The entity that starts behind the ampersand: the first of the table whose name and semicolon follow.\<close>

definition find_entity :: "string \<Rightarrow> (string \<times> char) option" where
  "find_entity s = find (\<lambda>(pat, v). starts_with (pat @ '';'') s) entities"

lemma GetCharacterRef_consumes:
  assumes "GetCharacterRef (c # s) = Some (adj, bs)"
  shows "length adj + length bs \<le> Suc (length s) \<and> length adj \<le> length s \<and> (\<exists>pre. c # s = pre @ adj)"
proof -
  have four: "length (ConvertUTF32ToUTF8 w) \<le> 4" for w
    by (simp add: ConvertUTF32ToUTF8_is_utf8 utf8_def)
  have zero: "length (ConvertUTF32ToUTF8 0) = 1"
    by (simp add: ConvertUTF32ToUTF8_is_utf8 utf8_def)
  show ?thesis
  proof (cases "starts_with ''#'' s \<and> drop 1 s \<noteq> []")
    case False
    with assms show ?thesis by (auto simp: GetCharacterRef_def numeral_2_eq_2)
  next
    case True
    then obtain d s' where s: "s = CHR ''#'' # d # s'"
      by (cases s; cases "tl s") (auto simp: starts_with_def)
    let ?x = "d = CHR ''x''"
    define q where "q = (if d = CHR ''x'' then s' else d # s')"
    let ?t = "takeWhile (\<lambda>c. c \<noteq> CHR '';'') q" and ?r = "dropWhile (\<lambda>c. c \<noteq> CHR '';'') q"
    define sc where "sc = (if ?x then ref_scan (CHR ''x'') 16 hex_digit (rev (''x'' @ ?t)) 1 0
      else ref_scan (CHR ''#'') 10 dec_digit (rev (''#'' @ ?t)) 1 0)"
    have ref: "GetCharacterRef (c # s) =
        (if q = [] \<or> CHR '';'' \<notin> set q then None
         else map_option (\<lambda>ucs. (tl ?r, ConvertUTF32ToUTF8 ucs)) sc)"
      unfolding sc_def by (cases ?x) (simp_all add: GetCharacterRef_def starts_with_def Let_def s q_def)
    have q': "q \<noteq> []" "CHR '';'' \<in> set q"
      using assms unfolding ref by (meson option.distinct(1))+
    then have "map_option (\<lambda>ucs. (tl ?r, ConvertUTF32ToUTF8 ucs)) sc = Some (adj, bs)"
      using assms unfolding ref by (metis (no_types, lifting))
    then obtain ucs where scan: "sc = Some ucs"
        and bs: "bs = ConvertUTF32ToUTF8 ucs" and adj: "adj = tl ?r"
      by (cases sc) auto
    have "?r \<noteq> []" using q'(2) by (auto simp: dropWhile_eq_Nil_conv)
    then have r: "q = ?t @ hd ?r # adj" using adj by (metis list.collapse takeWhile_dropWhile_id)
    then have len: "length q = length ?t + Suc (length adj)" by (metis length_append length_Cons)
    have lenq: "length q = (if ?x then length s' else Suc (length s'))" by (simp add: q_def)
    have pre: "\<exists>pre. c # s = pre @ adj"
    proof -
      have "c # s = ((if ?x then [c, CHR ''#'', d] else [c, CHR ''#'']) @ ?t @ [hd ?r]) @ adj"
        using r by (simp add: s q_def split: if_splits)
      then show ?thesis by blast
    qed
    have "length adj + length bs \<le> Suc (length s)"
    proof (cases "?x \<or> ?t \<noteq> []")
      case True
      then have "if ?x then length s' = length ?t + Suc (length adj)
          else length s' = length ?t + length adj \<and> 1 \<le> length ?t"
        using len lenq by (cases ?t) auto
      moreover have "length s = length s' + 2" by (simp add: s)
      ultimately have "length adj + 4 \<le> Suc (length s)" by (cases ?x) (simp_all only: if_True if_False, linarith)
      with four [of ucs] show ?thesis by (simp add: bs)
    next
      case False
      then have "bs = ConvertUTF32ToUTF8 0" using scan bs by (auto simp: sc_def)
      with zero len lenq show ?thesis by (simp add: s split: if_splits)
    qed
    with pre len lenq show ?thesis by (simp add: s split: if_splits)
  qed
qed

text \<open>
  The loop of \<open>GetStr\<close> over the buffer: \<open>e\<close> is the index of the end, where the terminating zero has been
  stored, \<open>p\<close> the read and \<open>q\<close> the write index.  For an ampersand that starts no entity of the table
  both move on and nothing is written.
\<close>

function GetStr_loop :: "str_flags \<Rightarrow> nat \<Rightarrow> string \<Rightarrow> nat \<Rightarrow> nat \<Rightarrow> string \<times> nat" where
  "GetStr_loop fl e buf p q =
     (if e \<le> p \<or> length buf \<le> p then (buf, q)
      else if needs_newline fl \<and> buf ! p = CR then
        GetStr_loop fl e (buf[q := LF]) (if buf ! (p + 1) = LF then p + 2 else p + 1) (q + 1)
      else if needs_newline fl \<and> buf ! p = LF then
        GetStr_loop fl e (buf[q := LF]) (if buf ! (p + 1) = CR then p + 2 else p + 1) (q + 1)
      else if needs_entity fl \<and> buf ! p = CHR ''&'' then
        (if buf ! (p + 1) = CHR ''#'' then
           let s = cstr (drop p buf)
           in (case GetCharacterRef s of
                 None \<Rightarrow> GetStr_loop fl e (buf[q := buf ! p]) (p + 1) (q + 1)
               | Some (adjusted, value) \<Rightarrow>
                   GetStr_loop fl e (take q buf @ value @ drop (q + length value) buf)
                     (p + (length s - length adjusted)) (q + length value))
         else
           (case find_entity (cstr (drop (p + 1) buf)) of
              Some (pat, v) \<Rightarrow> GetStr_loop fl e (buf[q := v]) (p + length pat + 2) (q + 1)
            | None \<Rightarrow> GetStr_loop fl e buf (p + 1) (q + 1)))
      else GetStr_loop fl e (buf[q := buf ! p]) (p + 1) (q + 1))"
  by pat_completeness auto
termination
proof (relation "measure (\<lambda>(fl, e, buf, p, q). e - p)", goal_cases)
  case (5 fl e buf p q s a adjusted val)
  then have "drop p buf = CHR ''&'' # drop (Suc p) buf" by (simp add: Cons_nth_drop_Suc [symmetric])
  with 5 have "s \<noteq> []" by (simp add: cstr_def)
  then obtain c t where "s = c # t" by (cases s) auto
  with 5 GetCharacterRef_consumes [of c t adjusted val] have "length adjusted < length s" by auto
  with 5 show ?case by auto
qed auto

declare GetStr_loop.simps [simp del]

definition GetStr :: "str_pair \<Rightarrow> string" where
  "GetStr sp =
     (let fl = sp_flags sp; raw = sp_text sp
      in if \<not> (needs_entity fl \<or> needs_newline fl \<or> needs_collapse fl) then raw
         else
           let (buf, q) = GetStr_loop fl (length raw) (raw @ [NUL]) 0 0;
               s = cstr (buf[q := NUL])
           in if needs_collapse fl then CollapseWhitespace s else s)"

end
