(* ===== verification/Xml_Parse.thy ===== *)
theory Xml_Parse
  imports Xml_Text
begin

text \<open>
  The parser of \<^verbatim>\<open>server/tinyxml2.cpp\<close>: from the text of a file to the tree of its nodes.  A null
  pointer in place of the text that is left is \<open>None\<close>; the nodes a failed parse deletes are dropped.
  The memory pools and the list of unlinked nodes are not part of the model.
\<close>

section \<open>Errors\<close>

datatype xml_error =
    XML_SUCCESS
  | XML_NO_ATTRIBUTE
  | XML_WRONG_ATTRIBUTE_TYPE
  | XML_ERROR_FILE_NOT_FOUND
  | XML_ERROR_FILE_COULD_NOT_BE_OPENED
  | XML_ERROR_FILE_READ_ERROR
  | UNUSED_XML_ERROR_ELEMENT_MISMATCH
  | XML_ERROR_PARSING_ELEMENT
  | XML_ERROR_PARSING_ATTRIBUTE
  | UNUSED_XML_ERROR_IDENTIFYING_TAG
  | XML_ERROR_PARSING_TEXT
  | XML_ERROR_PARSING_CDATA
  | XML_ERROR_PARSING_COMMENT
  | XML_ERROR_PARSING_DECLARATION
  | XML_ERROR_PARSING_UNKNOWN
  | XML_ERROR_EMPTY_DOCUMENT
  | XML_ERROR_MISMATCHED_ELEMENT
  | XML_ERROR_PARSING
  | XML_CAN_NOT_CONVERT_TEXT
  | XML_NO_TEXT_NODE
  | XML_ELEMENT_DEPTH_EXCEEDED

text \<open>\<open>_errorNames\<close>, and the value of an error as an integer.\<close>

definition errorNames :: "(xml_error \<times> string) list" where
  "errorNames =
     [(XML_SUCCESS, ''XML_SUCCESS''),
      (XML_NO_ATTRIBUTE, ''XML_NO_ATTRIBUTE''),
      (XML_WRONG_ATTRIBUTE_TYPE, ''XML_WRONG_ATTRIBUTE_TYPE''),
      (XML_ERROR_FILE_NOT_FOUND, ''XML_ERROR_FILE_NOT_FOUND''),
      (XML_ERROR_FILE_COULD_NOT_BE_OPENED, ''XML_ERROR_FILE_COULD_NOT_BE_OPENED''),
      (XML_ERROR_FILE_READ_ERROR, ''XML_ERROR_FILE_READ_ERROR''),
      (UNUSED_XML_ERROR_ELEMENT_MISMATCH, ''UNUSED_XML_ERROR_ELEMENT_MISMATCH''),
      (XML_ERROR_PARSING_ELEMENT, ''XML_ERROR_PARSING_ELEMENT''),
      (XML_ERROR_PARSING_ATTRIBUTE, ''XML_ERROR_PARSING_ATTRIBUTE''),
      (UNUSED_XML_ERROR_IDENTIFYING_TAG, ''UNUSED_XML_ERROR_IDENTIFYING_TAG''),
      (XML_ERROR_PARSING_TEXT, ''XML_ERROR_PARSING_TEXT''),
      (XML_ERROR_PARSING_CDATA, ''XML_ERROR_PARSING_CDATA''),
      (XML_ERROR_PARSING_COMMENT, ''XML_ERROR_PARSING_COMMENT''),
      (XML_ERROR_PARSING_DECLARATION, ''XML_ERROR_PARSING_DECLARATION''),
      (XML_ERROR_PARSING_UNKNOWN, ''XML_ERROR_PARSING_UNKNOWN''),
      (XML_ERROR_EMPTY_DOCUMENT, ''XML_ERROR_EMPTY_DOCUMENT''),
      (XML_ERROR_MISMATCHED_ELEMENT, ''XML_ERROR_MISMATCHED_ELEMENT''),
      (XML_ERROR_PARSING, ''XML_ERROR_PARSING''),
      (XML_CAN_NOT_CONVERT_TEXT, ''XML_CAN_NOT_CONVERT_TEXT''),
      (XML_NO_TEXT_NODE, ''XML_NO_TEXT_NODE''),
      (XML_ELEMENT_DEPTH_EXCEEDED, ''XML_ELEMENT_DEPTH_EXCEEDED'')]"

definition ErrorIDToName :: "xml_error \<Rightarrow> string" where
  "ErrorIDToName e = the (map_of errorNames e)"

definition error_number :: "xml_error \<Rightarrow> nat" where
  "error_number e = length (takeWhile (\<lambda>(f, n). f \<noteq> e) errorNames)"

section \<open>The document\<close>

record xml_doc =
  processEntities :: bool
  collapseWhitespace :: bool
  writeBOM :: bool
  errorID :: xml_error
  errorLineNum :: nat
  errorStr :: string
  parseCurLineNum :: nat
  parsingDepth :: nat

definition XMLDocument :: "bool \<Rightarrow> bool \<Rightarrow> xml_doc" where
  "XMLDocument entity collapse =
     \<lparr>processEntities = entity, collapseWhitespace = collapse, writeBOM = False, errorID = XML_SUCCESS,
      errorLineNum = 0, errorStr = [], parseCurLineNum = 0, parsingDepth = 0\<rparr>"

definition Error :: "xml_doc \<Rightarrow> bool" where
  "Error d \<longleftrightarrow> errorID d \<noteq> XML_SUCCESS"

text \<open>The message is formatted into a buffer of 1000 characters.\<close>

definition SetError :: "xml_error \<Rightarrow> nat \<Rightarrow> string option \<Rightarrow> xml_doc \<Rightarrow> xml_doc" where
  "SetError err line detail d =
     d\<lparr>errorID := err, errorLineNum := line,
       errorStr := take 999
         (''Error='' @ ErrorIDToName err @ '' ErrorID='' @ show_dec (int (error_number err)) @ '' (0x'' @
          show_base 16 (error_number err) @ '') Line number='' @ show_dec (int line) @
          (case detail of None \<Rightarrow> [] | Some t \<Rightarrow> '': '' @ t))\<rparr>"

definition ClearError :: "xml_doc \<Rightarrow> xml_doc" where
  "ClearError d = SetError XML_SUCCESS 0 None d"

definition TINYXML2_MAX_ELEMENT_DEPTH :: nat where "TINYXML2_MAX_ELEMENT_DEPTH = 100"

definition PushDepth :: "xml_doc \<Rightarrow> xml_doc" where
  "PushDepth d =
     (let d = d\<lparr>parsingDepth := parsingDepth d + 1\<rparr>
      in if parsingDepth d = TINYXML2_MAX_ELEMENT_DEPTH
         then SetError XML_ELEMENT_DEPTH_EXCEEDED (parseCurLineNum d) (Some ''Element nesting is too deep.'') d
         else d)"

definition PopDepth :: "xml_doc \<Rightarrow> xml_doc" where
  "PopDepth d = d\<lparr>parsingDepth := parsingDepth d - 1\<rparr>"

section \<open>Nodes\<close>

datatype closing_type = OPEN | CLOSED | CLOSING

datatype xml_node =
    XMLElement (elem_name: str_pair) (elem_closing: closing_type) (elem_attrs: "(str_pair \<times> str_pair) list")
      (elem_children: "xml_node list")
  | XMLText str_pair bool
  | XMLComment str_pair
  | XMLDeclaration str_pair
  | XMLUnknown str_pair

datatype node_kind = Element_kind | Text_kind bool | Comment_kind | Declaration_kind | Unknown_kind

text \<open>
  \<open>Identify\<close>: what is left, the kind of the node that starts there, its line, and the current line.  The
  text of a text node starts before the white space that was skipped.
\<close>

definition Identify :: "string \<Rightarrow> nat \<Rightarrow> string \<times> (node_kind \<times> nat) option \<times> nat" where
  "Identify start startLine =
     (let (p, line) = SkipWhiteSpace start startLine
      in if p = [] then (p, None, line)
         else if starts_with ''<?'' p then (drop 2 p, Some (Declaration_kind, line), line)
         else if starts_with ''<!--'' p then (drop 4 p, Some (Comment_kind, line), line)
         else if starts_with ''<![CDATA['' p then (drop 9 p, Some (Text_kind True, line), line)
         else if starts_with ''<!'' p then (drop 2 p, Some (Unknown_kind, line), line)
         else if starts_with ''<'' p then (drop 1 p, Some (Element_kind, line), line)
         else (start, Some (Text_kind False, line), startLine))"

section \<open>Leaves\<close>

definition fail :: "xml_error \<Rightarrow> nat \<Rightarrow> 'a option \<Rightarrow> xml_doc \<Rightarrow> 'a option \<times> xml_doc" where
  "fail err line r d = (r, if r = None then SetError err line None d else d)"

definition parse_into ::
  "(str_pair \<Rightarrow> xml_node) \<Rightarrow> string \<Rightarrow> string \<Rightarrow> str_flags \<Rightarrow> xml_doc \<Rightarrow> (xml_node \<times> string) option \<times> xml_doc"
where
  "parse_into mk p endTag fl d =
     (let (r, line) = ParseText p endTag fl (parseCurLineNum d)
      in (map_option (\<lambda>(v, p). (mk v, p)) r, d\<lparr>parseCurLineNum := line\<rparr>))"

text \<open>
  \<open>XMLText::ParseDeep\<close>: the angle bracket that ends the text is read again, unless it is the last
  character of the document; then the result is null without an error.
\<close>

definition XMLText_ParseDeep :: "bool \<Rightarrow> nat \<Rightarrow> string \<Rightarrow> xml_doc \<Rightarrow> (xml_node \<times> string) option \<times> xml_doc" where
  "XMLText_ParseDeep cdata nodeLine p d =
     (if cdata then
        (let (r, d) = parse_into (\<lambda>v. XMLText v True) p '']]>'' TEXT_ELEMENT_LEAVE_ENTITIES d
         in fail XML_ERROR_PARSING_CDATA nodeLine r d)
      else
        let flags = (if processEntities d then TEXT_ELEMENT else TEXT_ELEMENT_LEAVE_ENTITIES);
            flags = (if collapseWhitespace d then flags\<lparr>needs_collapse := True\<rparr> else flags);
            (r, d) = parse_into (\<lambda>v. XMLText v False) p ''<'' flags d
        in (case r of
              None \<Rightarrow> (None, SetError XML_ERROR_PARSING_TEXT nodeLine None d)
            | Some (node, p) \<Rightarrow> (if p \<noteq> [] then Some (node, CHR ''<'' # p) else None, d)))"

definition XMLComment_ParseDeep :: "nat \<Rightarrow> string \<Rightarrow> xml_doc \<Rightarrow> (xml_node \<times> string) option \<times> xml_doc" where
  "XMLComment_ParseDeep nodeLine p d =
     (let (r, d) = parse_into XMLComment p ''-->'' COMMENT d in fail XML_ERROR_PARSING_COMMENT nodeLine r d)"

definition XMLDeclaration_ParseDeep :: "nat \<Rightarrow> string \<Rightarrow> xml_doc \<Rightarrow> (xml_node \<times> string) option \<times> xml_doc" where
  "XMLDeclaration_ParseDeep nodeLine p d =
     (let (r, d) = parse_into XMLDeclaration p ''?>'' TEXT_ELEMENT_LEAVE_ENTITIES d
      in fail XML_ERROR_PARSING_DECLARATION nodeLine r d)"

definition XMLUnknown_ParseDeep :: "nat \<Rightarrow> string \<Rightarrow> xml_doc \<Rightarrow> (xml_node \<times> string) option \<times> xml_doc" where
  "XMLUnknown_ParseDeep nodeLine p d =
     (let (r, d) = parse_into XMLUnknown p ''>'' TEXT_ELEMENT_LEAVE_ENTITIES d
      in fail XML_ERROR_PARSING_UNKNOWN nodeLine r d)"

section \<open>Attributes\<close>

definition XMLAttribute_ParseDeep ::
  "string \<Rightarrow> bool \<Rightarrow> nat \<Rightarrow> ((str_pair \<times> str_pair) \<times> string) option \<times> nat"
where
  "XMLAttribute_ParseDeep p entity line =
     (case ParseName p of
        None \<Rightarrow> (None, line)
      | Some (name, p) \<Rightarrow>
          if p = [] then (None, line)
          else
            let (p, line) = SkipWhiteSpace p line
            in if \<not> starts_with ''='' p then (None, line)
               else
                 let (p, line) = SkipWhiteSpace (tl p) line
                 in if \<not> starts_with [CHR 0x22] p \<and> \<not> starts_with [CHR 0x27] p then (None, line)
                    else
                      let (r, line) = ParseText (tl p) [hd p]
                            (if entity then ATTRIBUTE_VALUE else ATTRIBUTE_VALUE_LEAVE_ENTITIES) line
                      in (map_option (\<lambda>(v, p). ((name, v), p)) r, line))"

definition FindAttribute :: "string \<Rightarrow> (str_pair \<times> str_pair) list \<Rightarrow> (str_pair \<times> str_pair) option" where
  "FindAttribute name attrs = find (\<lambda>(n, v). GetStr n = name) attrs"

lemma SkipWhiteSpace_le: "SkipWhiteSpace p line = (p', line') \<Longrightarrow> length p' \<le> length p"
  using SkipWhiteSpace_length [of p line] by simp

lemma ParseName_shorter: "ParseName p = Some (v, p') \<Longrightarrow> length p' < length p"
  using length_dropWhile_le [of IsNameChar "tl p"]
  by (cases p) (auto simp: ParseName_def split: if_splits intro: le_imp_less_Suc)

lemma parse_text_shorter:
  "endTag \<noteq> [] \<Longrightarrow> parse_text endTag acc p line = (Some (v, p'), line') \<Longrightarrow> length p' < length p"
proof (induction endTag acc p line rule: parse_text.induct)
  case (2 endTag acc c p line)
  have "length (drop (length endTag) (c # p)) < length (c # p)" using "2.prems"(1) by (cases endTag) auto
  with 2 show ?case by (auto split: if_splits)
qed simp

lemma ParseText_shorter:
  "endTag \<noteq> [] \<Longrightarrow> ParseText p endTag fl line = (Some (v, p'), line') \<Longrightarrow> length p' < length p"
  by (auto simp: ParseText_def split: prod.splits option.splits dest: parse_text_shorter)

lemma XMLAttribute_ParseDeep_shorter:
  assumes "XMLAttribute_ParseDeep p entity line = (Some (a, p'), line')"
  shows "length p' < length p"
proof -
  obtain name p1 where 1: "ParseName p = Some (name, p1)"
    using assms by (cases "ParseName p") (auto simp: XMLAttribute_ParseDeep_def)
  obtain p2 l2 where 2: "SkipWhiteSpace p1 line = (p2, l2)" by (meson surj_pair)
  obtain p3 l3 where 3: "SkipWhiteSpace (tl p2) l2 = (p3, l3)" by (meson surj_pair)
  obtain r l4 where 4: "ParseText (tl p3) [hd p3]
      (if entity then ATTRIBUTE_VALUE else ATTRIBUTE_VALUE_LEAVE_ENTITIES) l3 = (r, l4)" by (meson surj_pair)
  obtain v where r: "r = Some (v, p')"
    using assms 1 2 3 4 by (auto simp: XMLAttribute_ParseDeep_def split: if_splits)
  have "length p' < length (tl p3)" using ParseText_shorter [OF _ 4 [unfolded r]] by simp
  moreover have "length p3 \<le> length (tl p2)" "length p2 \<le> length p1"
    using SkipWhiteSpace_length [of "tl p2" l2] SkipWhiteSpace_length [of p1 line] 2 3 by simp_all
  ultimately show ?thesis using ParseName_shorter [OF 1] by simp
qed

text \<open>
  \<open>ParseAttributes\<close>: the text behind the tag, or \<open>None\<close>, with the closing type, the attributes so far, the
  line, and the error to be set.  \<open>attrs\<close> is the list of the attributes linked so far.
\<close>

record attrs_result =
  ar_rest :: "string option"
  ar_closing :: closing_type
  ar_attrs :: "(str_pair \<times> str_pair) list"
  ar_line :: nat
  ar_error :: "(xml_error \<times> nat \<times> string option) option"

function ParseAttributes ::
  "bool \<Rightarrow> string \<Rightarrow> nat \<Rightarrow> closing_type \<Rightarrow> (str_pair \<times> str_pair) list \<Rightarrow> string \<Rightarrow> nat \<Rightarrow> attrs_result"
where
  "ParseAttributes entity name nodeLine closing attrs p line =
     (let (p, line) = SkipWhiteSpace p line
      in if p = [] then
           \<lparr>ar_rest = None, ar_closing = closing, ar_attrs = attrs, ar_line = line,
            ar_error = Some (XML_ERROR_PARSING_ELEMENT, nodeLine, Some (''XMLElement name='' @ name))\<rparr>
         else if IsNameStartChar (hd p) then
           (case XMLAttribute_ParseDeep p entity line of
              (None, line') \<Rightarrow>
                \<lparr>ar_rest = None, ar_closing = closing, ar_attrs = attrs, ar_line = line',
                 ar_error = Some (XML_ERROR_PARSING_ATTRIBUTE, line, Some (''XMLElement name='' @ name))\<rparr>
            | (Some (attrib, p'), line') \<Rightarrow>
                if FindAttribute (GetStr (fst attrib)) attrs \<noteq> None then
                  \<lparr>ar_rest = None, ar_closing = closing, ar_attrs = attrs, ar_line = line',
                   ar_error = Some (XML_ERROR_PARSING_ATTRIBUTE, line, Some (''XMLElement name='' @ name))\<rparr>
                else ParseAttributes entity name nodeLine closing (attrs @ [attrib]) p' line')
         else if starts_with ''>'' p then
           \<lparr>ar_rest = Some (tl p), ar_closing = closing, ar_attrs = attrs, ar_line = line, ar_error = None\<rparr>
         else if starts_with ''/>'' p then
           \<lparr>ar_rest = Some (drop 2 p), ar_closing = CLOSED, ar_attrs = attrs, ar_line = line, ar_error = None\<rparr>
         else
           \<lparr>ar_rest = None, ar_closing = closing, ar_attrs = attrs, ar_line = line,
            ar_error = Some (XML_ERROR_PARSING_ELEMENT, nodeLine, None)\<rparr>)"
  by pat_completeness auto
termination
  by (relation "measure (\<lambda>(entity, name, nodeLine, closing, attrs, p, line). length p)")
    (auto dest!: XMLAttribute_ParseDeep_shorter [OF sym] SkipWhiteSpace_le [OF sym])

declare ParseAttributes.simps [simp del]

section \<open>Elements\<close>

text \<open>
  \<open>XMLElement::ParseDeep\<close> up to its children: the name, what \<open>ParseAttributes\<close> says, and the document.
\<close>

definition open_element ::
  "nat \<Rightarrow> string \<Rightarrow> xml_doc \<Rightarrow> (str_pair \<times> closing_type \<times> (str_pair \<times> str_pair) list \<times> string) option \<times> xml_doc"
where
  "open_element nodeLine p d =
     (let (p, line) = SkipWhiteSpace p (parseCurLineNum d);
          d = d\<lparr>parseCurLineNum := line\<rparr>;
          (closing, p) = (if starts_with ''/'' p then (CLOSING, tl p) else (OPEN, p))
      in case ParseName p of
           None \<Rightarrow> (None, d)
         | Some (name, p) \<Rightarrow>
             let r = ParseAttributes (processEntities d) (GetStr name) nodeLine closing [] p line;
                 d = d\<lparr>parseCurLineNum := ar_line r\<rparr>;
                 d = (case ar_error r of None \<Rightarrow> d | Some (err, l, t) \<Rightarrow> SetError err l t d)
             in (map_option (\<lambda>p. (name, ar_closing r, ar_attrs r, p)) (ar_rest r), d))"

definition parse_leaf :: "node_kind \<Rightarrow> nat \<Rightarrow> string \<Rightarrow> xml_doc \<Rightarrow> (xml_node \<times> string) option \<times> xml_doc" where
  "parse_leaf k nodeLine p d =
     (case k of
        Text_kind cdata \<Rightarrow> XMLText_ParseDeep cdata nodeLine p d
      | Comment_kind \<Rightarrow> XMLComment_ParseDeep nodeLine p d
      | Declaration_kind \<Rightarrow> XMLDeclaration_ParseDeep nodeLine p d
      | Unknown_kind \<Rightarrow> XMLUnknown_ParseDeep nodeLine p d
      | Element_kind \<Rightarrow> (None, d))"

text \<open>What the loop of \<open>XMLNode::ParseDeep\<close> does with a node that was read.\<close>

datatype placing = Break_with xml_doc | Return_tag str_pair | Insert_node

definition is_declaration :: "xml_node \<Rightarrow> bool" where
  "is_declaration n = (case n of XMLDeclaration _ \<Rightarrow> True | _ \<Rightarrow> False)"

definition node_value :: "xml_node \<Rightarrow> string" where
  "node_value n = (case n of
     XMLElement v _ _ _ \<Rightarrow> GetStr v | XMLText v _ \<Rightarrow> GetStr v | XMLComment v \<Rightarrow> GetStr v
   | XMLDeclaration v \<Rightarrow> GetStr v | XMLUnknown v \<Rightarrow> GetStr v)"

definition place_node ::
  "bool \<Rightarrow> xml_node list \<Rightarrow> nat \<Rightarrow> str_pair option \<Rightarrow> xml_node \<Rightarrow> xml_doc \<Rightarrow> placing"
where
  "place_node is_doc siblings initialLineNum endTag node d =
     (if is_declaration node \<and> \<not> (is_doc \<and> list_all is_declaration siblings) then
        Break_with (SetError XML_ERROR_PARSING_DECLARATION initialLineNum
          (Some (''XMLDeclaration value='' @ node_value node)) d)
      else
        (case node of
           XMLElement name closing attrs children \<Rightarrow>
             if closing = CLOSING then Return_tag name
             else
               let mismatch =
                 (case endTag of
                    None \<Rightarrow> closing = OPEN
                  | Some tag \<Rightarrow> closing \<noteq> OPEN \<or> GetStr tag \<noteq> GetStr name)
               in if mismatch then
                    Break_with (SetError XML_ERROR_MISMATCHED_ELEMENT initialLineNum
                      (Some (''XMLElement name='' @ GetStr name)) d)
                  else Insert_node
         | _ \<Rightarrow> Insert_node))"

text \<open>
  What a loop over the children of a node returns: the text behind the closing tag of the node
  (\<open>None\<close> for the null pointer), that tag, the children, and the document; and what reading one node
  returns: the node and the text behind it, the closing tag that was found for it, and the document.
  The outer \<open>None\<close> is the fuel running out.
\<close>

type_synonym loop_result = "(string option \<times> str_pair option \<times> xml_node list \<times> xml_doc) option"
type_synonym node_result = "((xml_node \<times> string) option \<times> str_pair option \<times> xml_doc) option"

text \<open>\<open>XMLNode::ParseDeep\<close> around its loop: the tracker of the depth, and the test for an error.\<close>

definition XMLNode_ParseDeep :: "(string \<Rightarrow> xml_doc \<Rightarrow> loop_result) \<Rightarrow> string \<Rightarrow> xml_doc \<Rightarrow> loop_result" where
  "XMLNode_ParseDeep loop p d =
     (let d1 = PushDepth d
      in if Error d1 then Some (None, None, [], PopDepth d1)
         else map_option (\<lambda>(rest, endTag, children, d2). (rest, endTag, children, PopDepth d2)) (loop p d1))"

definition XMLElement_ParseDeep ::
  "(string \<Rightarrow> xml_doc \<Rightarrow> loop_result) \<Rightarrow> nat \<Rightarrow> string \<Rightarrow> xml_doc \<Rightarrow> node_result"
where
  "XMLElement_ParseDeep loop nodeLine p d =
     (case open_element nodeLine p d of
        (None, d1) \<Rightarrow> Some (None, None, d1)
      | (Some (name, closing, attrs, p), d1) \<Rightarrow>
          if p = [] \<or> closing \<noteq> OPEN then Some (Some (XMLElement name closing attrs [], p), None, d1)
          else
            map_option
              (\<lambda>(rest, endTag, children, d2).
                 (map_option (Pair (XMLElement name closing attrs children)) rest, endTag, d2))
              (XMLNode_ParseDeep loop p d1))"

definition node_ParseDeep ::
  "(string \<Rightarrow> xml_doc \<Rightarrow> loop_result) \<Rightarrow> node_kind \<Rightarrow> nat \<Rightarrow> string \<Rightarrow> xml_doc \<Rightarrow> node_result"
where
  "node_ParseDeep loop k nodeLine p d =
     (if k = Element_kind then XMLElement_ParseDeep loop nodeLine p d
      else (case parse_leaf k nodeLine p d of (r, d1) \<Rightarrow> Some (r, None, d1)))"

primrec ParseDeep_loop :: "nat \<Rightarrow> bool \<Rightarrow> xml_node list \<Rightarrow> string \<Rightarrow> xml_doc \<Rightarrow> loop_result" where
  "ParseDeep_loop 0 is_doc siblings p d = None"
| "ParseDeep_loop (Suc fuel) is_doc siblings p d =
     (if p = [] then Some (None, None, siblings, d)
      else
        (case Identify p (parseCurLineNum d) of
           (p1, None, line) \<Rightarrow> Some (None, None, siblings, d\<lparr>parseCurLineNum := line\<rparr>)
         | (p1, Some (k, initialLineNum), line) \<Rightarrow>
             Option.bind
               (node_ParseDeep (ParseDeep_loop fuel False []) k initialLineNum p1 (d\<lparr>parseCurLineNum := line\<rparr>))
               (\<lambda>(r, endTag, d1).
                  case r of
                    None \<Rightarrow>
                      Some (None, None, siblings,
                            if \<not> Error d1 then SetError XML_ERROR_PARSING initialLineNum None d1 else d1)
                  | Some (node, p2) \<Rightarrow>
                      (case place_node is_doc siblings initialLineNum endTag node d1 of
                         Break_with d2 \<Rightarrow> Some (None, None, siblings, d2)
                       | Return_tag tag \<Rightarrow> Some (Some p2, Some tag, siblings, d1)
                       | Insert_node \<Rightarrow> ParseDeep_loop fuel is_doc (siblings @ [node]) p2 d1))))"

declare ParseDeep_loop.simps(2) [simp del]

text \<open>
  \<open>XMLDocument::Parse()\<close> on the text of the buffer up to its first zero.  One unit of fuel more than the
  text has characters is enough (theory \<open>Xml_Tree\<close>).
\<close>

definition document_ParseDeep :: "string \<Rightarrow> xml_doc \<Rightarrow> (xml_node list \<times> xml_doc) option" where
  "document_ParseDeep p d =
     map_option (\<lambda>(rest, endTag, children, d2). (children, d2))
       (XMLNode_ParseDeep (ParseDeep_loop (Suc (length p)) True []) p d)"

definition Parse_buffer :: "string \<Rightarrow> xml_doc \<Rightarrow> (xml_node list \<times> xml_doc) option" where
  "Parse_buffer text d =
     (let (p, line) = SkipWhiteSpace text 1;
          (p, bom) = ReadBOM p;
          d = d\<lparr>parseCurLineNum := line, writeBOM := bom\<rparr>
      in if p = [] then Some ([], SetError XML_ERROR_EMPTY_DOCUMENT 0 None d)
         else document_ParseDeep p d)"

text \<open>\<open>Clear\<close> on the parts of the document in the model.\<close>

definition Clear_doc :: "xml_doc \<Rightarrow> xml_doc" where
  "Clear_doc d = (ClearError d)\<lparr>parsingDepth := 0\<rparr>"

text \<open>
  \<open>Parse(const char*, size_t)\<close> without a length, and \<open>LoadFile\<close> on what can be read of the file: a failed
  parse of a string deletes the nodes, one of a file keeps those it has inserted.
\<close>

definition Parse :: "string \<Rightarrow> xml_doc \<Rightarrow> (xml_node list \<times> xml_doc) option" where
  "Parse text d =
     (let d = Clear_doc d
      in if cstr text = [] then Some ([], SetError XML_ERROR_EMPTY_DOCUMENT 0 None d)
         else map_option (\<lambda>(ns, d). (if Error d then [] else ns, d)) (Parse_buffer (cstr text) d))"

text \<open>
  What opening and reading the file gives.  \<open>Unreadable\<close> stands for the failure of the first read, of
  \<open>ftell\<close>, or a read that comes up short: all leave the same error.
\<close>

datatype file_contents = No_file | Unreadable | Contents string

definition LoadFile_fp :: "file_contents \<Rightarrow> xml_doc \<Rightarrow> (xml_node list \<times> xml_doc) option" where
  "LoadFile_fp file_data d =
     (let d = Clear_doc d
      in case file_data of
           Contents text \<Rightarrow>
             if text = [] then Some ([], SetError XML_ERROR_EMPTY_DOCUMENT 0 None d)
             else Parse_buffer (cstr text) d
         | _ \<Rightarrow> Some ([], SetError XML_ERROR_FILE_READ_ERROR 0 None d))"

definition LoadFile :: "string \<Rightarrow> file_contents \<Rightarrow> xml_doc \<Rightarrow> (xml_node list \<times> xml_doc) option" where
  "LoadFile filename file_data d =
     (let d = Clear_doc d
      in if file_data = No_file
         then Some ([], SetError XML_ERROR_FILE_NOT_FOUND 0 (Some (''filename='' @ filename)) d)
         else LoadFile_fp file_data d)"

section \<open>Looking around in the tree\<close>

definition ToElementWithName :: "string option \<Rightarrow> xml_node \<Rightarrow> bool" where
  "ToElementWithName name node =
     (case node of
        XMLElement v _ _ _ \<Rightarrow> (case name of None \<Rightarrow> True | Some n \<Rightarrow> GetStr v = n)
      | _ \<Rightarrow> False)"

definition FirstChildElement :: "string option \<Rightarrow> xml_node list \<Rightarrow> xml_node option" where
  "FirstChildElement name children = find (ToElementWithName name) children"

definition LastChildElement :: "string option \<Rightarrow> xml_node list \<Rightarrow> xml_node option" where
  "LastChildElement name children = find (ToElementWithName name) (rev children)"

definition GetText :: "xml_node list \<Rightarrow> string option" where
  "GetText children =
     (case children of
        XMLText v _ # _ \<Rightarrow> Some (GetStr v)
      | _ \<Rightarrow> None)"

definition Attribute :: "string \<Rightarrow> string option \<Rightarrow> (str_pair \<times> str_pair) list \<Rightarrow> string option" where
  "Attribute name val attrs =
     (case FindAttribute name attrs of
        None \<Rightarrow> None
      | Some (n, v) \<Rightarrow>
          (case val of
             None \<Rightarrow> Some (GetStr v)
           | Some w \<Rightarrow> if GetStr v = w then Some (GetStr v) else None))"

end
