(* ===== verification/Xml_Tree.thy ===== *)
theory Xml_Tree
  imports Xml_Parse
begin

text \<open>
  The parser always comes to an end, and what it builds is a tree of the right shape, whatever the file
  contains.
\<close>

section \<open>Well-formed nodes\<close>

definition valid_name :: "str_pair \<Rightarrow> bool" where
  "valid_name v \<longleftrightarrow>
     sp_flags v = ATTRIBUTE_NAME \<and>
     (case sp_text v of [] \<Rightarrow> False | c # s \<Rightarrow> IsNameStartChar c \<and> list_all IsNameChar s)"

definition attrs_ok :: "(str_pair \<times> str_pair) list \<Rightarrow> bool" where
  "attrs_ok attrs \<longleftrightarrow> list_all (valid_name \<circ> fst) attrs \<and> distinct (map (sp_text \<circ> fst) attrs)"

text \<open>
  A node of a tree whose elements with content are nested at most \<open>k\<close> deep: names as the grammar has
  them, no attribute twice, no closing tag left over, content only between two tags, and no
  declaration inside an element.
\<close>

fun node_ok :: "nat \<Rightarrow> xml_node \<Rightarrow> bool" where
  "node_ok k (XMLElement name closing attrs children) \<longleftrightarrow>
     valid_name name \<and> attrs_ok attrs \<and>
     (case closing of
        OPEN \<Rightarrow> 0 < k \<and> list_all (\<lambda>n. node_ok (k - 1) n \<and> \<not> is_declaration n) children
      | CLOSED \<Rightarrow> children = []
      | CLOSING \<Rightarrow> False)"
| "node_ok k n \<longleftrightarrow> True"

fun declarations_first :: "xml_node list \<Rightarrow> bool" where
  "declarations_first [] = True"
| "declarations_first (n # ns) \<longleftrightarrow>
     (if is_declaration n then declarations_first ns else list_all (\<lambda>m. \<not> is_declaration m) ns)"

definition siblings_ok :: "bool \<Rightarrow> xml_node list \<Rightarrow> bool" where
  "siblings_ok is_doc ns \<longleftrightarrow> (if is_doc then declarations_first ns else list_all (\<lambda>m. \<not> is_declaration m) ns)"

lemma declarations_first_snoc:
  "declarations_first (ns @ [n]) \<longleftrightarrow>
     declarations_first ns \<and> (is_declaration n \<longrightarrow> list_all is_declaration ns)"
  by (induction ns) auto

lemma GetStr_name [simp]: "sp_flags v = ATTRIBUTE_NAME \<Longrightarrow> GetStr v = sp_text v"
  by (simp add: GetStr_def ATTRIBUTE_NAME_def)

section \<open>The document beside the errors\<close>

definition same_settings :: "xml_doc \<Rightarrow> xml_doc \<Rightarrow> bool" where
  "same_settings d d' \<longleftrightarrow>
     parsingDepth d' = parsingDepth d \<and> processEntities d' = processEntities d \<and>
     collapseWhitespace d' = collapseWhitespace d"

lemma same_settings_refl [simp]: "same_settings d d"
  by (simp add: same_settings_def)

lemma same_settings_trans: "same_settings a b \<Longrightarrow> same_settings b c \<Longrightarrow> same_settings a c"
  by (simp add: same_settings_def)

lemma same_settings_updates [simp]:
  "same_settings d (SetError e l t d') \<longleftrightarrow> same_settings d d'"
  "same_settings d (d'\<lparr>parseCurLineNum := l\<rparr>) \<longleftrightarrow> same_settings d d'"
  "same_settings (d\<lparr>parseCurLineNum := l\<rparr>) d' \<longleftrightarrow> same_settings d d'"
  by (simp_all add: same_settings_def SetError_def)

lemma parsingDepth_updates [simp]:
  "parsingDepth (SetError e l t d) = parsingDepth d"
  "parsingDepth (PushDepth d) = parsingDepth d + 1"
  "parsingDepth (PopDepth d) = parsingDepth d - 1"
  by (simp_all add: SetError_def PushDepth_def PopDepth_def Let_def)

lemma same_settings_depth:
  "same_settings c d \<Longrightarrow> same_settings (PushDepth d) d' \<Longrightarrow> same_settings c (PopDepth d')"
  by (auto simp: same_settings_def PushDepth_def PopDepth_def SetError_def Let_def split: if_splits)

section \<open>The pieces\<close>

lemma parse_text_split:
  "endTag \<noteq> [] \<Longrightarrow> parse_text endTag acc p line = (Some (v, p'), line') \<Longrightarrow> acc @ p = v @ endTag @ p'"
proof (induction endTag acc p line rule: parse_text.induct)
  case (2 endTag acc c p line)
  have "starts_with endTag (c # p) \<Longrightarrow> endTag @ drop (length endTag) (c # p) = c # p"
    unfolding starts_with_def by (metis append_take_drop_id)
  with 2 show ?case by (auto split: if_splits)
qed simp

lemma ParseText_split:
  assumes "ParseText p endTag fl line = (Some (v, p'), line')" and "endTag \<noteq> []"
  shows "p = sp_text v @ endTag @ p' \<and> sp_flags v = fl"
  using assms parse_text_split [of endTag "[]" p line]
  by (auto simp: ParseText_def split: prod.splits option.splits)

lemma ParseName_valid: "ParseName p = Some (v, p') \<Longrightarrow> valid_name v"
  by (auto simp: ParseName_def valid_name_def list_all_iff split: list.splits if_splits dest: set_takeWhileD)

lemma FindAttribute_None:
  assumes "list_all (valid_name \<circ> fst) attrs" and "FindAttribute s attrs = None"
  shows "s \<notin> set (map (sp_text \<circ> fst) attrs)"
  using assms by (induction attrs) (auto simp: FindAttribute_def valid_name_def split: if_splits)

lemma XMLAttribute_ParseDeep_name:
  "XMLAttribute_ParseDeep p entity line = (Some (a, p'), line') \<Longrightarrow> valid_name (fst a)"
  by (auto simp: XMLAttribute_ParseDeep_def Let_def ParseName_valid split: option.splits prod.splits if_splits)

lemma ParseAttributes_result:
  "attrs_ok attrs \<Longrightarrow>
   attrs_ok (ar_attrs (ParseAttributes entity name nodeLine closing attrs p line)) \<and>
   ar_closing (ParseAttributes entity name nodeLine closing attrs p line) \<in> {closing, CLOSED} \<and>
   (\<forall>q. ar_rest (ParseAttributes entity name nodeLine closing attrs p line) = Some q \<longrightarrow> length q < length p)"
proof (induction entity name nodeLine closing attrs p line rule: ParseAttributes.induct)
  case (1 entity name nodeLine closing attrs p line)
  obtain p1 line1 where p1: "SkipWhiteSpace p line = (p1, line1)" by (meson surj_pair)
  have le: "length p1 \<le> length p" using SkipWhiteSpace_le [OF p1] .
  note unfold = ParseAttributes.simps [of entity name nodeLine closing attrs p line]
  show ?case
  proof (cases "p1 \<noteq> [] \<and> IsNameStartChar (hd p1)")
    case False
    with p1 le "1.prems" show ?thesis by (cases p1) (auto simp: unfold starts_with_def)
  next
    case True
    obtain r line2 where r: "XMLAttribute_ParseDeep p1 entity line1 = (r, line2)" by (meson surj_pair)
    show ?thesis
    proof (cases r)
      case None
      with True p1 r "1.prems" show ?thesis by (simp add: unfold)
    next
      case (Some ap)
      obtain a p2 where ap: "ap = (a, p2)" by (cases ap)
      show ?thesis
      proof (cases "FindAttribute (GetStr (fst a)) attrs")
        case None
        have a: "valid_name (fst a)" using XMLAttribute_ParseDeep_name r Some ap by blast
        have "sp_text (fst a) \<notin> set (map (sp_text \<circ> fst) attrs)"
          using FindAttribute_None [of attrs] None a "1.prems" by (simp add: attrs_ok_def valid_name_def)
        then have "attrs_ok (attrs @ [a])" using a "1.prems" by (auto simp: attrs_ok_def)
        moreover have "length p2 < length p1" using XMLAttribute_ParseDeep_shorter r Some ap by blast
        moreover have "ParseAttributes entity name nodeLine closing attrs p line =
            ParseAttributes entity name nodeLine closing (attrs @ [a]) p2 line2"
          using True p1 r Some ap None by (simp add: unfold)
        ultimately show ?thesis
          using 1(1) [OF p1 [symmetric] refl _ _ r [symmetric] Some ap [symmetric]] True None le
          by (auto intro: less_trans less_le_trans)
      next
        case (Some b)
        with True p1 r \<open>r = Some ap\<close> ap "1.prems" show ?thesis by (simp add: unfold)
      qed
    qed
  qed
qed

lemma open_element_result:
  assumes "open_element nodeLine p d = (r, d')"
  shows "same_settings d d' \<and>
    (\<forall>name closing attrs q. r = Some (name, closing, attrs, q) \<longrightarrow>
       valid_name name \<and> attrs_ok attrs \<and> length q < length p)"
proof -
  obtain p1 line1 where p1: "SkipWhiteSpace p (parseCurLineNum d) = (p1, line1)" by (meson surj_pair)
  obtain c q where cq: "(if starts_with ''/'' p1 then (CLOSING, tl p1) else (OPEN, p1)) = (c, q)"
    by (meson surj_pair)
  have le: "length q \<le> length p" using SkipWhiteSpace_le [OF p1] cq by (auto split: if_splits)
  show ?thesis
  proof (cases "ParseName q")
    case None
    with assms p1 cq show ?thesis by (auto simp: open_element_def)
  next
    case (Some np)
    obtain name p2 where np: "np = (name, p2)" by (cases np)
    let ?r = "ParseAttributes (processEntities d) (GetStr name) nodeLine c [] p2 line1"
    have r: "r = map_option (\<lambda>p. (name, ar_closing ?r, ar_attrs ?r, p)) (ar_rest ?r)"
      and d': "same_settings d d'"
      using assms p1 cq Some np
      by (auto simp: open_element_def Let_def split: option.splits)
    have "valid_name name" "length p2 < length q"
      using ParseName_valid ParseName_shorter Some np by blast+
    with r d' le ParseAttributes_result [of "[]" "processEntities d" "GetStr name" nodeLine c p2 line1]
    show ?thesis by (fastforce simp: attrs_ok_def)
  qed
qed

lemma Identify_result:
  assumes "Identify p line = (p1, Some (k, l), line')"
  shows "length p1 \<le> length p \<and> (k = Text_kind False \<longrightarrow> \<not> starts_with ''<'' p1)"
proof -
  obtain p0 line0 where p0: "SkipWhiteSpace p line = (p0, line0)" by (meson surj_pair)
  have "p0 \<noteq> []" using assms p0 by (auto simp: Identify_def)
  then have shorter: "length (drop (Suc n) p0) < length p" for n
    using SkipWhiteSpace_le [OF p0] by (cases p0) auto
  have "\<not> starts_with ''<'' p" if "\<not> starts_with ''<'' p0"
    using that p0 by (cases p) (auto simp: starts_with_def IsWhiteSpace_def isspace_def)
  with assms p0 shorter [of 1] shorter [of 3] shorter [of 8] shorter [of 0] show ?thesis
    by (auto simp: Identify_def numeral_eq_Suc split: if_splits)
qed

lemma parse_into_result:
  assumes "parse_into mk p endTag fl d = (r, d')" and "endTag \<noteq> []"
  shows "same_settings d d' \<and> (\<forall>n q. r = Some (n, q) \<longrightarrow> (\<exists>v. n = mk v \<and> p = sp_text v @ endTag @ q))"
  using assms ParseText_split
  by (fastforce simp: parse_into_def split: prod.splits)

definition is_element :: "xml_node \<Rightarrow> bool" where
  "is_element n = (case n of XMLElement _ _ _ _ \<Rightarrow> True | _ \<Rightarrow> False)"

lemma leaf_ok: "\<not> is_element n \<Longrightarrow> node_ok k n"
  by (cases n) (simp_all add: is_element_def)

lemma parse_leaf_cases:
  assumes "k \<noteq> Text_kind False" and "k \<noteq> Element_kind"
  obtains mk endTag fl err where "endTag \<noteq> []" and "\<And>v. \<not> is_element (mk v)"
    and "parse_leaf k nodeLine p d = (let (r, d') = parse_into mk p endTag fl d in fail err nodeLine r d')"
proof (cases k)
  case (Text_kind cdata)
  then show ?thesis
    using that [of "'']]>''" "\<lambda>v. XMLText v True"] assms(1)
    by (simp add: parse_leaf_def XMLText_ParseDeep_def is_element_def)
next
  case Comment_kind
  then show ?thesis
    using that [of "''-->''" XMLComment] by (simp add: parse_leaf_def XMLComment_ParseDeep_def is_element_def)
next
  case Declaration_kind
  then show ?thesis
    using that [of "''?>''" XMLDeclaration]
    by (simp add: parse_leaf_def XMLDeclaration_ParseDeep_def is_element_def)
next
  case Unknown_kind
  then show ?thesis
    using that [of "''>''" XMLUnknown] by (simp add: parse_leaf_def XMLUnknown_ParseDeep_def is_element_def)
qed (use assms(2) in simp)

lemma parse_leaf_result:
  assumes "parse_leaf k nodeLine p d = (r, d')" and "k \<noteq> Element_kind"
  shows "same_settings d d' \<and>
    (\<forall>n q. r = Some (n, q) \<longrightarrow> \<not> is_element n \<and> (length q < length p \<or> k = Text_kind False \<and> starts_with ''<'' p))"
proof (cases "k = Text_kind False")
  case False
  obtain mk endTag fl err where leaf: "endTag \<noteq> []" "\<And>v. \<not> is_element (mk v)"
    "parse_leaf k nodeLine p d = (let (r, d') = parse_into mk p endTag fl d in fail err nodeLine r d')"
    by (rule parse_leaf_cases [OF False assms(2), where nodeLine = nodeLine and p = p and d = d]) (rule that)
  obtain r1 d1 where into: "parse_into mk p endTag fl d = (r1, d1)" by (meson surj_pair)
  have r: "r = r1" and "same_settings d d1 \<longrightarrow> same_settings d d'"
    using assms(1) leaf(3) into by (auto simp: fail_def)
  moreover have "\<not> is_element n \<and> length q < length p" if some: "r1 = Some (n, q)" for n q
  proof -
    obtain v where "n = mk v" "p = sp_text v @ endTag @ q" using parse_into_result [OF into leaf(1)] some by blast
    then show ?thesis using leaf(1,2) by simp
  qed
  ultimately show ?thesis using parse_into_result [OF into leaf(1)] by simp
next
  case True
  define fl where "fl = (let f = (if processEntities d then TEXT_ELEMENT else TEXT_ELEMENT_LEAVE_ENTITIES)
    in if collapseWhitespace d then f\<lparr>needs_collapse := True\<rparr> else f)"
  obtain r1 d1 where into: "parse_into (\<lambda>v. XMLText v False) p ''<'' fl d = (r1, d1)" by (meson surj_pair)
  have leaf: "(r, d') = (case r1 of
      None \<Rightarrow> (None, SetError XML_ERROR_PARSING_TEXT nodeLine None d1)
    | Some (n, q) \<Rightarrow> (if q \<noteq> [] then Some (n, CHR ''<'' # q) else None, d1))"
    using assms True into by (simp add: parse_leaf_def XMLText_ParseDeep_def fl_def Let_def)
  show ?thesis
  proof (cases r1)
    case None
    with leaf parse_into_result [OF into] show ?thesis by simp
  next
    case (Some nq)
    then obtain v q where "r1 = Some (XMLText v False, q)" "p = sp_text v @ ''<'' @ q" "same_settings d d1"
      using parse_into_result [OF into] by (cases nq) auto
    with leaf True show ?thesis
      by (cases "sp_text v") (auto simp: is_element_def starts_with_def split: if_splits)
  qed
qed

section \<open>The loop over the children\<close>

definition loop_ok :: "nat \<Rightarrow> bool \<Rightarrow> string \<Rightarrow> xml_doc \<Rightarrow> loop_result \<Rightarrow> bool" where
  "loop_ok k is_doc p d r \<longleftrightarrow>
     (\<exists>rest tag ns d'. r = Some (rest, tag, ns, d') \<and> same_settings d d' \<and>
        list_all (node_ok k) ns \<and> siblings_ok is_doc ns \<and>
        (\<forall>q. rest = Some q \<longrightarrow> length q < length p))"

lemma siblings_ok_snoc:
  assumes "siblings_ok is_doc ns" and "place_node is_doc ns l endTag n d = Insert_node"
  shows "siblings_ok is_doc (ns @ [n])"
  using assms
  by (auto simp: siblings_ok_def place_node_def declarations_first_snoc split: if_splits)

lemma place_node_ok:
  assumes "place_node is_doc ns l endTag n d = Insert_node"
    and "is_element n \<Longrightarrow> endTag \<noteq> None \<Longrightarrow> node_ok k n"
    and "is_element n \<Longrightarrow> elem_closing n = CLOSED \<Longrightarrow> node_ok k n"
  shows "node_ok k n"
proof (cases n)
  case (XMLElement name closing attrs children)
  with assms show ?thesis
    by (cases closing; cases endTag) (auto simp: place_node_def is_element_def is_declaration_def split: if_splits)
qed simp_all

definition element_ok :: "nat \<Rightarrow> string \<Rightarrow> xml_doc \<Rightarrow> node_result \<Rightarrow> bool" where
  "element_ok k p d r \<longleftrightarrow>
     (\<exists>nr tag d'. r = Some (nr, tag, d') \<and> same_settings d d' \<and>
        (\<forall>n q. nr = Some (n, q) \<longrightarrow> length q < length p \<and>
           (is_element n \<longrightarrow> tag \<noteq> None \<or> elem_closing n = CLOSED \<longrightarrow> node_ok k n)))"

lemma XMLElement_ParseDeep_ok:
  assumes "parsingDepth d \<le> 99"
    and loop: "\<And>p' d'. length p' < length p \<Longrightarrow> parsingDepth d' = Suc (parsingDepth d) \<Longrightarrow> parsingDepth d' \<le> 99 \<Longrightarrow>
      loop_ok (99 - parsingDepth d') False p' d' (loop p' d')"
  shows "element_ok (99 - parsingDepth d) p d (XMLElement_ParseDeep loop nodeLine p d)"
proof -
  obtain r d1 where op: "open_element nodeLine p d = (r, d1)" by (meson surj_pair)
  note res = open_element_result [OF op]
  show ?thesis
  proof (cases r)
    case None
    with op res show ?thesis by (simp add: XMLElement_ParseDeep_def element_ok_def)
  next
    case (Some t)
    obtain name closing attrs q where t: "t = (name, closing, attrs, q)" by (cases t) auto
    show ?thesis
    proof (cases "q = [] \<or> closing \<noteq> OPEN")
      case True
      with op res Some t show ?thesis by (auto simp: XMLElement_ParseDeep_def element_ok_def)
    next
      case False
      define d2 where "d2 = PushDepth d1"
      show ?thesis
      proof (cases "Error d2")
        case True
        with False op res Some t show ?thesis
          by (auto simp: XMLElement_ParseDeep_def XMLNode_ParseDeep_def element_ok_def d2_def
              intro: same_settings_depth)
      next
        case no_error: False
        have depth: "parsingDepth d2 = Suc (parsingDepth d)"
          using res by (simp add: d2_def same_settings_def)
        have "parsingDepth d2 \<noteq> 100"
          using no_error by (auto simp: d2_def PushDepth_def Let_def Error_def SetError_def TINYXML2_MAX_ELEMENT_DEPTH_def)
        with depth assms(1) have "parsingDepth d2 \<le> 99" by simp
        moreover have "length q < length p" using res Some t by auto
        ultimately have "loop_ok (99 - parsingDepth d2) False q d2 (loop q d2)"
          using loop depth by blast
        moreover have "same_settings d (PopDepth d')" if "same_settings d2 d'" for d'
          using res that same_settings_depth unfolding d2_def by blast
        ultimately show ?thesis
          using False no_error op res Some t depth \<open>parsingDepth d2 \<le> 99\<close>
          by (auto simp: XMLElement_ParseDeep_def XMLNode_ParseDeep_def element_ok_def loop_ok_def
              siblings_ok_def list_all_iff d2_def [symmetric] Suc_diff_Suc)
      qed
    qed
  qed
qed

lemma node_ParseDeep_ok:
  assumes "parsingDepth d \<le> 99"
    and "\<And>p' d'. length p' < length p \<Longrightarrow> parsingDepth d' = Suc (parsingDepth d) \<Longrightarrow> parsingDepth d' \<le> 99 \<Longrightarrow>
      loop_ok (99 - parsingDepth d') False p' d' (loop p' d')"
    and "k = Text_kind False \<Longrightarrow> \<not> starts_with ''<'' p"
  shows "element_ok (99 - parsingDepth d) p d (node_ParseDeep loop k nodeLine p d)"
proof (cases "k = Element_kind")
  case True
  with XMLElement_ParseDeep_ok [OF assms(1,2)] show ?thesis by (simp add: node_ParseDeep_def)
next
  case False
  obtain r d1 where leaf: "parse_leaf k nodeLine p d = (r, d1)" by (meson surj_pair)
  with parse_leaf_result [OF leaf False] assms(3) False show ?thesis
    by (auto simp: node_ParseDeep_def element_ok_def)
qed

lemma loop_ok_longer:
  "loop_ok k is_doc q d' r \<Longrightarrow> same_settings d d' \<Longrightarrow> length q \<le> length p \<Longrightarrow> loop_ok k is_doc p d r"
  by (fastforce simp: loop_ok_def intro: same_settings_trans)

text \<open>What the loop does behind a node that was read, with the rest of the loop as \<open>cont\<close>.\<close>

lemma after_node_ok:
  assumes node: "element_ok k p1 d (Some (r, tag, d1))" and p1: "length p1 \<le> length p"
    and ns: "list_all (node_ok k) ns" "siblings_ok is_doc ns"
    and cont: "\<And>n q. length q < length p1 \<Longrightarrow> node_ok k n \<Longrightarrow> siblings_ok is_doc (ns @ [n]) \<Longrightarrow>
      loop_ok k is_doc q d1 (cont (ns @ [n]) q d1)"
  shows "loop_ok k is_doc p d
    (case r of
       None \<Rightarrow> Some (None, None, ns, if \<not> Error d1 then SetError XML_ERROR_PARSING l None d1 else d1)
     | Some (node, p2) \<Rightarrow>
         (case place_node is_doc ns l tag node d1 of
            Break_with d2 \<Rightarrow> Some (None, None, ns, d2)
          | Return_tag t \<Rightarrow> Some (Some p2, Some t, ns, d1)
          | Insert_node \<Rightarrow> cont (ns @ [node]) p2 d1))"
proof (cases r)
  case None
  with node ns show ?thesis by (simp add: loop_ok_def element_ok_def)
next
  case (Some nq)
  then obtain n q where nq: "r = Some (n, q)" by (cases nq) auto
  have same: "same_settings d d1" and n: "length q < length p1"
    "is_element n \<longrightarrow> tag \<noteq> None \<or> elem_closing n = CLOSED \<longrightarrow> node_ok k n"
    using node nq unfolding element_ok_def by blast+
  show ?thesis
  proof (cases "place_node is_doc ns l tag n d1")
    case (Break_with d2)
    moreover have "same_settings d d2"
      using same Break_with by (auto simp: place_node_def split: if_splits xml_node.splits)
    ultimately show ?thesis using nq ns by (simp add: loop_ok_def)
  next
    case (Return_tag t)
    with nq same n p1 ns show ?thesis by (simp add: loop_ok_def)
  next
    case Insert_node
    have "node_ok k n" using place_node_ok [OF Insert_node] n(2) by blast
    with cont [OF n(1)] siblings_ok_snoc [OF ns(2) Insert_node]
    have "loop_ok k is_doc q d1 (cont (ns @ [n]) q d1)" by blast
    with nq Insert_node same n(1) p1 show ?thesis by (auto intro: loop_ok_longer)
  qed
qed

lemma ParseDeep_loop_ok:
  assumes "length p < fuel" and "parsingDepth d \<le> 99"
    and "list_all (node_ok (99 - parsingDepth d)) ns" and "siblings_ok is_doc ns"
  shows "loop_ok (99 - parsingDepth d) is_doc p d (ParseDeep_loop fuel is_doc ns p d)"
  using assms
proof (induction fuel arbitrary: is_doc ns p d)
  case (Suc fuel)
  obtain p1 k line where ident: "Identify p (parseCurLineNum d) = (p1, k, line)" by (metis surj_pair)
  show ?case
  proof (cases "p = [] \<or> k = None")
    case True
    with ident Suc.prems show ?thesis by (auto simp: ParseDeep_loop.simps(2) loop_ok_def)
  next
    case False
    then obtain kind l where k: "k = Some (kind, l)" and p: "p \<noteq> []" by (cases k) auto
    define d0 where "d0 = d\<lparr>parseCurLineNum := line\<rparr>"
    have d0: "parsingDepth d0 = parsingDepth d" "same_settings d d0" by (simp_all add: d0_def)
    note p1 = Identify_result [OF ident [unfolded k]]
    have "loop_ok (99 - parsingDepth d') False p' d' (ParseDeep_loop fuel False [] p' d')"
      if "length p' < length p1" "parsingDepth d' \<le> 99" for p' d'
      using Suc.IH [of p' d' "[]" False] Suc.prems(1) that p1 by (simp add: siblings_ok_def)
    moreover have "parsingDepth d0 \<le> 99" using d0(1) Suc.prems(2) by simp
    ultimately have el: "element_ok (99 - parsingDepth d) p1 d0 (node_ParseDeep (ParseDeep_loop fuel False []) kind l p1 d0)"
      using p1 unfolding d0(1) [symmetric] by (intro node_ParseDeep_ok) blast+
    then obtain r tag d1 where node: "node_ParseDeep (ParseDeep_loop fuel False []) kind l p1 d0 = Some (r, tag, d1)"
      and d1: "same_settings d0 d1"
      unfolding element_ok_def by blast
    have "loop_ok (99 - parsingDepth d) is_doc q d1 (ParseDeep_loop fuel is_doc (ns @ [n]) q d1)"
      if "length q < length p1" "node_ok (99 - parsingDepth d) n" "siblings_ok is_doc (ns @ [n])" for n q
      using Suc.IH [of q d1 "ns @ [n]" is_doc] Suc.prems d0(1) d1 p1 that by (simp add: same_settings_def)
    then have "loop_ok (99 - parsingDepth d) is_doc p d0
      (case r of
         None \<Rightarrow> Some (None, None, ns, if \<not> Error d1 then SetError XML_ERROR_PARSING l None d1 else d1)
       | Some (node, p2) \<Rightarrow>
           (case place_node is_doc ns l tag node d1 of
              Break_with d2 \<Rightarrow> Some (None, None, ns, d2)
            | Return_tag t \<Rightarrow> Some (Some p2, Some t, ns, d1)
            | Insert_node \<Rightarrow> ParseDeep_loop fuel is_doc (ns @ [node]) p2 d1))"
      using el p1 Suc.prems(3,4) unfolding node
      by (intro after_node_ok [where cont = "ParseDeep_loop fuel is_doc"]) blast+
    from loop_ok_longer [OF this d0(2) order_refl] ident k p node show ?thesis
      by (simp add: ParseDeep_loop.simps(2) d0_def)
  qed
qed simp

section \<open>Documents\<close>

text \<open>What a parse leaves behind: a tree of the right shape, and the depth it started with.\<close>

definition document_ok :: "xml_doc \<Rightarrow> (xml_node list \<times> xml_doc) option \<Rightarrow> bool" where
  "document_ok d r \<longleftrightarrow>
     (\<exists>ns d'. r = Some (ns, d') \<and> list_all (node_ok 98) ns \<and> declarations_first ns \<and> same_settings d d')"

lemma document_ok_empty: "same_settings d d' \<Longrightarrow> document_ok d (Some ([], d'))"
  by (simp add: document_ok_def)

lemma document_ParseDeep_ok:
  assumes "parsingDepth d = 0" shows "document_ok d (document_ParseDeep p d)"
proof (cases "Error (PushDepth d)")
  case True
  then show ?thesis
    using same_settings_depth [OF same_settings_refl same_settings_refl, of d]
    by (simp add: document_ParseDeep_def XMLNode_ParseDeep_def document_ok_empty)
next
  case False
  have "loop_ok (99 - parsingDepth (PushDepth d)) True p (PushDepth d)
      (ParseDeep_loop (Suc (length p)) True [] p (PushDepth d))"
    using assms by (intro ParseDeep_loop_ok) (simp_all add: siblings_ok_def)
  with False assms show ?thesis
    by (auto simp: document_ParseDeep_def XMLNode_ParseDeep_def document_ok_def loop_ok_def siblings_ok_def
        intro: same_settings_depth [OF same_settings_refl])
qed

lemma Parse_buffer_ok:
  assumes "parsingDepth d = 0" shows "document_ok d (Parse_buffer s d)"
proof -
  obtain p line where p: "SkipWhiteSpace s 1 = (p, line)" by (meson surj_pair)
  obtain q bom where q: "ReadBOM p = (q, bom)" by (meson surj_pair)
  let ?d = "d\<lparr>parseCurLineNum := line, writeBOM := bom\<rparr>"
  have d: "same_settings d ?d" "parsingDepth ?d = 0" using assms by (simp_all add: same_settings_def)
  show ?thesis
  proof (cases "q = []")
    case True
    with p q d show ?thesis by (simp add: Parse_buffer_def document_ok_empty)
  next
    case False
    with p q document_ParseDeep_ok [OF d(2), of q] d(1) show ?thesis
      by (auto simp: Parse_buffer_def document_ok_def intro: same_settings_trans)
  qed
qed

lemma Clear_doc_twice: "Clear_doc (Clear_doc d) = Clear_doc d"
  by (simp add: Clear_doc_def ClearError_def SetError_def)

lemma LoadFile_ok: "document_ok (Clear_doc d) (LoadFile filename file_data d)"
proof -
  have depth: "parsingDepth (Clear_doc d) = 0" for d by (simp add: Clear_doc_def)
  show ?thesis
    by (cases file_data)
      (simp_all add: LoadFile_def LoadFile_fp_def Let_def Clear_doc_twice document_ok_empty Parse_buffer_ok depth)
qed

lemma LoadFile_returns: "\<exists>ns d'. LoadFile filename file_data d = Some (ns, d')"
  using LoadFile_ok [of d filename file_data] by (auto simp: document_ok_def)

text \<open>
  C6: \<open>LoadFile\<close> always returns, whatever the file holds.  The nodes of the document then form a
  tree of the right shape, also after an error: every element and attribute name is a name of the
  grammar, no element has an attribute twice (other than a comment in \<open>XMLElement::ParseAttributes\<close> says, the code
  looks a new attribute up among those before and reports an error), no closing tag is left over and only elements with a
  closing tag have content, such elements are nested at most 98 deep, no declaration is inside an element or after another
  kind of node, and the counter of the depth is back at zero.
\<close>

theorem LoadFile_tree:
  "\<exists>ns d'. LoadFile filename file_data d = Some (ns, d') \<and>
     list_all (node_ok 98) ns \<and> declarations_first ns \<and> parsingDepth d' = 0"
  using LoadFile_ok [of d filename file_data] by (auto simp: document_ok_def same_settings_def Clear_doc_def)

end
