(* ===== verification/Towa_App_Pool.thy ===== *)
theory Towa_App_Pool
  imports Towa_Ipc Xml_Tree
begin

text \<open>
  \<^verbatim>\<open>server/towa_app_pool.cpp\<close>, \<^verbatim>\<open>server/towa.cpp\<close> and \<^verbatim>\<open>server/towa_mgr.cpp\<close>: the process that
  runs the servlets, and its manager in the web server.  The Java machine is an argument \<open>jvm\<close>:
  what a call of \<open>doGet\<close> on the class of a request comes to.
\<close>

section \<open>The Java side\<close>

text \<open>An exception: its text, its stack frames, its cause.\<close>

datatype java_exc = Exc string "string list" "java_exc option"

text \<open>
  A look-up that leaves by a C++ exception, with the step it happened in; an exception of the servlet;
  the byte array of the response or none.  \<open>behind\<close> is what the memory holds after the array.
\<close>

datatype jvm_result =
    Class_missing
  | Constructor_missing
  | Method_missing
  | Other_throw
  | Servlet_exception java_exc
  | Output "byte list option" "byte list"

type_synonym jvm_fun = "string \<Rightarrow> string \<Rightarrow> string \<Rightarrow> jvm_result"

section \<open>TowaAppPool\<close>

text \<open>The text of an exception, appended to what its effects have produced so far.\<close>

fun GetJNIException :: "java_exc \<Rightarrow> string \<Rightarrow> string" where
  "GetJNIException (Exc msg frames cause) err =
     (let err = (if err \<noteq> [] then err @ [CHR 0x0A] @ ''Caused by: '' @ msg else msg);
          err = err @ concat (map (\<lambda>f. [CHR 0x0A] @ ''    '' @ f) frames)
      in case cause of None \<Rightarrow> err | Some c \<Rightarrow> GetJNIException c err)"

text \<open>\<open>getline(ss, item, '|')\<close> until the stream ends: a separator at the end adds no empty item.\<close>

fun split_bars :: "string \<Rightarrow> string \<Rightarrow> string list" where
  "split_bars item [] = (if item = [] then [] else [item])"
| "split_bars item (c # s) =
     (if c = CHR ''|'' then item # split_bars [] s else split_bars (item @ [c]) s)"

text \<open>The message of a failed look-up, as \<open>findClass\<close> and \<open>findMethod\<close> leave it in \<open>errorMsg\<close>.\<close>

definition lookup_error :: "byte \<Rightarrow> string \<Rightarrow> message" where
  "lookup_error code txt = Message_string (char_of (unat code) # txt)"

text \<open>
  \<open>(char* )GetByteArrayElements\<close> is read up to its first NUL, and so possibly behind the array.  The
  handler of every other C++ exception returns a pointer that was never set.
\<close>

definition app_processRequest :: "jvm_fun \<Rightarrow> message \<Rightarrow> fault + message option" where
  "app_processRequest jvm msg_in =
     sbind (getString msg_in) (\<lambda>msg_in_str.
       let tokens = split_bars [] msg_in_str
       in if length tokens < 2 then Inr None
          else
            let meth = tokens ! 0; className = tokens ! 1;
                queryString = (if 3 \<le> length tokens then tokens ! 2 else [])
            in (case jvm meth className queryString of
                  Class_missing \<Rightarrow>
                    Inr (Some (lookup_error TOWA_HTTP_404 (''Cannot find '' @ className @ ''.class'')))
                | Constructor_missing \<Rightarrow>
                    Inr (Some (lookup_error TOWA_HTTP_500
                      (''Cannot find contructor for class '' @ className @ ''.class'')))
                | Method_missing \<Rightarrow>
                    Inr (Some (lookup_error TOWA_HTTP_500
                      (''Cannot find method '' @ [CHR 0x27] @ ''doGet'' @ [CHR 0x27] @ '' in class '' @
                       className @ ''.class'')))
                | Other_throw \<Rightarrow> Inl Uninitialised
                | Servlet_exception exc \<Rightarrow>
                    Inr (Some (Message_string ([char_of (unat TOWA_HTTP_500)] @ ''<pre>'' @
                      GetJNIException exc [] @ ''</pre>'')))
                | Output None behind \<Rightarrow> Inr None
                | Output (Some bs) behind \<Rightarrow>
                    if 0 \<notin> set (bs @ behind) then Inl Overread
                    else Inr (Some (Message_string (char_of (unat TOWA_HTTP_200) #
                           chars_of (takeWhile (\<lambda>b. b \<noteq> 0) (bs @ behind)))))))"

text \<open>\<open>main\<close> of \<^verbatim>\<open>server/towa.cpp\<close>: one reply per request until a fault.\<close>

fun towa_main :: "(nat \<Rightarrow> byte) \<Rightarrow> jvm_fun \<Rightarrow> byte list list \<Rightarrow> fault + byte list list" where
  "towa_main blk jvm [] = Inr []"
| "towa_main blk jvm (ping # pings) =
     sbind (pipe_listenToMsg blk (app_processRequest jvm) ping) (\<lambda>pong.
     sbind (towa_main blk jvm pings) (\<lambda>pongs. Inr (pong # pongs)))"

section \<open>TowaMgr\<close>

definition FAILURE_TOWA_INVALID_TYPE :: int where "FAILURE_TOWA_INVALID_TYPE = 0x60"
definition FAILURE_TOWA_CANNOT_SPAWN :: int where "FAILURE_TOWA_CANNOT_SPAWN = 0x61"

datatype TowaType = namedpipe | tcpip | sharedmem

datatype dir_type = DT_DIR | DT_REG | DT_other

record servlet =
  sv_name :: string
  sv_path :: string

text \<open>
  The result of a manager operation: a value, a thrown code, \<open>std::out_of_range\<close> (which nothing
  catches), or a fault.
\<close>

datatype 'a mgr = Ok_mgr 'a | Thrown int | Out_of_range | Mgr_fault fault

text \<open>The constructor of the manager, on the results of the two \<open>mknod\<close> of a named pipe.\<close>

definition TowaMgr :: "TowaType \<Rightarrow> int \<times> int \<Rightarrow> int \<times> int \<Rightarrow> TowaType mgr" where
  "TowaMgr t ping pong =
     (case t of
        namedpipe \<Rightarrow> (case TowaPipe ping pong of Inl e \<Rightarrow> Thrown e | Inr _ \<Rightarrow> Ok_mgr t)
      | _ \<Rightarrow> Ok_mgr t)"

text \<open>
  The directory scan: \<open>tmp.compare(tmp.size() - 4, ...)\<close> throws for a name of fewer than four
  characters, of a regular file only.  The set of archives is a list without duplicates; the order in
  which the code's hash set yields them is not specified.
\<close>

fun scan_dir :: "(string \<times> dir_type) list \<Rightarrow> string list \<Rightarrow> string list \<Rightarrow> (string list \<times> string list) mgr" where
  "scan_dir [] wars dirs = Ok_mgr (wars, dirs)"
| "scan_dir ((name, ty) # es) wars dirs =
     (let dirs = (if ty = DT_DIR then List.insert name dirs else dirs)
      in if ty \<noteq> DT_REG then scan_dir es wars dirs
         else if length name < 4 then Out_of_range
         else if drop (length name - 4) name = ''.war''
              then scan_dir es (List.insert (take (length name - 4) name) wars) dirs
              else scan_dir es wars dirs)"

definition mgr_bind :: "'a mgr \<Rightarrow> ('a \<Rightarrow> 'b mgr) \<Rightarrow> 'b mgr" where
  "mgr_bind r f =
     (case r of Ok_mgr x \<Rightarrow> f x | Thrown e \<Rightarrow> Thrown e | Out_of_range \<Rightarrow> Out_of_range | Mgr_fault e \<Rightarrow> Mgr_fault e)"

lemma mgr_bind_simps [simp]:
  "mgr_bind (Ok_mgr x) f = f x" "mgr_bind (Thrown e) f = Thrown e" "mgr_bind Out_of_range f = Out_of_range"
  "mgr_bind (Mgr_fault flt) f = Mgr_fault flt"
  by (simp_all add: mgr_bind_def)

text \<open>
  \<open>readWebXML\<close> follows the elements of \<open>web.xml\<close> without a test: a null pointer on the way is used as an
  object, or as a C string by the constructor of \<open>TowaServlet\<close>.  \<open>files\<close> is what the files of the class path
  contain.  The document is always there (\<open>LoadFile\<close> returns, theory \<open>Xml_Tree\<close>), empty after an error.
\<close>

definition TowaServlet :: "string option \<Rightarrow> string option \<Rightarrow> servlet mgr" where
  "TowaServlet n u =
     (case (n, u) of
        (Some n, Some u) \<Rightarrow> Ok_mgr \<lparr>sv_name = n, sv_path = u\<rparr>
      | _ \<Rightarrow> Mgr_fault Null_deref)"

definition children_of :: "xml_node option \<Rightarrow> xml_node list mgr" where
  "children_of elt = (case elt of None \<Rightarrow> Mgr_fault Null_deref | Some n \<Rightarrow> Ok_mgr (elem_children n))"

definition web_xml_path :: "string \<Rightarrow> string" where
  "web_xml_path war = ''./classpath/'' @ war @ ''/WEB-INF/web.xml''"

definition readWebXML :: "(string \<Rightarrow> file_contents) \<Rightarrow> string \<Rightarrow> servlet mgr" where
  "readWebXML files war =
     (let doc = fst (the (LoadFile (web_xml_path war) (files (web_xml_path war)) (XMLDocument True False)))
      in mgr_bind (children_of (FirstChildElement (Some ''web-app'') doc)) (\<lambda>app.
         mgr_bind (children_of (FirstChildElement (Some ''servlet-mapping'') app)) (\<lambda>elt.
         mgr_bind (children_of (FirstChildElement (Some ''servlet-name'') elt)) (\<lambda>servletName.
         mgr_bind (children_of (FirstChildElement (Some ''url-pattern'') elt)) (\<lambda>urlPattern.
           TowaServlet (GetText servletName) (GetText urlPattern))))))"

text \<open>The second result is the commands that \<open>uncompressWar\<close> starts; nothing waits for them to end.\<close>

definition uncompressWar :: "string \<Rightarrow> string" where
  "uncompressWar war_name = ''unzip '' @ war_name @ ''.war -d '' @ war_name"

fun read_servlets :: "(string \<Rightarrow> file_contents) \<Rightarrow> string list \<Rightarrow> string list \<Rightarrow>
    (servlet list \<times> string list) mgr" where
  "read_servlets files dirs [] = Ok_mgr ([], [])"
| "read_servlets files dirs (war # wars) =
     mgr_bind (readWebXML files war) (\<lambda>s.
     mgr_bind (read_servlets files dirs wars) (\<lambda>(ss, unz).
       Ok_mgr (s # ss, (if war \<notin> set dirs then uncompressWar (''./classpath/'' @ war) # unz else unz))))"

definition scanClasspath ::
  "(string \<Rightarrow> file_contents) \<Rightarrow> (string \<times> dir_type) list \<Rightarrow> (servlet list \<times> string list) mgr"
where
  "scanClasspath files entries =
     mgr_bind (scan_dir entries [] []) (\<lambda>(wars, dirs). read_servlets files dirs wars)"

text \<open>\<open>pid\<close> is what \<open>fork\<close> returned, \<open>res\<close> what \<open>waitpid\<close> says: 0 while the child runs.\<close>

definition launchAppPool :: "int \<Rightarrow> int \<Rightarrow> int mgr" where
  "launchAppPool pid res = (if res \<noteq> 0 then Thrown FAILURE_TOWA_CANNOT_SPAWN else Ok_mgr pid)"

definition mgr_start ::
  "(string \<Rightarrow> file_contents) \<Rightarrow> (string \<times> dir_type) list \<Rightarrow> int \<Rightarrow> int \<Rightarrow> int mgr"
where
  "mgr_start files entries pid res =
     mgr_bind (scanClasspath files entries) (\<lambda>_. launchAppPool pid res)"

text \<open>\<open>check\<close> keeps the process it has, \<open>old\<close>, while that runs, and starts another otherwise.\<close>

definition mgr_check ::
  "(string \<Rightarrow> file_contents) \<Rightarrow> (string \<times> dir_type) list \<Rightarrow> int \<Rightarrow> int \<Rightarrow> int \<Rightarrow> int \<Rightarrow> int mgr"
where
  "mgr_check files entries old old_res pid res =
     (if old_res \<noteq> 0 then mgr_start files entries pid res else Ok_mgr old)"

text \<open>The TCP and shared memory channels are stubs that return a null pointer.\<close>

definition mgr_sendMsg ::
  "TowaType \<Rightarrow> (nat \<Rightarrow> byte) \<Rightarrow> (byte list \<Rightarrow> fault + byte list) \<Rightarrow> string \<Rightarrow> string \<Rightarrow> string \<Rightarrow>
   fault + message option"
where
  "mgr_sendMsg ty blk other verb classname querystring =
     (case ty of
        namedpipe \<Rightarrow> sbind (pipe_sendMsg blk other verb classname querystring) (\<lambda>m. Inr (Some m))
      | _ \<Rightarrow> Inr None)"

section \<open>The archives\<close>

definition wars_of :: "(string \<times> dir_type) list \<Rightarrow> string set" where
  "wars_of entries = {w. (w @ ''.war'', DT_REG) \<in> set entries}"

definition dirs_of :: "(string \<times> dir_type) list \<Rightarrow> string set" where
  "dirs_of entries = {d. (d, DT_DIR) \<in> set entries}"

definition short_names :: "(string \<times> dir_type) list \<Rightarrow> bool" where
  "short_names entries \<longleftrightarrow> (\<exists>(n, ty) \<in> set entries. ty = DT_REG \<and> length n < 4)"

lemma war_name: "w @ ''.war'' = n \<longleftrightarrow> 4 \<le> length n \<and> drop (length n - 4) n = ''.war'' \<and> w = take (length n - 4) n"
proof
  assume "w @ ''.war'' = n"
  then show "4 \<le> length n \<and> drop (length n - 4) n = ''.war'' \<and> w = take (length n - 4) n" by auto
next
  assume n: "4 \<le> length n \<and> drop (length n - 4) n = ''.war'' \<and> w = take (length n - 4) n"
  then have "w @ ''.war'' = take (length n - 4) n @ drop (length n - 4) n" by (simp only:)
  then show "w @ ''.war'' = n" by (simp only: append_take_drop_id)
qed

lemma wars_of_Cons:
  "wars_of ((n, ty) # es) =
     (if ty = DT_REG \<and> 4 \<le> length n \<and> drop (length n - 4) n = ''.war''
      then insert (take (length n - 4) n) (wars_of es) else wars_of es)"
proof -
  have "w \<in> wars_of ((n, ty) # es) \<longleftrightarrow> w @ ''.war'' = n \<and> ty = DT_REG \<or> w \<in> wars_of es" for w
    by (auto simp: wars_of_def)
  then show ?thesis unfolding war_name by auto
qed

lemma scan_dir_result:
  "distinct wars \<Longrightarrow>
   if short_names entries then scan_dir entries wars dirs = Out_of_range
   else \<exists>ws ds. scan_dir entries wars dirs = Ok_mgr (ws, ds) \<and> distinct ws \<and>
     set ws = set wars \<union> wars_of entries \<and> set ds = set dirs \<union> dirs_of entries"
proof (induction entries wars dirs rule: scan_dir.induct)
  case (1 wars dirs)
  then show ?case by (simp add: short_names_def wars_of_def dirs_of_def)
next
  case (2 name ty es wars dirs)
  have dirs: "dirs_of ((name, ty) # es) = (if ty = DT_DIR then insert name (dirs_of es) else dirs_of es)"
    by (auto simp: dirs_of_def)
  have short: "short_names ((name, ty) # es) \<longleftrightarrow> ty = DT_REG \<and> length name < 4 \<or> short_names es"
    by (simp add: short_names_def)
  consider "ty \<noteq> DT_REG" | "ty = DT_REG" "length name < 4"
    | "ty = DT_REG" "4 \<le> length name" "drop (length name - 4) name = ''.war''"
    | "ty = DT_REG" "4 \<le> length name" "drop (length name - 4) name \<noteq> ''.war''"
    by linarith
  then show ?case
  proof cases
    case 1
    with 2 show ?thesis unfolding short dirs wars_of_Cons by (auto simp: Let_def)
  next
    case 2
    then show ?thesis unfolding short by (simp add: Let_def)
  next
    case 3
    with "2.IH"(2) [OF refl _ _ 3(3)] "2.prems" show ?thesis
      unfolding short dirs wars_of_Cons by (auto simp: Let_def split: if_splits)
  next
    case 4
    with "2.IH"(3) [OF refl _ _ 4(3)] "2.prems" show ?thesis
      unfolding short dirs wars_of_Cons by (auto simp: Let_def split: if_splits)
  qed
qed

lemma read_servlets_result:
  "\<forall>w \<in> set wars. \<exists>s. readWebXML files w = Ok_mgr s \<Longrightarrow>
   \<exists>ss cmds. read_servlets files dirs wars = Ok_mgr (ss, cmds) \<and> map Ok_mgr ss = map (readWebXML files) wars \<and>
     set cmds = {uncompressWar (''./classpath/'' @ w) |w. w \<in> set wars \<and> w \<notin> set dirs}"
  by (induction wars) fastforce+

lemma readWebXML_no_file:
  assumes "files (web_xml_path war) = No_file"
  shows "readWebXML files war = Mgr_fault Null_deref"
  using assms by (simp add: readWebXML_def LoadFile_def Let_def FirstChildElement_def children_of_def)

lemma read_servlets_fault:
  assumes "w \<in> set wars" and "\<forall>w \<in> set wars. readWebXML files w \<in> range Ok_mgr \<union> {Mgr_fault Null_deref}"
    and "readWebXML files w = Mgr_fault Null_deref"
  shows "read_servlets files dirs wars = Mgr_fault Null_deref"
  using assms
proof (induction wars)
  case (Cons v wars)
  then show ?case by (cases "readWebXML files v = Mgr_fault Null_deref") auto
qed simp

lemma readWebXML_range: "readWebXML files war \<in> range Ok_mgr \<union> {Mgr_fault Null_deref}"
  by (auto simp: readWebXML_def mgr_bind_def children_of_def TowaServlet_def Let_def
      split: option.splits mgr.splits prod.splits)

text \<open>
  An archive whose \<^verbatim>\<open>web.xml\<close> is not there when it is read makes the start of the manager use a
  null pointer.  The command that unpacks an archive for the first time is started and not waited
  for, so this is the normal case then.
\<close>

theorem web_xml_missing:
  assumes "w \<in> wars_of entries" and "\<not> short_names entries" and "files (web_xml_path w) = No_file"
  shows "mgr_start files entries pid res = Mgr_fault Null_deref"
proof -
  obtain ws ds where ws: "scan_dir entries [] [] = Ok_mgr (ws, ds)" "set ws = wars_of entries"
    using assms(2) scan_dir_result [of "[]" entries "[]"] by auto
  then have "read_servlets files ds ws = Mgr_fault Null_deref"
    using read_servlets_fault [of w ws files ds] readWebXML_no_file [of files w] assms(3) readWebXML_range assms(1) by blast
  with ws show ?thesis by (simp add: mgr_start_def scanClasspath_def)
qed

theorem web_xml_missing_witness:
  "mgr_start (\<lambda>p. No_file) [(''app.war'', DT_REG)] 7 0 = Mgr_fault Null_deref"
  by (rule web_xml_missing [of "''app''"]) (simp_all add: wars_of_def short_names_def)

section \<open>Tokens\<close>

lemma split_bars_item:
  "CHR ''|'' \<notin> set s \<Longrightarrow> split_bars item (s @ CHR ''|'' # t) = (item @ s) # split_bars [] t"
  by (induction s arbitrary: item) auto

lemma split_bars_head:
  "split_bars item s = [] \<and> item @ takeWhile (\<lambda>c. c \<noteq> CHR ''|'') s = [] \<or>
   split_bars item s \<noteq> [] \<and> hd (split_bars item s) = item @ takeWhile (\<lambda>c. c \<noteq> CHR ''|'') s"
proof (induction item s rule: split_bars.induct)
  case (2 item c s)
  then show ?case by auto
qed simp

text \<open>The third token, or the empty string without one, is the query up to its first bar.\<close>

lemma tokens_of_request:
  assumes "CHR ''|'' \<notin> set v" and "CHR ''|'' \<notin> set c"
  shows "\<exists>rest. split_bars [] (request_text v c q) = v # c # rest \<and>
    (if rest = [] then [] else hd rest) = takeWhile (\<lambda>c. c \<noteq> CHR ''|'') q"
  using assms split_bars_head [of "[]" q] by (auto simp: request_text_def split_bars_item)

text \<open>
  A servlet gets the verb, the class and the query of the request, the query only up to its first
  bar; and the web server gets the servlet's output up to the first zero byte, under the code 200.
\<close>

theorem servlet_request_reply:
  assumes "CHR ''|'' \<notin> set v" and "CHR ''|'' \<notin> set c" and "length (request_text v c q) < 2 ^ 31"
    and "jvm v c (takeWhile (\<lambda>c. c \<noteq> CHR ''|'') q) = Output (Some bs) behind"
    and "0 \<in> set (bs @ behind)" and "length (bs @ behind) < 2 ^ 30"
  shows "pipe_sendMsg blk (pipe_listenToMsg blk' (app_processRequest jvm)) v c q =
    Inr \<lparr>m_content = takeWhile (\<lambda>b. b \<noteq> 0) (bs @ behind),
         m_size = int (length (takeWhile (\<lambda>b. b \<noteq> 0) (bs @ behind))), m_header = Some TOWA_HTTP_200\<rparr>"
proof -
  let ?out = "takeWhile (\<lambda>b. b \<noteq> 0) (bs @ behind)" and ?t = "request_text v c q"
  let ?m = "\<lparr>m_content = bytes_of ?t, m_size = int (length ?t), m_header = None\<rparr>"
  have str: "getString ?m = Inr ?t" by (simp add: getString_def)
  obtain rest where toks: "split_bars [] ?t = v # c # rest"
      "(if rest = [] then [] else hd rest) = takeWhile (\<lambda>c. c \<noteq> CHR ''|'') q"
    using tokens_of_request [OF assms(1,2)] by blast
  have app: "app_processRequest jvm ?m =
      Inr (Some (Message_string (char_of (unat TOWA_HTTP_200) # chars_of ?out)))"
    using assms(4,5) toks(2)
    by (cases rest) (simp_all add: app_processRequest_def str toks(1) Let_def numeral_eq_Suc)
  have len: "length (char_of (unat TOWA_HTTP_200) # chars_of ?out) < 2 ^ 31"
    using assms(6) length_takeWhile_le [of "\<lambda>b. b \<noteq> 0" "bs @ behind"] by (simp add: chars_of_def)
  have "bytes_of (char_of (unat TOWA_HTTP_200) # chars_of ?out) = TOWA_HTTP_200 # ?out"
    using bytes_of_chars_of [of "TOWA_HTTP_200 # ?out"] by (simp add: chars_of_def)
  then show ?thesis
    using pipe_exchange [where callback = "app_processRequest jvm", OF assms(3) len app] by simp
qed

theorem servlet_request_reply_witness:
  "pipe_sendMsg (\<lambda>i. 0) (pipe_listenToMsg (\<lambda>i. 0)
      (app_processRequest (\<lambda>m c q. Output (Some (bytes_of q)) [0, 9]))) ''GET'' ''Test'' ''a=1|b=2'' =
   Inr \<lparr>m_content = bytes_of ''a=1'', m_size = 3, m_header = Some TOWA_HTTP_200\<rparr>"
proof -
  have "takeWhile (\<lambda>b. b \<noteq> 0) (bytes_of ''a=1'' @ [0, 9]) = bytes_of ''a=1''" by (simp add: bytes_of_def)
  then show ?thesis
    using servlet_request_reply [of "''GET''" "''Test''" "''a=1|b=2''"
        "\<lambda>m c q. Output (Some (bytes_of q)) [0, 9]" "bytes_of ''a=1''" "[0, 9]" "\<lambda>i. 0" "\<lambda>i. 0"]
    by (simp add: request_text_def bytes_of_def)
qed

end
