(* ===== verification/Sawad.thy ===== *)
theory Sawad
  imports Sawa_Server Display Pool_Invariant Towa_App_Pool
begin

text \<open>
  \<^verbatim>\<open>server/server.cpp\<close> and \<^verbatim>\<open>server/sawad.cpp\<close>: how the server process is put together, its accept
  loop, and what stopping it does.  The results of the system calls are arguments.
\<close>

section \<open>Server\<close>

definition FAILURE_CREATE_SOCKET :: int where "FAILURE_CREATE_SOCKET = 0x100"
definition FAILURE_BIND :: int where "FAILURE_BIND = 0x101"
definition FAILURE_ACCEPT :: int where "FAILURE_ACCEPT = 0x102"

text \<open>\<open>socket_desc\<close>, the port, and whether the thread of the administrative interface runs.\<close>

record server =
  socket_desc :: int
  port :: int
  admin_thread :: bool

text \<open>The constructor: a failure leaves the port in the debug information and is thrown.\<close>

definition Server :: "int \<Rightarrow> int \<Rightarrow> int \<Rightarrow> util_state \<Rightarrow> (int \<times> util_state) + server" where
  "Server socket_rc bind_rc prt u =
     (if socket_rc = -1 then Inl (FAILURE_CREATE_SOCKET, setDebugInfo_int prt u)
      else if bind_rc < 0 then Inl (FAILURE_BIND, setDebugInfo_int prt u)
      else Inr \<lparr>socket_desc = socket_rc, port = prt, admin_thread = True\<rparr>)"

text \<open>
  The loop of \<open>start\<close> over what \<open>accept\<close> returns: it ends at a zero, and the code behind it throws
  for a negative value.  The connections it hands to the pool come with the address \<open>new\<close> would
  return and the result of \<open>pthread_create\<close>.
\<close>

datatype start_result = Started_forever thread_pool | Start_thrown int | Start_fault fault

fun server_start :: "(int \<times> nat \<times> int) list \<Rightarrow> thread_pool \<Rightarrow> start_result" where
  "server_start [] tp = Started_forever tp"
| "server_start ((sock, p, rc) # accepts) tp =
     (if sock \<noteq> 0 then
        (case handleNewConnection p rc sock tp of
           Inl e \<Rightarrow> Start_fault e
         | Inr tp \<Rightarrow> server_start accepts tp)
      else if sock < 0 then Start_thrown FAILURE_ACCEPT
      else Started_forever tp)"

text \<open>
  \<open>stop\<close> deletes the administrative interface and then the pool.  It returns only when the destructor
  of the pool does; \<open>None\<close>: the process was ended in it, and the display is not cleaned up.
\<close>

definition server_stop :: "server \<Rightarrow> thread_pool \<Rightarrow> fault + server option" where
  "server_stop srv tp =
     sbind (destroy_pool tp)
       (\<lambda>r. case r of
          Pool_deleted \<Rightarrow> Inr (Some (srv\<lparr>admin_thread := False\<rparr>))
        | Process_killed a \<Rightarrow> Inr None)"

section \<open>main\<close>

record options =
  o_daemon :: bool
  o_debug :: bool
  o_towa :: bool
  o_quiet :: bool
  o_http :: bool

text \<open>The loop over the arguments; \<open>None\<close> when \<open>-help\<close> ends the program.\<close>

fun parse_options :: "string list \<Rightarrow> options \<Rightarrow> options option" where
  "parse_options [] o' = Some o'"
| "parse_options (a # as) o' =
     (let o1 = (if a = ''-daemon'' then o'\<lparr>o_daemon := True\<rparr> else o');
          o2 = (if a = ''-debug'' then o1\<lparr>o_debug := True\<rparr> else o1);
          o3 = (if a = ''-towa'' then o2\<lparr>o_towa := True\<rparr> else o2);
          o4 = (if a = ''-quiet'' then o3\<lparr>o_quiet := True\<rparr> else o3)
      in if a = ''-help'' then None
         else parse_options as (if a = ''-http'' then o4\<lparr>o_http := True\<rparr> else o4))"

definition no_options :: options where
  "no_options = \<lparr>o_daemon = False, o_debug = False, o_towa = False, o_quiet = False, o_http = False\<rparr>"

definition display_code :: "options \<Rightarrow> int" where
  "display_code o' =
     (if o_daemon o' then DISPLAY_DAEMON else if o_debug o' then DISPLAY_DEBUG
      else if o_quiet o' then DISPLAY_QUIET else DISPLAY_DEFAULT)"

text \<open>
  The environment of a start: the results of \<open>socket\<close>, \<open>bind\<close>, the \<open>pthread_mutex_init\<close> of the display
  and the two of the pool, and \<open>setsid\<close>; the filesystem file, whether it can be created, and \<open>errno\<close> if
  not; for ToWa the results of the two \<open>mknod\<close>, the class path, its \<open>web.xml\<close> files, and the results of
  \<open>fork\<close> and \<open>waitpid\<close>.
\<close>

record environment =
  e_socket :: int
  e_bind :: int
  e_display_mutex :: int
  e_mutexes :: "int \<times> int"
  e_setsid :: int
  e_file :: "byte list option"
  e_creatable :: bool
  e_room :: nat
  e_errno :: int
  e_pipes :: "(int \<times> int) \<times> (int \<times> int)"
  e_classpath :: "(string \<times> dir_type) list"
  e_web_xml :: "string \<Rightarrow> file_contents"
  e_app_pool :: "int \<times> int"

text \<open>
  What the process that serves is made of.  \<open>fork\<close> gives the child one thread, a copy of the calling
  one: \<open>fork_child\<close>.
\<close>

record process =
  p_server :: server
  p_pool :: thread_pool
  p_file :: "stream_file option"
  p_display :: display

definition fork_child :: "process \<Rightarrow> process" where
  "fork_child p = p\<lparr>p_server := (p_server p)\<lparr>admin_thread := False\<rparr>\<rparr>"

datatype outcome = Usage_printed | Message string | Serving process | Exit_failure | Terminated

text \<open>\<open>fork_rc\<close> is 0 in the child; the parent exits.\<close>

definition start_as_daemon :: "int \<Rightarrow> int \<Rightarrow> process \<Rightarrow> outcome option" where
  "start_as_daemon fork_rc setsid_rc p =
     (if fork_rc < 0 then Some Exit_failure
      else if 0 < fork_rc then None
      else if setsid_rc < 0 then Some Exit_failure
      else Some (Serving (fork_child p)))"

text \<open>
  \<open>new HTTPServer()\<close> and \<open>new SawaServer()\<close>, which run after the base class has started the
  administrative thread.  An integer that is thrown comes with the debug information.
\<close>

datatype 'a start = Started 'a | Start_throws int util_state | Start_dies

definition HTTPServer :: "bool \<Rightarrow> environment \<Rightarrow> util_state \<Rightarrow> server start" where
  "HTTPServer towa_flag e u =
     (case Server (e_socket e) (e_bind e) 8080 u of
        Inl (code, u) \<Rightarrow> Start_throws code u
      | Inr srv \<Rightarrow>
          if \<not> towa_flag then Started srv
          else
            (case TowaMgr namedpipe (fst (e_pipes e)) (snd (e_pipes e)) of
               Ok_mgr t \<Rightarrow>
                 (case mgr_start (e_web_xml e) (e_classpath e) (fst (e_app_pool e)) (snd (e_app_pool e)) of
                    Ok_mgr pid \<Rightarrow> Started srv
                  | Thrown code \<Rightarrow> Start_throws code u
                  | _ \<Rightarrow> Start_dies)
             | Thrown code \<Rightarrow> Start_throws code u
             | _ \<Rightarrow> Start_dies))"

definition new_server :: "options \<Rightarrow> environment \<Rightarrow> util_state \<Rightarrow> (server \<times> stream_file option) start" where
  "new_server o' e u =
     (if o_http o' then
        (case HTTPServer (o_towa o') e u of
           Started srv \<Rightarrow> Started (srv, None)
         | Start_throws code u \<Rightarrow> Start_throws code u
         | Start_dies \<Rightarrow> Start_dies)
      else
        (case Server (e_socket e) (e_bind e) 5000 u of
           Inl (code, u) \<Rightarrow> Start_throws code u
         | Inr srv \<Rightarrow>
             (case getFilesystemFile (e_file e) (e_creatable e) (e_room e) 2048 of
                Inl code \<Rightarrow>
                  Start_throws code (setDebugInfo_string ''./filesystem'' (setDebugInfo_int (e_errno e) u))
              | Inr f \<Rightarrow> Started (srv, Some f))))"

text \<open>The whole of \<open>main\<close>; in daemon mode the outcome is that of the child (\<open>fork\<close> succeeded).\<close>

definition sawad_main :: "string list \<Rightarrow> environment \<Rightarrow> outcome" where
  "sawad_main argv e =
     (let u = \<lparr>debug_int = 0, debug_str = []\<rparr>
      in case parse_options argv no_options of
           None \<Rightarrow> Usage_printed
         | Some o' \<Rightarrow>
             (case select_display (display_code o') (o_http o') (e_display_mutex e) of
                Inl code \<Rightarrow> Message (displayError code u)
              | Inr screen \<Rightarrow>
                  (case new_server o' e u of
                     Start_dies \<Rightarrow> Terminated
                   | Start_throws code u \<Rightarrow> Message (displayError code u)
                   | Started (srv, f) \<Rightarrow>
                       (case ThreadPool (fst (e_mutexes e)) (snd (e_mutexes e)) of
                          Inl code \<Rightarrow> Message (displayError code u)
                        | Inr tp \<Rightarrow>
                            let p = \<lparr>p_server = srv, p_pool = tp, p_file = f, p_display = screen\<rparr>
                            in if o_daemon o'
                               then (case start_as_daemon 0 (e_setsid e) p of
                                       None \<Rightarrow> Exit_failure | Some r \<Rightarrow> r)
                               else Serving p))))"

section \<open>Starting\<close>

lemma parse_options_None: "parse_options as o' = None \<longleftrightarrow> ''-help'' \<in> set as"
  by (induction "as" arbitrary: o') (auto simp: Let_def)

lemma parse_options_daemon:
  "parse_options as o' = Some p \<Longrightarrow>
   (o_daemon p \<longleftrightarrow> o_daemon o' \<or> ''-daemon'' \<in> set as) \<and> (o_http p \<longleftrightarrow> o_http o' \<or> ''-http'' \<in> set as)"
  by (induction "as" arbitrary: o') (auto simp: Let_def split: if_splits)

lemma new_server_admin: "new_server o' e u = Started (srv, f) \<Longrightarrow> admin_thread srv"
  by (auto simp: new_server_def HTTPServer_def Server_def split: sum.splits start.splits mgr.splits if_splits)

text \<open>
  In daemon mode the process that serves has no administrative interface: its thread is started by
  the server's constructor, before \<open>fork\<close>, and is not copied.  Without \<open>-daemon\<close> it has one.
\<close>

theorem daemon_has_no_admin:
  assumes "sawad_main argv e = Serving p"
  shows "admin_thread (p_server p) \<longleftrightarrow> ''-daemon'' \<notin> set argv"
proof -
  obtain o' where o': "parse_options argv no_options = Some o'"
    using assms by (cases "parse_options argv no_options") (simp_all add: sawad_main_def Let_def)
  have d: "o_daemon o' \<longleftrightarrow> ''-daemon'' \<in> set argv"
    using parse_options_daemon [OF o'] by (simp add: no_options_def)
  obtain srv f tp screen where srv: "new_server o' e \<lparr>debug_int = 0, debug_str = []\<rparr> = Started (srv, f)"
    and p: "p = (let q = \<lparr>p_server = srv, p_pool = tp, p_file = f, p_display = screen\<rparr>
      in if o_daemon o' then fork_child q else q)"
    using assms
    by (auto simp: sawad_main_def o' Let_def start_as_daemon_def split: sum.splits start.splits if_splits)
  have "admin_thread srv" using new_server_admin [OF srv] .
  with d show ?thesis by (simp add: p fork_child_def Let_def)
qed

definition good_environment :: environment where
  "good_environment = \<lparr>e_socket = 3, e_bind = 0, e_display_mutex = 0, e_mutexes = (0, 0), e_setsid = 5, e_file = Some [],
     e_creatable = True, e_room = 0, e_errno = 0, e_pipes = ((0, 0), (0, 0)), e_classpath = [],
     e_web_xml = (\<lambda>p. No_file), e_app_pool = (7, 0)\<rparr>"

theorem daemon_has_no_admin_witness:
  "\<exists>p. sawad_main [''-daemon''] good_environment = Serving p \<and> \<not> admin_thread (p_server p)"
proof -
  obtain p where "sawad_main [''-daemon''] good_environment = Serving p"
    by (simp add: sawad_main_def no_options_def new_server_def Server_def good_environment_def
        getFilesystemFile_def ThreadPool_def Let_def start_as_daemon_def select_display_def display_code_def
        display_defs)
  then show ?thesis using daemon_has_no_admin [of "[''-daemon'']" good_environment p] by auto
qed

section \<open>Accepting\<close>

lemma server_start_no_throw: "server_start accepts tp \<noteq> Start_thrown e"
  by (induction accepts tp rule: server_start.induct) (auto split: sum.splits)

text \<open>
  A failed \<open>accept\<close> is not noticed: its \<open>-1\<close> counts as a connection, so the loop never throws
  \<open>FAILURE_ACCEPT\<close>, and every failure creates or wakes a thread on the socket \<open>-1\<close>.
\<close>

theorem accept_failure_served:
  "server_start accepts tp \<noteq> Start_thrown FAILURE_ACCEPT \<and>
   server_start ((-1, p, rc) # accepts) tp =
     (case handleNewConnection p rc (-1) tp of
        Inl e \<Rightarrow> Start_fault e | Inr tp' \<Rightarrow> server_start accepts tp')"
  using server_start_no_throw by simp

end
