(* ===== verification/Towa_Race.thy ===== *)
theory Towa_Race
  imports Towa_Ipc
begin

text \<open>
  The web server has one \<open>TowaPipe\<close> for all its connection threads (\<^verbatim>\<open>server/http_srv.cpp\<close>), and
  \<open>TowaPipe::sendMsg\<close> of \<^verbatim>\<open>server/towa_ipc.cpp\<close> keeps the open ends in two fields of it, without a lock.
  Here every library call of \<open>sendMsg\<close> and \<open>listenToMsg\<close> is a step, and a schedule says in which order the
  threads and the application pool take them.  A lone request always gets what the function
  \<open>pipe_sendMsg\<close> computes; with two the steps can mix.
\<close>

section \<open>State\<close>

text \<open>Where a thread is in \<open>sendMsg\<close>; \<open>Opening\<close> is blocked in \<open>fopen\<close>.\<close>

datatype client_pc = Opening_ping | Ping_open | Ping_sent | Opening_pong | Pong_open | Answer_read | Returned

record client =
  cl_pc :: client_pc
  cl_request :: "byte list"
  cl_answer :: "message option"

text \<open>The application pool, with the request it has read and the reply it computed.\<close>

datatype pool_pc =
    Pool_opening_ping
  | Pool_reading
  | Pool_read "byte list"
  | Pool_opening_pong "byte list"
  | Pool_replying "byte list"
  | Pool_ended fault

text \<open>
  \<open>streams\<close> are the streams of the web server that are open, with what is in their buffers; \<open>ping\<close> and \<open>pong\<close>
  hold the bytes in the two named pipes.
\<close>

record ipc =
  fp_ping :: nat
  fp_pong :: nat
  streams :: "nat \<Rightarrow> byte list option"
  fopened :: nat
  ping :: "byte list"
  pong :: "byte list"
  pool :: pool_pc
  clients :: "client list"

text \<open>How the web server can come to an end; the signal is not handled.\<close>

datatype crash = Fault fault | Sigpipe

definition client_at :: "nat \<Rightarrow> client_pc \<Rightarrow> ipc \<Rightarrow> bool" where
  "client_at t pc s \<longleftrightarrow> t < length (clients s) \<and> cl_pc (clients s ! t) = pc"

definition some_client :: "client_pc set \<Rightarrow> ipc \<Rightarrow> bool" where
  "some_client pcs s \<longleftrightarrow> list_ex (\<lambda>c. cl_pc c \<in> pcs) (clients s)"

definition set_pc :: "nat \<Rightarrow> client_pc \<Rightarrow> ipc \<Rightarrow> ipc" where
  "set_pc t pc s = s\<lparr>clients := (clients s)[t := (clients s ! t)\<lparr>cl_pc := pc\<rparr>]\<rparr>"

definition new_stream :: "ipc \<Rightarrow> ipc" where
  "new_stream s = s\<lparr>streams := (streams s)(fopened s \<mapsto> []), fopened := fopened s + 1\<rparr>"

text \<open>The first message in a pipe, once all of it is there; what there is when no more can come.\<close>

definition first_frame :: "byte list \<Rightarrow> byte list option" where
  "first_frame bs =
     (let n = 4 + nat (sint (load32 (take 4 bs)))
      in if 4 \<le> length bs \<and> n \<le> length bs then Some (take n bs) else None)"

definition readable :: "bool \<Rightarrow> byte list \<Rightarrow> byte list option" where
  "readable eof bs = (case first_frame bs of Some m \<Rightarrow> Some m | None \<Rightarrow> if eof then Some bs else None)"

section \<open>Steps\<close>

text \<open>
  A read that fills the buffer of a stream may take more from the pipe than the message: \<open>Pool_reads k\<close> and
  \<open>Receive t k\<close> take \<open>k\<close> bytes.  What is left in a pipe is lost when its last end is closed.
\<close>

datatype event =
    Open_ping nat | Send nat | Close_ping nat | Open_pong nat | Receive nat nat | Close_pong nat
  | Pool_reads nat | Pool_closes_ping | Pool_replies

text \<open>
  \<open>fopen\<close> of one end of a named pipe returns when the other end is open; the open that waits at the other
  end returns with it.
\<close>

definition open_ping :: "nat \<Rightarrow> ipc \<Rightarrow> ipc option" where
  "open_ping t s =
     (let s' = set_pc t Ping_open ((new_stream s)\<lparr>fp_ping := fopened s\<rparr>)
      in case pool s of
           Pool_opening_ping \<Rightarrow> Some (s'\<lparr>pool := Pool_reading\<rparr>)
         | Pool_reading \<Rightarrow> Some s'
         | Pool_read m \<Rightarrow> Some s'
         | _ \<Rightarrow> None)"

definition open_pong :: "nat \<Rightarrow> ipc \<Rightarrow> ipc option" where
  "open_pong t s =
     (let s' = set_pc t Pong_open ((new_stream s)\<lparr>fp_pong := fopened s\<rparr>)
      in case pool s of
           Pool_opening_pong reply \<Rightarrow> Some (s'\<lparr>pool := Pool_replying reply\<rparr>)
         | Pool_replying reply \<Rightarrow> Some s'
         | _ \<Rightarrow> None)"

text \<open>A stream that is used after \<open>fclose\<close> is memory that was freed.\<close>

definition send_request :: "nat \<Rightarrow> ipc \<Rightarrow> crash + ipc" where
  "send_request t s =
     (case streams s (fp_ping s) of
        None \<Rightarrow> Inl (Fault Use_after_free)
      | Some buf \<Rightarrow>
          Inr (set_pc t Ping_sent (s\<lparr>streams := (streams s)(fp_ping s \<mapsto> buf @ cl_request (clients s ! t))\<rparr>)))"

text \<open>\<open>fclose\<close> writes the buffer to the pipe, which somebody must have open for reading.\<close>

definition close_ping :: "nat \<Rightarrow> ipc \<Rightarrow> crash + ipc" where
  "close_ping t s =
     (case streams s (fp_ping s) of
        None \<Rightarrow> Inl (Fault Use_after_free)
      | Some buf \<Rightarrow>
          let s' = set_pc t Opening_pong (s\<lparr>streams := (streams s)(fp_ping s := None), ping := ping s @ buf\<rparr>)
          in case pool s of
               Pool_opening_ping \<Rightarrow> Inr s'
             | Pool_reading \<Rightarrow> Inr s'
             | Pool_read m \<Rightarrow> Inr s'
             | _ \<Rightarrow> if buf = [] then Inr s' else Inl Sigpipe)"

definition pong_written :: "ipc \<Rightarrow> bool" where
  "pong_written s = (case pool s of Pool_opening_pong _ \<Rightarrow> False | Pool_replying _ \<Rightarrow> False | _ \<Rightarrow> True)"

definition receive :: "(nat \<Rightarrow> byte) \<Rightarrow> nat \<Rightarrow> nat \<Rightarrow> ipc \<Rightarrow> (crash + ipc) option" where
  "receive blk t k s =
     (if streams s (fp_pong s) = None then Some (Inl (Fault Use_after_free))
      else
        (case readable (pong_written s) (pong s) of
           None \<Rightarrow> None
         | Some m \<Rightarrow>
             if k < length m \<or> length (pong s) < k then None
             else
               (case read_message blk True m of
                  Inl f \<Rightarrow> Some (Inl (Fault f))
                | Inr answer \<Rightarrow>
                    Some (Inr (s\<lparr>pong := drop k (pong s),
                      clients := (clients s)[t := (clients s ! t)
                        \<lparr>cl_pc := Answer_read, cl_answer := Some answer\<rparr>]\<rparr>)))))"

definition close_pong :: "nat \<Rightarrow> ipc \<Rightarrow> crash + ipc" where
  "close_pong t s =
     (if streams s (fp_pong s) = None then Inl (Fault Use_after_free)
      else
        let s' = set_pc t Returned (s\<lparr>streams := (streams s)(fp_pong s := None)\<rparr>)
        in Inr (if pong_written s' \<and> \<not> some_client {Pong_open, Answer_read} s' then s'\<lparr>pong := []\<rparr> else s'))"

text \<open>\<open>sendMsg\<close>: what a thread does next.\<close>

definition client_step :: "(nat \<Rightarrow> byte) \<Rightarrow> event \<Rightarrow> ipc \<Rightarrow> (crash + ipc) option" where
  "client_step blk e s =
     (case e of
        Open_ping t \<Rightarrow> if client_at t Opening_ping s then map_option Inr (open_ping t s) else None
      | Send t \<Rightarrow> if client_at t Ping_open s then Some (send_request t s) else None
      | Close_ping t \<Rightarrow> if client_at t Ping_sent s then Some (close_ping t s) else None
      | Open_pong t \<Rightarrow> if client_at t Opening_pong s then map_option Inr (open_pong t s) else None
      | Receive t k \<Rightarrow> if client_at t Pong_open s then receive blk t k s else None
      | Close_pong t \<Rightarrow> if client_at t Answer_read s then Some (close_pong t s) else None
      | _ \<Rightarrow> None)"

text \<open>\<open>listenToMsg\<close>: \<open>other\<close> is what the pool puts into the pong pipe for a message in the ping pipe.\<close>

definition pool_step :: "(byte list \<Rightarrow> fault + byte list) \<Rightarrow> event \<Rightarrow> ipc \<Rightarrow> ipc option" where
  "pool_step other e s =
     (case (e, pool s) of
        (Pool_reads k, Pool_reading) \<Rightarrow>
          (case readable (\<not> some_client {Ping_open, Ping_sent} s) (ping s) of
             None \<Rightarrow> None
           | Some m \<Rightarrow>
               if k < length m \<or> length (ping s) < k then None
               else Some (s\<lparr>ping := drop k (ping s), pool := Pool_read m\<rparr>))
      | (Pool_closes_ping, Pool_read m) \<Rightarrow>
          Some (s\<lparr>ping := (if some_client {Ping_open, Ping_sent} s then ping s else []),
                  pool := (case other m of Inl f \<Rightarrow> Pool_ended f | Inr reply \<Rightarrow> Pool_opening_pong reply)\<rparr>)
      | (Pool_replies, Pool_replying reply) \<Rightarrow>
          Some (s\<lparr>pong := pong s @ reply, pool := Pool_opening_ping\<rparr>)
      | _ \<Rightarrow> None)"

definition ipc_step ::
  "(nat \<Rightarrow> byte) \<Rightarrow> (byte list \<Rightarrow> fault + byte list) \<Rightarrow> event \<Rightarrow> ipc \<Rightarrow> (crash + ipc) option"
where
  "ipc_step blk other e s =
     (case client_step blk e s of None \<Rightarrow> map_option Inr (pool_step other e s) | Some r \<Rightarrow> Some r)"

text \<open>A run of a schedule by a step function; \<open>None\<close> if the schedule asks for a step that cannot be taken.\<close>

fun run_events :: "(event \<Rightarrow> 's \<Rightarrow> ('c + 's) option) \<Rightarrow> event list \<Rightarrow> 's \<Rightarrow> ('c + 's) option" where
  "run_events step [] s = Some (Inr s)"
| "run_events step (e # es) s =
     (case step e s of
        None \<Rightarrow> None
      | Some (Inl c) \<Rightarrow> Some (Inl c)
      | Some (Inr s') \<Rightarrow> run_events step es s')"

text \<open>Threads that have just called \<open>sendMsg\<close>, with the pool waiting for a request.\<close>

definition calling :: "byte list list \<Rightarrow> ipc" where
  "calling reqs =
     \<lparr>fp_ping = 0, fp_pong = 0, streams = Map.empty, fopened = 0, ping = [], pong = [], pool = Pool_opening_ping,
      clients = map (\<lambda>r. \<lparr>cl_pc = Opening_ping, cl_request = r, cl_answer = None\<rparr>) reqs\<rparr>"

section \<open>One connection at a time\<close>

text \<open>A request the pool answers with a message the web server can read.\<close>

definition answered_by ::
  "(nat \<Rightarrow> byte) \<Rightarrow> (byte list \<Rightarrow> fault + byte list) \<Rightarrow> byte list \<Rightarrow> byte list \<Rightarrow> message \<Rightarrow> bool"
where
  "answered_by blk other req reply m \<longleftrightarrow>
     first_frame req = Some req \<and> other req = Inr reply \<and> first_frame reply = Some reply \<and>
     read_message blk True reply = Inr m"

definition idle :: "ipc \<Rightarrow> bool" where
  "idle s \<longleftrightarrow> pool s = Pool_opening_ping \<and> ping s = [] \<and> pong s = []"

text \<open>What the pipes, the streams and the pool are like while the thread \<open>c\<close> is in \<open>sendMsg\<close>.\<close>

definition stage :: "ipc \<Rightarrow> client \<Rightarrow> byte list \<Rightarrow> message \<Rightarrow> bool" where
  "stage s c reply m \<longleftrightarrow>
     (case cl_pc c of
        Opening_ping \<Rightarrow> idle s
      | Ping_open \<Rightarrow> pool s = Pool_reading \<and> ping s = [] \<and> pong s = [] \<and> streams s (fp_ping s) = Some []
      | Ping_sent \<Rightarrow> pool s = Pool_reading \<and> ping s = [] \<and> pong s = [] \<and> streams s (fp_ping s) = Some (cl_request c)
      | Opening_pong \<Rightarrow> pong s = [] \<and>
          (pool s = Pool_reading \<and> ping s = cl_request c \<or>
           pool s = Pool_read (cl_request c) \<and> ping s = [] \<or>
           pool s = Pool_opening_pong reply \<and> ping s = [])
      | Pong_open \<Rightarrow> ping s = [] \<and> streams s (fp_pong s) = Some [] \<and>
          (pool s = Pool_replying reply \<and> pong s = [] \<or> pool s = Pool_opening_ping \<and> pong s = reply)
      | Answer_read \<Rightarrow> idle s \<and> streams s (fp_pong s) = Some [] \<and> cl_answer c = Some m
      | Returned \<Rightarrow> idle s \<and> cl_answer c = Some m)"

definition quiet :: "client \<Rightarrow> message \<Rightarrow> bool" where
  "quiet c m \<longleftrightarrow> cl_pc c = Opening_ping \<or> cl_pc c = Returned \<and> cl_answer c = Some m"

text \<open>The thread \<open>t\<close> is in \<open>sendMsg\<close> or was there last; \<open>ms\<close> are the answers the threads are to get.\<close>

definition turn_of ::
  "(nat \<Rightarrow> byte) \<Rightarrow> (byte list \<Rightarrow> fault + byte list) \<Rightarrow> byte list list \<Rightarrow> message list \<Rightarrow> ipc \<Rightarrow> nat \<Rightarrow> bool"
where
  "turn_of blk other replies ms s t \<longleftrightarrow>
     length replies = length (clients s) \<and> length ms = length (clients s) \<and> t < length (clients s) \<and>
     (\<forall>u < length (clients s). answered_by blk other (cl_request (clients s ! u)) (replies ! u) (ms ! u)) \<and>
     (\<forall>u < length (clients s). u \<noteq> t \<longrightarrow> quiet (clients s ! u) (ms ! u)) \<and>
     stage s (clients s ! t) (replies ! t) (ms ! t)"

text \<open>The steps left until all threads have their answers, the pool's for them included.\<close>

definition steps_of :: "pool_pc \<Rightarrow> client \<Rightarrow> nat" where
  "steps_of p c =
     (case cl_pc c of
        Opening_ping \<Rightarrow> 9
      | Ping_open \<Rightarrow> 8
      | Ping_sent \<Rightarrow> 7
      | Opening_pong \<Rightarrow> (case p of Pool_reading \<Rightarrow> 6 | Pool_read _ \<Rightarrow> 5 | _ \<Rightarrow> 4)
      | Pong_open \<Rightarrow> (case p of Pool_replying _ \<Rightarrow> 3 | _ \<Rightarrow> 2)
      | Answer_read \<Rightarrow> 1
      | Returned \<Rightarrow> 0)"

definition steps_left :: "ipc \<Rightarrow> nat" where
  "steps_left s = (\<Sum>u < length (clients s). steps_of (pool s) (clients s ! u))"

definition advances ::
  "(nat \<Rightarrow> byte) \<Rightarrow> (byte list \<Rightarrow> fault + byte list) \<Rightarrow> byte list list \<Rightarrow> message list \<Rightarrow> ipc \<Rightarrow> ipc \<Rightarrow> bool"
where
  "advances blk other replies ms s s' \<longleftrightarrow>
     (\<exists>t. turn_of blk other replies ms s' t) \<and> length (clients s') = length (clients s) \<and>
     Suc (steps_left s') = steps_left s"

lemma first_frame_Nil [simp]: "first_frame [] = None"
  by (simp add: first_frame_def Let_def)

lemma readable_frame: "first_frame bs = Some bs \<Longrightarrow> readable eof bs = Some bs"
  by (simp add: readable_def)

lemma others_quiet:
  assumes "turn_of blk other replies ms s t" and "client_at u pc s" and "pc \<notin> {Opening_ping, Returned}"
  shows "u = t"
  using assms by (auto simp: turn_of_def client_at_def quiet_def)

lemma some_client_turn:
  assumes "turn_of blk other replies ms s t" and "pcs \<inter> {Opening_ping, Returned} = {}"
  shows "some_client pcs s \<longleftrightarrow> cl_pc (clients s ! t) \<in> pcs"
proof
  assume "some_client pcs s"
  then obtain u where "u < length (clients s)" "cl_pc (clients s ! u) \<in> pcs"
    by (auto simp: some_client_def list_ex_length)
  with assms show "cl_pc (clients s ! t) \<in> pcs" by (cases "u = t") (auto simp: turn_of_def quiet_def)
qed (use assms(1) in \<open>auto simp: some_client_def list_ex_length turn_of_def\<close>)

lemmas step_defs = open_ping_def open_pong_def send_request_def close_ping_def receive_def close_pong_def
  set_pc_def new_stream_def client_at_def pong_written_def Let_def

lemma turn_update:
  assumes "turn_of blk other replies ms s t" and "clients s' = (clients s)[t := c]"
    and "cl_request c = cl_request (clients s ! t)" and "stage s' c (replies ! t) (ms ! t)"
    and "Suc (steps_of (pool s') c) = steps_of (pool s) (clients s ! t)"
  shows "advances blk other replies ms s s'"
proof -
  have t: "t < length (clients s)" using assms(1) by (simp add: turn_of_def)
  have turn: "turn_of blk other replies ms s' t" using assms(1-4) by (auto simp: turn_of_def nth_list_update)
  have "steps_of (pool s') (clients s' ! u) = steps_of (pool s) (clients s ! u)" if "u < length (clients s)" "u \<noteq> t" for u
    using assms(1,2) that by (auto simp: turn_of_def quiet_def steps_of_def)
  then have "(\<Sum>u \<in> {..<length (clients s)} - {t}. steps_of (pool s') (clients s' ! u)) =
      (\<Sum>u \<in> {..<length (clients s)} - {t}. steps_of (pool s) (clients s ! u))"
    by (intro sum.cong) auto
  then have "Suc (steps_left s') = steps_left s"
    using assms(2,5) t by (simp add: steps_left_def sum.remove [of _ t])
  with turn assms(2) show ?thesis by (auto simp: advances_def)
qed

lemma open_ping_turn:
  assumes "turn_of blk other replies ms s t" and "cl_pc (clients s ! t) = Opening_ping"
  shows "\<exists>s'. open_ping t s = Some s' \<and> advances blk other replies ms s s'"
proof -
  have "idle s" using assms by (auto simp: turn_of_def stage_def)
  then obtain s' where s': "open_ping t s = Some s'" "clients s' = (clients s)[t := (clients s ! t)\<lparr>cl_pc := Ping_open\<rparr>]"
    "pool s' = Pool_reading" "ping s' = []" "pong s' = []" "streams s' (fp_ping s') = Some []"
    by (auto simp: step_defs idle_def)
  then show ?thesis using turn_update [OF assms(1) s'(2)] assms(2) by (simp add: stage_def steps_of_def)
qed

lemma send_turn:
  assumes "turn_of blk other replies ms s t" and "cl_pc (clients s ! t) = Ping_open"
  shows "\<exists>s'. send_request t s = Inr s' \<and> advances blk other replies ms s s'"
proof -
  have st: "stage s (clients s ! t) (replies ! t) (ms ! t)" using assms by (simp add: turn_of_def)
  let ?s = "set_pc t Ping_sent (s\<lparr>streams := (streams s)(fp_ping s \<mapsto> cl_request (clients s ! t))\<rparr>)"
  have "send_request t s = Inr ?s" using st assms(2) by (simp add: send_request_def stage_def)
  moreover have "advances blk other replies ms s ?s"
    using st assms(2) by (intro turn_update [OF assms(1), where c = "(clients s ! t)\<lparr>cl_pc := Ping_sent\<rparr>"]) (auto simp: stage_def steps_of_def set_pc_def)
  ultimately show ?thesis by blast
qed

lemma close_ping_turn:
  assumes "turn_of blk other replies ms s t" and "cl_pc (clients s ! t) = Ping_sent"
  shows "\<exists>s'. close_ping t s = Inr s' \<and> advances blk other replies ms s s'"
proof -
  have st: "stage s (clients s ! t) (replies ! t) (ms ! t)" using assms by (simp add: turn_of_def)
  let ?s = "set_pc t Opening_pong (s\<lparr>streams := (streams s)(fp_ping s := None), ping := cl_request (clients s ! t)\<rparr>)"
  have "close_ping t s = Inr ?s" using st assms(2) by (simp add: close_ping_def stage_def Let_def)
  moreover have "advances blk other replies ms s ?s"
    using st assms(2) by (intro turn_update [OF assms(1), where c = "(clients s ! t)\<lparr>cl_pc := Opening_pong\<rparr>"]) (auto simp: stage_def steps_of_def set_pc_def)
  ultimately show ?thesis by blast
qed

lemma open_pong_turn:
  assumes "turn_of blk other replies ms s t" and "cl_pc (clients s ! t) = Opening_pong" and "open_pong t s = Some s'"
  shows "advances blk other replies ms s s'"
proof -
  have st: "stage s (clients s ! t) (replies ! t) (ms ! t)" using assms by (simp add: turn_of_def)
  then have s': "clients s' = (clients s)[t := (clients s ! t)\<lparr>cl_pc := Pong_open\<rparr>]"
    "pool s = Pool_opening_pong (replies ! t)" "pool s' = Pool_replying (replies ! t)" "ping s' = []" "pong s' = []"
    "streams s' (fp_pong s') = Some []"
    using assms(2,3) by (auto simp: step_defs stage_def)
  then show ?thesis using turn_update [OF assms(1) s'(1)] assms(2) by (simp add: stage_def steps_of_def)
qed

lemma receive_turn:
  assumes "turn_of blk other replies ms s t" and "cl_pc (clients s ! t) = Pong_open" and "receive blk t k s = Some r"
  shows "\<exists>s'. r = Inr s' \<and> advances blk other replies ms s s'"
proof -
  have st: "stage s (clients s ! t) (replies ! t) (ms ! t)"
    and an: "answered_by blk other (cl_request (clients s ! t)) (replies ! t) (ms ! t)"
    using assms by (simp_all add: turn_of_def)
  let ?s = "s\<lparr>pong := [], clients := (clients s)[t := (clients s ! t)\<lparr>cl_pc := Answer_read, cl_answer := Some (ms ! t)\<rparr>]\<rparr>"
  have p: "pool s = Pool_opening_ping" "pong s = replies ! t" "k = length (replies ! t)" "r = Inr ?s"
    using st an assms(2,3) readable_frame [of "replies ! t"]
    by (auto simp: stage_def steps_of_def answered_by_def receive_def pong_written_def readable_def split: if_splits)
  moreover have "advances blk other replies ms s ?s"
    using st assms(2) p by (intro turn_update [OF assms(1), where c = "(clients s ! t)\<lparr>cl_pc := Answer_read, cl_answer := Some (ms ! t)\<rparr>"]) (auto simp: stage_def steps_of_def idle_def)
  ultimately show ?thesis by blast
qed

lemma close_pong_turn:
  assumes "turn_of blk other replies ms s t" and "cl_pc (clients s ! t) = Answer_read"
  shows "\<exists>s'. close_pong t s = Inr s' \<and> advances blk other replies ms s s'"
proof -
  have st: "stage s (clients s ! t) (replies ! t) (ms ! t)" using assms by (simp add: turn_of_def)
  let ?s = "set_pc t Returned (s\<lparr>streams := (streams s)(fp_pong s := None)\<rparr>)"
  have s: "advances blk other replies ms s ?s"
    using st assms(2) by (intro turn_update [OF assms(1), where c = "(clients s ! t)\<lparr>cl_pc := Returned\<rparr>"]) (auto simp: stage_def steps_of_def set_pc_def idle_def)
  have "pong ?s = []" using st assms(2) by (simp add: stage_def idle_def set_pc_def)
  then have "?s\<lparr>pong := []\<rparr> = ?s" by simp
  then have "close_pong t s = Inr ?s"
    using st assms(2) by (simp add: close_pong_def stage_def Let_def)
  with s show ?thesis by blast
qed

lemma pool_turn:
  assumes "turn_of blk other replies ms s t" and "pool_step other e s = Some s'"
  shows "advances blk other replies ms s s'"
proof -
  let ?c = "clients s ! t"
  have st: "stage s ?c (replies ! t) (ms ! t)" and an: "answered_by blk other (cl_request ?c) (replies ! t) (ms ! t)"
    using assms by (simp_all add: turn_of_def)
  have w: "some_client {Ping_open, Ping_sent} s \<longleftrightarrow> cl_pc ?c \<in> {Ping_open, Ping_sent}"
    using some_client_turn [OF assms(1)] by simp
  have "clients s' = clients s" "stage s' ?c (replies ! t) (ms ! t)"
    "Suc (steps_of (pool s') ?c) = steps_of (pool s) ?c"
    using assms(2) st an w readable_frame [of "cl_request ?c"]
    by (auto simp: pool_step_def steps_of_def stage_def answered_by_def idle_def readable_def
        split: event.splits pool_pc.splits client_pc.splits option.splits if_splits)
  with turn_update [OF assms(1), of s' ?c] assms(1) show ?thesis by (simp add: turn_of_def)
qed

text \<open>With one thread, every step of the code is the next one of its turn.\<close>

lemma lone_step_advances:
  assumes "turn_of blk other replies ms s 0" and "length (clients s) = 1" and "ipc_step blk other e s = Some r"
  shows "\<exists>s'. r = Inr s' \<and> turn_of blk other replies ms s' 0 \<and> length (clients s') = 1 \<and>
    Suc (steps_left s') = steps_left s"
proof -
  note turn = assms(1)
  have at: "client_at u pc s \<longleftrightarrow> u = 0 \<and> cl_pc (clients s ! 0) = pc" for u pc
    using assms(2) by (auto simp: client_at_def)
  have "\<exists>s'. r = Inr s' \<and> advances blk other replies ms s s'"
  proof (cases e)
    case (Open_ping u)
    with assms(3) open_ping_turn [OF turn] show ?thesis
      by (auto simp: ipc_step_def client_step_def pool_step_def at split: if_splits)
  next
    case (Send u)
    with assms(3) send_turn [OF turn] show ?thesis
      by (auto simp: ipc_step_def client_step_def pool_step_def at split: if_splits)
  next
    case (Close_ping u)
    with assms(3) close_ping_turn [OF turn] show ?thesis
      by (auto simp: ipc_step_def client_step_def pool_step_def at split: if_splits)
  next
    case (Open_pong u)
    with assms(3) open_pong_turn [OF turn] show ?thesis
      by (auto simp: ipc_step_def client_step_def pool_step_def at split: if_splits option.splits)
  next
    case (Receive u k)
    with assms(3) receive_turn [OF turn, of k r] show ?thesis
      by (auto simp: ipc_step_def client_step_def pool_step_def at split: if_splits option.splits)
  next
    case (Close_pong u)
    with assms(3) close_pong_turn [OF turn] show ?thesis
      by (auto simp: ipc_step_def client_step_def pool_step_def at split: if_splits)
  qed (use assms(3) pool_turn [OF turn] in \<open>auto simp: ipc_step_def client_step_def\<close>)
  then obtain s' t where s': "r = Inr s'" "turn_of blk other replies ms s' t"
      "length (clients s') = 1" "Suc (steps_left s') = steps_left s"
    using assms(2) by (auto simp: advances_def)
  then have "t = 0" by (simp add: turn_of_def)
  with s' show ?thesis by blast
qed

lemma lone_run_advances:
  assumes "turn_of blk other replies ms s 0" and "length (clients s) = 1"
    and "run_events (ipc_step blk other) es s = Some r"
  shows "\<exists>s'. r = Inr s' \<and> turn_of blk other replies ms s' 0 \<and> length (clients s') = 1 \<and>
    length es + steps_left s' = steps_left s"
  using assms
proof (induction es arbitrary: s)
  case Nil
  then show ?case by auto
next
  case (Cons e es)
  obtain r1 where r1: "ipc_step blk other e s = Some r1"
    using Cons.prems(3) by (cases "ipc_step blk other e s") auto
  obtain s1 where s1: "r1 = Inr s1" "turn_of blk other replies ms s1 0" "length (clients s1) = 1"
    "Suc (steps_left s1) = steps_left s"
    using lone_step_advances [OF Cons.prems(1,2) r1] by blast
  have "run_events (ipc_step blk other) es s1 = Some r" using Cons.prems(3) r1 s1(1) by simp
  from Cons.IH [OF s1(2,3) this] s1(4) show ?case by auto
qed

text \<open>Some step is possible until the thread has its answer.\<close>

lemma lone_step_enabled:
  assumes "turn_of blk other replies ms s 0" and "cl_pc (clients s ! 0) \<noteq> Returned"
  shows "\<exists>e. ipc_step blk other e s \<noteq> None"
proof -
  let ?c = "clients s ! 0"
  have st: "stage s ?c (replies ! 0) (ms ! 0)" and an: "answered_by blk other (cl_request ?c) (replies ! 0) (ms ! 0)"
    and t: "0 < length (clients s)"
    using assms by (simp_all add: turn_of_def)
  note defs = ipc_step_def client_step_def client_at_def pool_step_def
  show ?thesis
  proof (cases "cl_pc ?c")
    case Opening_ping
    then obtain s' where "open_ping 0 s = Some s'" using open_ping_turn [OF assms(1)] by blast
    with t Opening_ping show ?thesis by (intro exI [of _ "Open_ping 0"]) (simp add: defs)
  next
    case Opening_pong
    then consider "pool s = Pool_reading" "ping s = cl_request ?c" | "pool s = Pool_read (cl_request ?c)"
      | "pool s = Pool_opening_pong (replies ! 0)"
      using st by (auto simp: stage_def)
    then show ?thesis
    proof cases
      case 1
      with an readable_frame [of "cl_request ?c"] show ?thesis
        by (intro exI [of _ "Pool_reads (length (cl_request ?c))"]) (simp add: defs answered_by_def)
    next
      case 2
      then show ?thesis by (intro exI [of _ Pool_closes_ping]) (simp add: defs)
    next
      case 3
      with t Opening_pong show ?thesis by (intro exI [of _ "Open_pong 0"]) (simp add: defs open_pong_def Let_def)
    qed
  next
    case Pong_open
    then consider "pool s = Pool_replying (replies ! 0)" | "pool s = Pool_opening_ping" "pong s = replies ! 0"
      using st by (auto simp: stage_def)
    then show ?thesis
    proof cases
      case 1
      then show ?thesis by (intro exI [of _ Pool_replies]) (simp add: defs)
    next
      case 2
      with t Pong_open st an readable_frame [of "replies ! 0"] show ?thesis
        by (intro exI [of _ "Receive 0 (length (replies ! 0))"]) (simp add: defs receive_def stage_def answered_by_def)
    qed
  next
    case Ping_open
    with t show ?thesis by (intro exI [of _ "Send 0"]) (simp add: defs)
  next
    case Ping_sent
    with t show ?thesis by (intro exI [of _ "Close_ping 0"]) (simp add: defs)
  next
    case Answer_read
    with t show ?thesis by (intro exI [of _ "Close_pong 0"]) (simp add: defs)
  qed (use assms(2) in simp)
qed

text \<open>What \<open>sendMsg\<close> of a verb, a class and a query puts into the ping pipe, and when it is answered properly.\<close>

definition request_bytes :: "string \<times> string \<times> string \<Rightarrow> byte list" where
  "request_bytes = (\<lambda>(v, c, q). le32 (of_nat (length (request_text v c q))) @ bytes_of (request_text v c q))"

definition answerable ::
  "(nat \<Rightarrow> byte) \<Rightarrow> (byte list \<Rightarrow> fault + byte list) \<Rightarrow> string \<times> string \<times> string \<Rightarrow> bool"
where
  "answerable blk other = (\<lambda>(v, c, q).
     length (request_text v c q) < 2 ^ 31 \<and>
     (case other (request_bytes (v, c, q)) of
        Inl f \<Rightarrow> False
      | Inr reply \<Rightarrow> first_frame reply = Some reply \<and> (case read_message blk True reply of Inl f \<Rightarrow> False | Inr m \<Rightarrow> True)))"

lemma request_frame: "length (request_text v c q) < 2 ^ 31 \<Longrightarrow> first_frame (request_bytes (v, c, q)) = Some (request_bytes (v, c, q))"
  using sint_of_nat_u32 [of "length (request_text v c q)"]
  by (simp add: first_frame_def request_bytes_def Let_def)

lemma answerable_pipe:
  assumes "answerable blk other (v, c, q)"
  obtains reply m where "answered_by blk other (request_bytes (v, c, q)) reply m"
    and "pipe_sendMsg blk other v c q = Inr m"
  using assms request_frame [of v c q]
  by (auto simp: answerable_def answered_by_def pipe_sendMsg_def sendTo_string request_bytes_def split: sum.splits)

text \<open>
  C13: With one connection in \<open>sendMsg\<close> and the pipes empty, whatever order the connection and the
  application pool take their steps in (the calls of \<open>sendMsg\<close> and of \<open>listenToMsg\<close>, the two ends of a
  named pipe opening together), for a request that the pool answers with a message the web server can
  read: nothing is used after it was closed, no \<open>SIGPIPE\<close> is raised, the two never wait for each other,
  and after exactly nine steps the connection has returned with what the function \<open>pipe_sendMsg\<close>
  computes, the pipes are empty and the pool waits for the next request.
\<close>

theorem lone_request_answered:
  assumes "idle s0" and "clients s0 = [\<lparr>cl_pc = Opening_ping, cl_request = request_bytes (v, c, q), cl_answer = a\<rparr>]"
    and "answerable blk other (v, c, q)" and "run_events (ipc_step blk other) es s0 = Some r"
  shows "\<exists>s. r = Inr s \<and> length es \<le> 9 \<and>
    (if length es = 9
     then idle s \<and> (\<exists>cl. clients s = [cl] \<and> cl_pc cl = Returned \<and>
       pipe_sendMsg blk other v c q = Inr (the (cl_answer cl)))
     else \<exists>e. ipc_step blk other e s \<noteq> None)"
proof -
  obtain reply m where an: "answered_by blk other (request_bytes (v, c, q)) reply m"
    and m: "pipe_sendMsg blk other v c q = Inr m"
    using answerable_pipe [OF assms(3)] .
  have turn: "turn_of blk other [reply] [m] s0 0" and "length (clients s0) = 1" and nine: "steps_left s0 = 9"
    using an assms(1,2) by (simp_all add: turn_of_def stage_def steps_left_def steps_of_def)
  then obtain s where s: "r = Inr s" "turn_of blk other [reply] [m] s 0" "length (clients s) = 1"
      "length es + steps_left s = 9"
    using lone_run_advances [OF turn _ assms(4)] by auto
  then obtain cl where cl: "clients s = [cl]" by (auto simp: length_Suc_conv)
  have zero: "steps_left s = 0 \<longleftrightarrow> cl_pc cl = Returned"
    using cl by (auto simp: steps_left_def steps_of_def split: client_pc.splits pool_pc.splits)
  show ?thesis
  proof (cases "length es = 9")
    case True
    with s(4) zero have "cl_pc cl = Returned" by simp
    then have "idle s" "cl_answer cl = Some m" using s(2) cl by (simp_all add: turn_of_def stage_def)
    with True s(1) cl \<open>cl_pc cl = Returned\<close> m show ?thesis by simp
  next
    case False
    with s(4) zero have "cl_pc cl \<noteq> Returned" by auto
    with lone_step_enabled [OF s(2)] cl have "\<exists>e. ipc_step blk other e s \<noteq> None" by simp
    with False s show ?thesis by simp
  qed
qed

text \<open>A pool that answers every request with the bytes A and B.\<close>

definition answers_AB :: "byte list \<Rightarrow> fault + byte list" where
  "answers_AB msg = Inr (le32 2 @ [0x41, 0x42])"

lemma answers_AB:
  "length (request_text v c q) < 2 ^ 31 \<Longrightarrow> answerable (\<lambda>i. 0) answers_AB (v, c, q)"
  "pipe_sendMsg (\<lambda>i. 0) answers_AB v c q = Inr \<lparr>m_content = [0x42], m_size = 1, m_header = Some 0x41\<rparr>"
proof -
  have rd: "read_message (\<lambda>i. 0) True (le32 2 @ [0x41, 0x42]) = Inr \<lparr>m_content = [0x42], m_size = 1, m_header = Some 0x41\<rparr>"
    using read_message_header [of "[0x42]" "\<lambda>i. 0" "0x41"] by simp
  show "length (request_text v c q) < 2 ^ 31 \<Longrightarrow> answerable (\<lambda>i. 0) answers_AB (v, c, q)"
    using rd by (simp add: answerable_def answers_AB_def first_frame_def Let_def)
  show "pipe_sendMsg (\<lambda>i. 0) answers_AB v c q = Inr \<lparr>m_content = [0x42], m_size = 1, m_header = Some 0x41\<rparr>"
    using rd by (simp add: pipe_sendMsg_def sendTo_string answers_AB_def)
qed

text \<open>The nine steps of one request, in the order the code can take them.\<close>

definition lone_run :: "byte list \<Rightarrow> byte list \<Rightarrow> event list" where
  "lone_run request reply =
     [Open_ping 0, Send 0, Close_ping 0, Pool_reads (length request), Pool_closes_ping, Open_pong 0,
      Pool_replies, Receive 0 (length reply), Close_pong 0]"

lemma lone_run_possible:
  assumes "answered_by blk other req reply m"
  shows "run_events (ipc_step blk other) (lone_run req reply) (calling [req]) \<noteq> None"
proof -
  have fr: "readable eof req = Some req" "readable eof reply = Some reply" for eof
    using assms by (simp_all add: answered_by_def readable_frame)
  have o: "other req = Inr reply" "read_message blk True reply = Inr m"
    using assms by (simp_all add: answered_by_def)
  show ?thesis
    by (simp add: lone_run_def calling_def ipc_step_def client_step_def pool_step_def step_defs some_client_def fr o)
qed

theorem lone_request_answered_witness:
  "\<exists>s cl. run_events (ipc_step (\<lambda>i. 0) answers_AB)
      (lone_run (request_bytes (''GET'', ''T'', [])) (le32 2 @ [0x41, 0x42]))
      (calling [request_bytes (''GET'', ''T'', [])]) = Some (Inr s) \<and>
    idle s \<and> clients s = [cl] \<and> cl_pc cl = Returned \<and>
    the (cl_answer cl) = \<lparr>m_content = [0x42], m_size = 1, m_header = Some 0x41\<rparr>"
proof -
  let ?r = "request_bytes (''GET'', ''T'', [])" and ?p = "le32 2 @ [0x41, 0x42] :: byte list"
  have ok: "answerable (\<lambda>i. 0) answers_AB (''GET'', ''T'', [])"
    by (simp add: answers_AB(1) request_text_def)
  obtain reply m where a: "answered_by (\<lambda>i. 0) answers_AB ?r reply m" using answerable_pipe [OF ok] .
  then have "reply = ?p" by (simp add: answered_by_def answers_AB_def)
  with lone_run_possible [OF a] obtain r
    where r: "run_events (ipc_step (\<lambda>i. 0) answers_AB) (lone_run ?r ?p) (calling [?r]) = Some r" by blast
  have "idle (calling [?r])" "clients (calling [?r]) = [\<lparr>cl_pc = Opening_ping, cl_request = ?r, cl_answer = None\<rparr>]"
    by (simp_all add: idle_def calling_def)
  moreover have "length (lone_run ?r ?p) = 9" by (simp add: lone_run_def)
  ultimately obtain s cl where "r = Inr s" "idle s" "clients s = [cl]" "cl_pc cl = Returned"
      "pipe_sendMsg (\<lambda>i. 0) answers_AB ''GET'' ''T'' [] = Inr (the (cl_answer cl))"
    using lone_request_answered [OF _ _ ok r] by auto
  with r answers_AB(2) show ?thesis by auto
qed

section \<open>Two connections\<close>

text \<open>Two threads that open the pipe before either closes it: both use the stream of the second.\<close>

lemma unlocked_use_after_close:
  "run_events (ipc_step blk other) [Open_ping 0, Open_ping 1, Send 0, Close_ping 0, Send 1] (calling [r0, r1]) =
     Some (Inl (Fault Use_after_free))"
  by (simp add: calling_def ipc_step_def client_step_def step_defs)

definition crossing :: "byte list \<Rightarrow> byte list \<Rightarrow> event list" where
  "crossing request reply =
     [Open_ping 0, Send 0, Close_ping 0, Pool_reads (length request), Open_ping 1, Send 1, Close_ping 1,
      Pool_closes_ping, Open_pong 1, Pool_replies, Receive 1 (length reply), Close_pong 1]"

text \<open>
  C14: The code takes no lock, and then a thread that starts while the application pool still has the request of
  another open can get the answer to that request: its own is lost with the pipe, and the other thread
  waits for ever.
\<close>

theorem replies_crossed:
  assumes "answerable blk other (v, c, q)"
  shows "\<exists>s reply. other (request_bytes (v, c, q)) = Inr reply \<and>
    run_events (ipc_step blk other) (crossing (request_bytes (v, c, q)) reply)
      (calling [request_bytes (v, c, q), request]) = Some (Inr s) \<and>
    cl_pc (clients s ! 1) = Returned \<and> pipe_sendMsg blk other v c q = Inr (the (cl_answer (clients s ! 1))) \<and>
    cl_pc (clients s ! 0) = Opening_pong \<and> (\<forall>e. ipc_step blk other e s = None)"
proof -
  let ?r = "request_bytes (v, c, q)"
  obtain reply m where a: "answered_by blk other ?r reply m" and m: "pipe_sendMsg blk other v c q = Inr m"
    using answerable_pipe [OF assms] .
  have fr: "readable eof ?r = Some ?r" "readable eof reply = Some reply" for eof
    using a by (simp_all add: answered_by_def readable_frame)
  have o: "other ?r = Inr reply" "read_message blk True reply = Inr m" using a by (simp_all add: answered_by_def)
  obtain s where s: "run_events (ipc_step blk other) (crossing ?r reply) (calling [?r, request]) = Some (Inr s)"
    "clients s = [\<lparr>cl_pc = Opening_pong, cl_request = ?r, cl_answer = None\<rparr>,
       \<lparr>cl_pc = Returned, cl_request = request, cl_answer = Some m\<rparr>]" "pool s = Pool_opening_ping"
    by (simp add: crossing_def calling_def ipc_step_def client_step_def pool_step_def step_defs some_client_def fr o)
  have "ipc_step blk other e s = None" for e
    using s(2,3) by (cases e) (auto simp: ipc_step_def client_step_def pool_step_def client_at_def open_pong_def
        nth_Cons Let_def split: nat.splits)
  with s o m show ?thesis by (intro exI [of _ s] exI [of _ reply]) simp
qed

theorem replies_crossed_witness:
  "\<exists>s. run_events (ipc_step (\<lambda>i. 0) answers_AB) (crossing (request_bytes (''GET'', ''T'', [])) (le32 2 @ [0x41, 0x42]))
      (calling [request_bytes (''GET'', ''T'', []), request_bytes (''GET'', ''U'', [])]) = Some (Inr s) \<and>
    the (cl_answer (clients s ! 1)) = \<lparr>m_content = [0x42], m_size = 1, m_header = Some 0x41\<rparr>"
  using replies_crossed [OF answers_AB(1), of "''GET''" "''T''" "[]" "request_bytes (''GET'', ''U'', [])"]
  by (auto simp: request_text_def answers_AB(2)) (auto simp: answers_AB_def)

end
