(* ===== verification/Towa_Start.thy ===== *)
theory Towa_Start
  imports Towa_App_Pool
begin

text \<open>
  The start of the application pool (\<^verbatim>\<open>server/towa.cpp\<close>, the constructor in
  \<^verbatim>\<open>server/towa_app_pool.cpp\<close>).  The Java Native Interface is an argument: what the two look-ups return for
  the names they get, or that they crash.
\<close>

section \<open>The Java Native Interface\<close>

text \<open>A look-up returns a reference, maybe null, or raises the signal 11.\<close>

datatype jni_result = Segv | Ref "nat option"

record jni =
  FindClass :: "string \<Rightarrow> jni_result"
  GetMethodID :: "nat option \<Rightarrow> string \<Rightarrow> string \<Rightarrow> jni_result"

text \<open>\<open>termination_handler\<close>, installed for the signal: it prints a line and throws 42.\<close>

definition termination_handler :: "int \<Rightarrow> string \<times> int" where
  "termination_handler signum = (''Signal '' @ show_dec signum @ '' caught'' @ newline, 42)"

definition handled :: "jni_result \<Rightarrow> int + nat option" where
  "handled r = (case r of Segv \<Rightarrow> Inl (snd (termination_handler 11)) | Ref x \<Rightarrow> Inr x)"

section \<open>TowaAppPool\<close>

text \<open>The two fields that may be left unset hold \<open>None\<close> then.\<close>

record app_pool =
  RequestClass :: "nat option option"
  RequestClassConstructor :: "nat option option"
  ResponseClass :: "nat option"
  ResponseClassConstructor :: "nat option"
  ResponseClassGetOutput :: "nat option"
  ThrowableClass :: "nat option"
  ThrowableClassGetCause :: "nat option"
  ThrowableClassGetStackTrace :: "nat option"
  ThrowableClassToString :: "nat option"
  StackTraceElementClass :: "nat option"
  StackTraceElementClassToString :: "nat option"

definition vm_option :: string where
  "vm_option = ''-Djava.class.path=./classpath/servlet-api.jar:./classpath/''"

text \<open>The look-ups of the request class, in a \<open>try\<close> block: what they have set when the block is left.\<close>

definition find_request :: "jni \<Rightarrow> nat option option \<times> nat option option" where
  "find_request env =
     (case handled (FindClass env ''TowaRequest'') of
        Inl e \<Rightarrow> (None, None)
      | Inr c \<Rightarrow>
          (Some c,
           case handled (GetMethodID env c ''<init>'' ''(Ljava/lang/String;Ljava/lang/String;)V'') of
             Inl e \<Rightarrow> None | Inr m \<Rightarrow> Some m))"

text \<open>
  \<open>res\<close> is what \<open>JNI_CreateJavaVM\<close> returned, which nothing looks at: without a machine the pointer to the
  interface stays unset.  The other results are the number thrown, or the object.
\<close>

definition TowaAppPool :: "int \<Rightarrow> jni \<Rightarrow> fault + (int + app_pool)" where
  "TowaAppPool res env =
     (if res \<noteq> 0 then Inl Uninitialised
      else
        let (rc, rcc) = find_request env
        in Inr (
          sbind (handled (FindClass env ''TowaResponse'')) (\<lambda>resp.
          sbind (handled (GetMethodID env resp ''<init>'' ''()V'')) (\<lambda>resp_new.
          sbind (handled (GetMethodID env resp ''getOutput'' ''()[B'')) (\<lambda>resp_out.
          sbind (handled (FindClass env ''java/lang/Throwable'')) (\<lambda>thr.
          sbind (handled (GetMethodID env thr ''getCause'' ''()Ljava/lang/Throwable;'')) (\<lambda>cause.
          sbind (handled (GetMethodID env thr ''getStackTrace'' ''()[Ljava/lang/StackTraceElement;'')) (\<lambda>trace.
          sbind (handled (GetMethodID env thr ''toString'' ''()Ljava/lang/String;'')) (\<lambda>str.
          sbind (handled (FindClass env ''java/lang/StackTraceElement'')) (\<lambda>elt.
          sbind (handled (GetMethodID env elt ''toString'' ''()Ljava/lang/String;'')) (\<lambda>elt_str.
            Inr \<lparr>RequestClass = rc, RequestClassConstructor = rcc, ResponseClass = resp,
              ResponseClassConstructor = resp_new, ResponseClassGetOutput = resp_out, ThrowableClass = thr,
              ThrowableClassGetCause = cause, ThrowableClassGetStackTrace = trace, ThrowableClassToString = str,
              StackTraceElementClass = elt, StackTraceElementClassToString = elt_str\<rparr>)))))))))))"

text \<open>
  \<open>getTowaRequest\<close>: the arguments of \<open>NewObject\<close>, the strings up to their first zero.
\<close>

definition getTowaRequest ::
  "app_pool \<Rightarrow> string \<Rightarrow> string \<Rightarrow> fault + nat option \<times> nat option \<times> string \<times> string"
where
  "getTowaRequest p method queryString =
     (case (RequestClass p, RequestClassConstructor p) of
        (Some c, Some m) \<Rightarrow> Inr (c, m, cstr method, cstr queryString)
      | _ \<Rightarrow> Inl Uninitialised)"

section \<open>main\<close>

text \<open>
  A request that cannot be built from unset references is a use of an uninitialised value, as \<open>Other_throw\<close> is.
  How the process ends: by a fault, after a thrown number (with the line that is printed for it), or not at
  all, after the replies to the requests it got.
\<close>

definition requests_of :: "app_pool \<Rightarrow> jvm_fun \<Rightarrow> jvm_fun" where
  "requests_of p jvm = (\<lambda>method className queryString.
     case getTowaRequest p method queryString of Inl f \<Rightarrow> Other_throw | Inr r \<Rightarrow> jvm method className queryString)"

datatype towa_end = Ends_by fault | Ends_printing string | Serving "byte list list"

definition towa_process ::
  "int \<Rightarrow> jni \<Rightarrow> int \<times> int \<Rightarrow> int \<times> int \<Rightarrow> (nat \<Rightarrow> byte) \<Rightarrow> jvm_fun \<Rightarrow> byte list list \<Rightarrow> towa_end"
where
  "towa_process res env ping pong blk jvm pings =
     (case TowaAppPool res env of
        Inl f \<Rightarrow> Ends_by f
      | Inr (Inl e) \<Rightarrow> Ends_printing (''Error '' @ show_dec e @ newline)
      | Inr (Inr p) \<Rightarrow>
          (case TowaPipe ping pong of
             Inl e \<Rightarrow> Ends_printing (''Error '' @ show_dec e @ newline)
           | Inr _ \<Rightarrow>
               (case towa_main blk (requests_of p jvm) pings of Inl f \<Rightarrow> Ends_by f | Inr pongs \<Rightarrow> Serving pongs)))"

section \<open>What a failed look-up leads to\<close>

text \<open>A look-up of the response or exception classes that crashes ends the process with its number, 42.\<close>

lemma TowaAppPool_thrown: "TowaAppPool 0 env = Inr (Inl e) \<Longrightarrow> e = 42"
  by (auto simp: TowaAppPool_def handled_def termination_handler_def Let_def
      split: prod.splits jni_result.splits)

lemma towa_process_thrown:
  assumes "FindClass env ''TowaResponse'' = Segv"
  shows "towa_process 0 env ping pong blk jvm pings = Ends_printing (''Error 42'' @ newline)"
proof -
  have "show_dec 42 = ''42''" by code_simp
  with assms show ?thesis
    by (simp add: towa_process_def TowaAppPool_def handled_def termination_handler_def split: prod.splits)
qed

text \<open>
  One of the request class is caught and printed, and the process goes on without it: it ends with the
  first request.
\<close>

lemma no_request_faults:
  "\<exists>f. pipe_listenToMsg blk (app_processRequest (\<lambda>method className queryString. Other_throw)) ping = Inl f"
proof (cases "read_message blk False ping")
  case (Inr m)
  have "(\<exists>f. app_processRequest (\<lambda>method className queryString. Other_throw) m = Inl f) \<or>
      app_processRequest (\<lambda>method className queryString. Other_throw) m = Inr None"
    by (cases "getString m") (auto simp: app_processRequest_def Let_def)
  with Inr show ?thesis by (auto simp: pipe_listenToMsg_def)
qed (simp add: pipe_listenToMsg_def)

lemma towa_process_no_request_class:
  assumes "FindClass env ''TowaRequest'' = Segv" and "TowaAppPool 0 env = Inr (Inr p)" and "TowaPipe ping pong = Inr ()"
  shows "towa_process 0 env ping pong blk jvm [] = Serving []"
    and "\<exists>f. towa_process 0 env ping pong blk jvm (req # pings) = Ends_by f"
proof -
  have "RequestClass p = None"
    using assms(1,2)
    by (auto simp: TowaAppPool_def find_request_def handled_def Let_def split: jni_result.splits)
  then have "requests_of p jvm = (\<lambda>method className queryString. Other_throw)"
    by (simp add: requests_of_def getTowaRequest_def)
  moreover obtain f where "pipe_listenToMsg blk (app_processRequest (\<lambda>method className queryString. Other_throw)) req = Inl f"
    using no_request_faults by blast
  ultimately show "towa_process 0 env ping pong blk jvm [] = Serving []"
    "\<exists>f. towa_process 0 env ping pong blk jvm (req # pings) = Ends_by f"
    using assms(2,3) by (simp_all add: towa_process_def)
qed

end
