(* ===== verification/Test_Helper.thy ===== *)
theory Test_Helper
  imports Sawa_Util
begin

text \<open>
  \<^verbatim>\<open>server/test_helper.cpp\<close> and \<^verbatim>\<open>server/test.cpp\<close>: the assertions of the unit test and the test.  An
  \<open>int\<close> variable is an address in a store; what is written to the console is a string.
\<close>

section \<open>When\<close>

text \<open>The pointer is \<open>None\<close> while it has not been set; the string is a copy of the caller's.\<close>

record when_object =
  lvalue_int :: "nat option"
  lvalue_str :: string

definition When_int :: "nat \<Rightarrow> when_object" where
  "When_int nb = \<lparr>lvalue_int = Some nb, lvalue_str = []\<rparr>"

definition When_string :: "string \<Rightarrow> when_object" where
  "When_string str = \<lparr>lvalue_int = None, lvalue_str = str\<rparr>"

definition IsSetTo_int :: "int \<Rightarrow> when_object \<Rightarrow> (nat \<Rightarrow> int) \<Rightarrow> fault + when_object \<times> (nat \<Rightarrow> int)" where
  "IsSetTo_int rvalue w vars =
     (case lvalue_int w of None \<Rightarrow> Inl Uninitialised | Some a \<Rightarrow> Inr (w, vars(a := rvalue)))"

definition IsSetTo_string :: "string \<Rightarrow> when_object \<Rightarrow> when_object" where
  "IsSetTo_string rvalue w = w\<lparr>lvalue_str := rvalue\<rparr>"

section \<open>Then\<close>

record then_object =
  found_int :: int
  found_str :: string
  op :: bool
  op_err_msg :: string

definition Then_int :: "int \<Rightarrow> then_object" where
  "Then_int nb = \<lparr>found_int = nb, found_str = [], op = True, op_err_msg = '' != ''\<rparr>"

definition Should :: "then_object \<Rightarrow> then_object" where
  "Should t = t"

definition Not_op :: "then_object \<Rightarrow> then_object" where
  "Not_op t = t\<lparr>op := False, op_err_msg := '' == ''\<rparr>"

definition BeEqualTo_int :: "int \<Rightarrow> then_object \<Rightarrow> string" where
  "BeEqualTo_int rvalue t =
     (if found_int t \<noteq> rvalue \<and> op t \<or> found_int t = rvalue \<and> \<not> op t
      then ''Error: '' @ show_dec (found_int t) @ '' (found) '' @ op_err_msg t @ show_dec rvalue @ '' (expected)'' @ newline
      else ''PASS'' @ newline)"

definition BeEqualTo_string :: "string \<Rightarrow> then_object \<Rightarrow> string" where
  "BeEqualTo_string rvalue t =
     (if found_str t \<noteq> rvalue \<and> op t \<or> found_str t = rvalue \<and> \<not> op t
      then ''Error: '' @ found_str t @ op_err_msg t @ rvalue @ newline
      else ''PASS'' @ newline)"

section \<open>The test\<close>

text \<open>A check of the search: its result goes to the variable 0.  \<open>behind\<close> is what follows the literal in memory.\<close>

definition check_search ::
  "(then_object \<Rightarrow> then_object) \<Rightarrow> string \<Rightarrow> string \<Rightarrow> (nat \<Rightarrow> int) \<Rightarrow> fault + string \<times> (nat \<Rightarrow> int)"
where
  "check_search opinion literal behind vars =
     sbind (strnCaseStr (literal @ CHR 0x00 # behind) ''Keep-Alive'' 30) (\<lambda>r.
     sbind (IsSetTo_int (of_bool r) (When_int 0) vars) (\<lambda>(w, vars).
       Inr (BeEqualTo_int 1 (opinion (Should (Then_int (vars 0)))), vars)))"

definition test_main :: "string \<Rightarrow> (nat \<Rightarrow> int) \<Rightarrow> fault + string" where
  "test_main behind vars =
     sbind (check_search id ''This is a test KEEP-ALIVE'' behind vars) (\<lambda>(out1, vars).
     sbind (check_search Not_op ''This is a test KEEP-ALVIE'' behind vars) (\<lambda>(out2, vars).
       Inr (out1 @ out2)))"

lemma BeEqualTo_int_passes:
  "BeEqualTo_int n t = ''PASS'' @ newline \<longleftrightarrow> (found_int t = n) = op t"
  by (auto simp: BeEqualTo_int_def)

lemma Not_negates:
  "BeEqualTo_int n (Not_op (Then_int m)) = ''PASS'' @ newline \<longleftrightarrow> BeEqualTo_int n (Then_int m) \<noteq> ''PASS'' @ newline"
  unfolding BeEqualTo_int_passes by (simp add: Then_int_def Not_op_def)

text \<open>A string variable is not set, other than an \<open>int\<close>: the object has a copy of it and no pointer.\<close>

lemma string_not_set:
  "IsSetTo_string rvalue (When_string str) = \<lparr>lvalue_int = None, lvalue_str = rvalue\<rparr>"
  "IsSetTo_int n (When_string str) vars = Inl Uninitialised"
  by (simp_all add: IsSetTo_string_def When_string_def IsSetTo_int_def)

text \<open>
  The search of the second check looks at 30 characters of a literal that has 26 with its zero: it reads the
  four characters behind it in memory, and the test passes if none of the first three is a \<^verbatim>\<open>K\<close>.
\<close>

lemma tolower_string:
  "map tolower ''This aetKEP-ALIVlvp'' = ''this aetkep-alivlvp''" "tolower (CHR 0x00) = CHR 0x00"
  by code_simp+

lemmas tolower_chars = tolower_string(1) [simplified] tolower_string(2)

lemma first_check:
  "strnCaseStr (''This is a test KEEP-ALIVE'' @ CHR 0x00 # behind) ''Keep-Alive'' 30 = Inr True"
  by (simp add: tolower_chars)

lemma second_check:
  "strnCaseStr (''This is a test KEEP-ALVIE'' @ CHR 0x00 # behind) ''Keep-Alive'' 30 =
     scan (CHR ''k'') ''eep-Alive'' behind 4"
  by (simp add: tolower_chars)

lemma test_main_reads_behind:
  assumes "length behind < 4" and "CHR ''k'' \<notin> tolower ` set behind"
  shows "test_main behind vars = Inl Overread"
proof -
  consider "behind = []" | a where "behind = [a]" | a b where "behind = [a, b]" | a b c where "behind = [a, b, c]"
    using assms(1) by (cases behind; cases "tl behind"; cases "tl (tl behind)"; cases "tl (tl (tl behind))") auto
  then have "scan (CHR ''k'') ''eep-Alive'' behind 4 = Inl Overread"
    using assms(2) by cases (simp_all add: eq_commute [of "CHR ''k''"])
  then show ?thesis
    unfolding test_main_def check_search_def second_check first_check
    by (simp add: IsSetTo_int_def When_int_def)
qed

lemma test_main_passes:
  assumes "tolower a \<noteq> CHR ''k''" and "tolower b \<noteq> CHR ''k''" and "tolower c \<noteq> CHR ''k''"
  shows "test_main (a # b # c # d # behind) vars = Inr (''PASS'' @ newline @ ''PASS'' @ newline)"
proof -
  have "scan (CHR ''k'') ''eep-Alive'' (a # b # c # d # behind) 4 = Inr False" using assms by simp
  then show ?thesis
    unfolding test_main_def check_search_def second_check first_check
    by (simp add: IsSetTo_int_def When_int_def BeEqualTo_int_def Should_def Then_int_def Not_op_def)
qed

end
