(* ===== verification/Xml_Print.thy ===== *)
theory Xml_Print
  imports Xml_Parse
begin

text \<open>
  \<open>XMLVisitor\<close>, \<open>Accept\<close> and \<open>XMLPrinter\<close> of \<^verbatim>\<open>server/tinyxml2.h\<close> and
  \<^verbatim>\<open>server/tinyxml2.cpp\<close>: a tree is written by a visitor that keeps track of open elements.
  A file and the buffer in memory are both the text written so far; C strings are lists without
  their terminating zero.
\<close>

section \<open>Visitors\<close>

text \<open>The callbacks of a visitor with state \<open>'s\<close>; the result says whether to go on.\<close>

record 's visitor =
  VisitEnter_doc :: "xml_doc \<Rightarrow> 's \<Rightarrow> bool \<times> 's"
  VisitExit_doc :: "xml_doc \<Rightarrow> 's \<Rightarrow> bool \<times> 's"
  VisitEnter_element :: "str_pair \<Rightarrow> (str_pair \<times> str_pair) list \<Rightarrow> 's \<Rightarrow> bool \<times> 's"
  VisitExit_element :: "str_pair \<Rightarrow> 's \<Rightarrow> bool \<times> 's"
  Visit_declaration :: "str_pair \<Rightarrow> 's \<Rightarrow> bool \<times> 's"
  Visit_text :: "str_pair \<Rightarrow> bool \<Rightarrow> 's \<Rightarrow> bool \<times> 's"
  Visit_comment :: "str_pair \<Rightarrow> 's \<Rightarrow> bool \<times> 's"
  Visit_unknown :: "str_pair \<Rightarrow> 's \<Rightarrow> bool \<times> 's"

definition XMLVisitor :: "'s visitor" where
  "XMLVisitor =
     \<lparr>VisitEnter_doc = (\<lambda>_ s. (True, s)), VisitExit_doc = (\<lambda>_ s. (True, s)),
      VisitEnter_element = (\<lambda>_ _ s. (True, s)), VisitExit_element = (\<lambda>_ s. (True, s)),
      Visit_declaration = (\<lambda>_ s. (True, s)), Visit_text = (\<lambda>_ _ s. (True, s)),
      Visit_comment = (\<lambda>_ s. (True, s)), Visit_unknown = (\<lambda>_ s. (True, s))\<rparr>"

text \<open>\<open>Accept\<close> of the node classes, and the loop over the children, left when a child says stop.\<close>

definition XMLText_Accept :: "'s visitor \<Rightarrow> str_pair \<Rightarrow> bool \<Rightarrow> 's \<Rightarrow> bool \<times> 's" where
  [simp]: "XMLText_Accept v t cdata s = Visit_text v t cdata s"

definition XMLComment_Accept :: "'s visitor \<Rightarrow> str_pair \<Rightarrow> 's \<Rightarrow> bool \<times> 's" where
  [simp]: "XMLComment_Accept v t s = Visit_comment v t s"

definition XMLDeclaration_Accept :: "'s visitor \<Rightarrow> str_pair \<Rightarrow> 's \<Rightarrow> bool \<times> 's" where
  [simp]: "XMLDeclaration_Accept v t s = Visit_declaration v t s"

definition XMLUnknown_Accept :: "'s visitor \<Rightarrow> str_pair \<Rightarrow> 's \<Rightarrow> bool \<times> 's" where
  [simp]: "XMLUnknown_Accept v t s = Visit_unknown v t s"

fun Accept :: "'s visitor \<Rightarrow> xml_node \<Rightarrow> 's \<Rightarrow> bool \<times> 's"
  and Accept_children :: "'s visitor \<Rightarrow> xml_node list \<Rightarrow> 's \<Rightarrow> 's"
where
  "Accept v (XMLElement name closing attrs children) s =
     (let (ok, s) = VisitEnter_element v name attrs s;
          s = (if ok then Accept_children v children s else s)
      in VisitExit_element v name s)"
| "Accept v (XMLText t cdata) s = XMLText_Accept v t cdata s"
| "Accept v (XMLComment t) s = XMLComment_Accept v t s"
| "Accept v (XMLDeclaration t) s = XMLDeclaration_Accept v t s"
| "Accept v (XMLUnknown t) s = XMLUnknown_Accept v t s"
| "Accept_children v [] s = s"
| "Accept_children v (n # ns) s =
     (let (ok, s) = Accept v n s in if ok then Accept_children v ns s else s)"

definition Accept_doc :: "'s visitor \<Rightarrow> xml_doc \<Rightarrow> xml_node list \<Rightarrow> 's \<Rightarrow> bool \<times> 's" where
  "Accept_doc v d ns s =
     (let (ok, s) = VisitEnter_doc v d s;
          s = (if ok then Accept_children v ns s else s)
      in VisitExit_doc v d s)"

section \<open>The printer\<close>

record xml_printer =
  pr_elementJustOpened :: bool
  pr_stack :: "string list"
  pr_firstElement :: bool
  pr_depth :: int
  pr_textDepth :: int
  pr_processEntities :: bool
  pr_compactMode :: bool
  pr_out :: string

definition XMLPrinter :: "bool \<Rightarrow> int \<Rightarrow> xml_printer" where
  "XMLPrinter compact depth =
     \<lparr>pr_elementJustOpened = False, pr_stack = [], pr_firstElement = True, pr_depth = depth,
      pr_textDepth = -1, pr_processEntities = True, pr_compactMode = compact, pr_out = []\<rparr>"

text \<open>\<open>_entityFlag\<close> and \<open>_restrictedEntityFlag\<close>, on the characters below \<open>ENTITY_RANGE\<close>.\<close>

definition ENTITY_RANGE :: nat where "ENTITY_RANGE = 64"

definition entityFlag :: "char \<Rightarrow> bool" where
  "entityFlag c \<longleftrightarrow> c \<in> snd ` set entities"

definition restrictedEntityFlag :: "char \<Rightarrow> bool" where
  "restrictedEntityFlag c \<longleftrightarrow> c = CHR ''&'' \<or> c = CHR ''<'' \<or> c = CHR ''>''"

definition Write :: "string \<Rightarrow> xml_printer \<Rightarrow> xml_printer" where
  "Write s pr = pr\<lparr>pr_out := pr_out pr @ s\<rparr>"

definition Putc :: "char \<Rightarrow> xml_printer \<Rightarrow> xml_printer" where
  "Putc c pr = pr\<lparr>pr_out := pr_out pr @ [c]\<rparr>"

definition PrintSpace :: "int \<Rightarrow> xml_printer \<Rightarrow> xml_printer" where
  "PrintSpace depth pr = (Write ''    '' ^^ nat depth) pr"

text \<open>
  \<open>PrintString\<close>: \<open>run\<close> is the text from \<open>p\<close> to \<open>q\<close>, not yet written.  Before an entity it is written whole,
  at the end only its first \<open>INT_MAX\<close> characters.
\<close>

fun PrintString_loop :: "(char \<Rightarrow> bool) \<Rightarrow> string \<Rightarrow> string \<Rightarrow> xml_printer \<Rightarrow> xml_printer" where
  "PrintString_loop flag run [] pr = Write (take INT_MAX run) pr"
| "PrintString_loop flag run (c # q) pr =
     (if 0 < (of_char c :: nat) \<and> of_char c < ENTITY_RANGE \<and> flag c then
        PrintString_loop flag [] q
          (let pr = Write run pr
           in case find (\<lambda>(pat, v). v = c) entities of
                Some (pat, v) \<Rightarrow> Putc (CHR '';'') (Write pat (Putc (CHR ''&'') pr))
              | None \<Rightarrow> pr)
      else PrintString_loop flag (run @ [c]) q pr)"

definition PrintString :: "string \<Rightarrow> bool \<Rightarrow> xml_printer \<Rightarrow> xml_printer" where
  "PrintString p restricted pr =
     (if pr_processEntities pr then
        PrintString_loop (if restricted then restrictedEntityFlag else entityFlag) [] p pr
      else Write p pr)"

definition SealElementIfJustOpened :: "xml_printer \<Rightarrow> xml_printer" where
  "SealElementIfJustOpened pr =
     (if \<not> pr_elementJustOpened pr then pr
      else Putc (CHR ''>'') (pr\<lparr>pr_elementJustOpened := False\<rparr>))"

definition OpenElement :: "string \<Rightarrow> bool \<Rightarrow> xml_printer \<Rightarrow> xml_printer" where
  "OpenElement name compactMode pr =
     (let pr = SealElementIfJustOpened pr;
          pr = pr\<lparr>pr_stack := name # pr_stack pr\<rparr>;
          pr = (if pr_textDepth pr < 0 \<and> \<not> pr_firstElement pr \<and> \<not> compactMode then Putc LF pr else pr);
          pr = (if \<not> compactMode then PrintSpace (pr_depth pr) pr else pr);
          pr = Write name (Write ''<'' pr)
      in pr\<lparr>pr_elementJustOpened := True, pr_firstElement := False, pr_depth := pr_depth pr + 1\<rparr>)"

definition PushAttribute :: "string \<Rightarrow> string \<Rightarrow> xml_printer \<Rightarrow> xml_printer" where
  "PushAttribute name val pr =
     Putc (CHR 0x22) (PrintString val False (Write [CHR ''='', CHR 0x22] (Write name (Putc (CHR '' '') pr))))"

definition CloseElement :: "bool \<Rightarrow> xml_printer \<Rightarrow> xml_printer" where
  "CloseElement compactMode pr =
     (let pr = pr\<lparr>pr_depth := pr_depth pr - 1\<rparr>;
          name = hd (pr_stack pr);
          pr = pr\<lparr>pr_stack := tl (pr_stack pr)\<rparr>;
          pr = (if pr_elementJustOpened pr then Write ''/>'' pr
                else
                  let pr = (if pr_textDepth pr < 0 \<and> \<not> compactMode
                            then PrintSpace (pr_depth pr) (Putc LF pr) else pr)
                  in Write ''>'' (Write name (Write ''</'' pr)));
          pr = (if pr_textDepth pr = pr_depth pr then pr\<lparr>pr_textDepth := -1\<rparr> else pr);
          pr = (if pr_depth pr = 0 \<and> \<not> compactMode then Putc LF pr else pr)
      in pr\<lparr>pr_elementJustOpened := False\<rparr>)"

definition PushText :: "string \<Rightarrow> bool \<Rightarrow> xml_printer \<Rightarrow> xml_printer" where
  "PushText text cdata pr =
     (let pr = SealElementIfJustOpened (pr\<lparr>pr_textDepth := pr_depth pr - 1\<rparr>)
      in if cdata then Write '']]>'' (Write text (Write ''<![CDATA['' pr))
         else PrintString text True pr)"

text \<open>What comments, declarations and unknown nodes start with.\<close>

definition new_line :: "xml_printer \<Rightarrow> xml_printer" where
  "new_line pr =
     (let pr = SealElementIfJustOpened pr;
          pr = (if pr_textDepth pr < 0 \<and> \<not> pr_firstElement pr \<and> \<not> pr_compactMode pr
                then PrintSpace (pr_depth pr) (Putc LF pr) else pr)
      in pr\<lparr>pr_firstElement := False\<rparr>)"

definition PushComment :: "string \<Rightarrow> xml_printer \<Rightarrow> xml_printer" where
  "PushComment comment pr = Write ''-->'' (Write comment (Write ''<!--'' (new_line pr)))"

definition PushDeclaration :: "string \<Rightarrow> xml_printer \<Rightarrow> xml_printer" where
  "PushDeclaration val pr = Write ''?>'' (Write val (Write ''<?'' (new_line pr)))"

definition PushUnknown :: "string \<Rightarrow> xml_printer \<Rightarrow> xml_printer" where
  "PushUnknown val pr = Putc (CHR ''>'') (Write val (Write ''<!'' (new_line pr)))"

definition PushHeader :: "bool \<Rightarrow> bool \<Rightarrow> xml_printer \<Rightarrow> xml_printer" where
  "PushHeader bom writeDec pr =
     (let pr = (if bom then Write [CHR 0xEF, CHR 0xBB, CHR 0xBF] pr else pr)
      in if writeDec then PushDeclaration (''xml version='' @ [CHR 0x22] @ ''1.0'' @ [CHR 0x22]) pr else pr)"

section \<open>The printer as a visitor\<close>

definition printer_enter_doc :: "xml_doc \<Rightarrow> xml_printer \<Rightarrow> bool \<times> xml_printer" where
  "printer_enter_doc d pr =
     (let pr = pr\<lparr>pr_processEntities := processEntities d\<rparr>
      in (True, if writeBOM d then PushHeader True False pr else pr))"

definition printer_enter_element ::
  "str_pair \<Rightarrow> (str_pair \<times> str_pair) list \<Rightarrow> xml_printer \<Rightarrow> bool \<times> xml_printer"
where
  "printer_enter_element name attrs pr =
     (True, fold (\<lambda>(n, v). PushAttribute (GetStr n) (GetStr v)) attrs
              (OpenElement (GetStr name) (pr_compactMode pr) pr))"

definition printer_exit_element :: "str_pair \<Rightarrow> xml_printer \<Rightarrow> bool \<times> xml_printer" where
  "printer_exit_element name pr = (True, CloseElement (pr_compactMode pr) pr)"

definition printer :: "xml_printer visitor" where
  "printer =
     XMLVisitor\<lparr>VisitEnter_doc := printer_enter_doc,
       VisitEnter_element := printer_enter_element,
       VisitExit_element := printer_exit_element,
       Visit_declaration := \<lambda>t pr. (True, PushDeclaration (GetStr t) pr),
       Visit_text := \<lambda>t cdata pr. (True, PushText (GetStr t) cdata pr),
       Visit_comment := \<lambda>t pr. (True, PushComment (GetStr t) pr),
       Visit_unknown := \<lambda>t pr. (True, PushUnknown (GetStr t) pr)\<rparr>"

definition Print_doc :: "xml_doc \<Rightarrow> xml_node list \<Rightarrow> xml_printer \<Rightarrow> xml_printer" where
  "Print_doc d ns pr = snd (Accept_doc printer d ns pr)"

text \<open>\<open>SaveFile\<close>: the file that results if it can be opened, and the document.\<close>

definition SaveFile :: "string \<Rightarrow> bool \<Rightarrow> bool \<Rightarrow> xml_node list \<Rightarrow> xml_doc \<Rightarrow> string option \<times> xml_doc" where
  "SaveFile filename can_open compact ns d =
     (if \<not> can_open then
        (None, SetError XML_ERROR_FILE_COULD_NOT_BE_OPENED 0 (Some (''filename='' @ filename)) d)
      else (Some (pr_out (Print_doc d ns (XMLPrinter compact 0))), ClearError d))"

end
