(* ===== verification/Xml_Render.thy ===== *)
theory Xml_Render
  imports Xml_Print
begin

text \<open>
  What the compact printer writes, as a function of the tree: the printer's flags and stack are a way to
  compute it.  The client lemma on visitors that never stop is proved once, in a locale.
\<close>

section \<open>Visitors that never stop\<close>

locale total_visitor =
  fixes v :: "'s visitor"
  assumes enter_doc: "fst (VisitEnter_doc v d s)" and exit_doc: "fst (VisitExit_doc v d s)"
    and enter_element: "fst (VisitEnter_element v name attrs s)"
    and exit_element: "fst (VisitExit_element v name s)"
    and declaration_node: "fst (Visit_declaration v t s)" and text_node: "fst (Visit_text v t cdata s)"
    and comment: "fst (Visit_comment v t s)" and unknown: "fst (Visit_unknown v t s)"
begin

lemma accepts: "fst (Accept v n s)"
  by (cases n) (simp_all add: case_prod_beta Let_def exit_element declaration_node text_node comment unknown)

lemma visits_all: "Accept_children v ns s = fold (\<lambda>n s. snd (Accept v n s)) ns s"
  by (induction ns arbitrary: s) (simp_all add: case_prod_beta accepts)

lemma visits_element:
  "snd (Accept v (XMLElement name closing attrs children) s) =
     snd (VisitExit_element v name
       (fold (\<lambda>n s. snd (Accept v n s)) children (snd (VisitEnter_element v name attrs s))))"
  by (simp add: case_prod_beta Let_def enter_element visits_all)

lemma visits_document:
  "Accept_doc v d ns s =
     (True, snd (VisitExit_doc v d (fold (\<lambda>n s. snd (Accept v n s)) ns (snd (VisitEnter_doc v d s)))))"
  by (simp add: Accept_doc_def case_prod_beta Let_def enter_doc exit_doc visits_all prod_eq_iff)

end

interpretation base: total_visitor XMLVisitor
  by unfold_locales (simp_all add: XMLVisitor_def)

interpretation pv: total_visitor printer
  by unfold_locales
    (simp_all add: printer_def XMLVisitor_def printer_enter_doc_def printer_enter_element_def
      printer_exit_element_def Let_def)

text \<open>
  A visitor that refuses to enter an element is still shown the siblings behind it, as long as
  \<open>VisitExit\<close> says to go on: what \<open>VisitEnter\<close> says only decides about the children.
\<close>

lemma refused_element_siblings:
  assumes "VisitEnter_element v name attrs s = (False, s1)" and "VisitExit_element v name s1 = (True, s2)"
  shows "Accept_children v (XMLElement name closing attrs children # ns) s = Accept_children v ns s2"
  using assms by simp

section \<open>Trees and their text\<close>

text \<open>A tree as its user reads it, without closing types, flags and undecoded text.\<close>

datatype tree =
    Elem string "(string \<times> string) list" "tree list"
  | Txt string bool
  | Comm string
  | Decl string
  | Unk string

fun view :: "xml_node \<Rightarrow> tree" where
  "view (XMLElement name closing attrs children) =
     Elem (GetStr name) (map (map_prod GetStr GetStr) attrs) (map view children)"
| "view (XMLText t cdata) = Txt (GetStr t) cdata"
| "view (XMLComment t) = Comm (GetStr t)"
| "view (XMLDeclaration t) = Decl (GetStr t)"
| "view (XMLUnknown t) = Unk (GetStr t)"

definition is_text :: "tree \<Rightarrow> bool" where
  "is_text t = (case t of Txt _ cdata \<Rightarrow> \<not> cdata | _ \<Rightarrow> False)"

definition is_Elem :: "tree \<Rightarrow> bool" where
  "is_Elem t = (case t of Elem _ _ _ \<Rightarrow> True | _ \<Rightarrow> False)"

definition esc_char :: "(char \<Rightarrow> bool) \<Rightarrow> char \<Rightarrow> string" where
  "esc_char flag c =
     (if flag c then
        (case find (\<lambda>(pat, v). v = c) entities of None \<Rightarrow> [] | Some (pat, v) \<Rightarrow> ''&'' @ pat @ '';'')
      else [c])"

definition escape :: "(char \<Rightarrow> bool) \<Rightarrow> string \<Rightarrow> string" where
  "escape flag s = concat (map (esc_char flag) s)"

lemma escape_simps [simp]:
  "escape flag [] = []" "escape flag (c # s) = esc_char flag c @ escape flag s"
  by (simp_all add: escape_def)

definition render_attr :: "string \<times> string \<Rightarrow> string" where
  "render_attr a = '' '' @ fst a @ [CHR ''='', CHR 0x22] @ escape entityFlag (snd a) @ [CHR 0x22]"

fun render :: "tree \<Rightarrow> string" where
  "render (Elem name attrs children) =
     ''<'' @ name @ concat (map render_attr attrs) @
     (if children = [] then ''/>'' else ''>'' @ concat (map render children) @ ''</'' @ name @ ''>'')"
| "render (Txt s cdata) = (if cdata then ''<![CDATA['' @ s @ '']]>'' else escape restrictedEntityFlag s)"
| "render (Comm s) = ''<!--'' @ s @ ''-->''"
| "render (Decl s) = ''<?'' @ s @ ''?>''"
| "render (Unk s) = ''<!'' @ s @ ''>''"

text \<open>The strings that are escaped are not longer than an \<open>int\<close> can count.\<close>

fun fits :: "tree \<Rightarrow> bool" where
  "fits (Elem name attrs children) \<longleftrightarrow>
     list_all (\<lambda>a. length (snd a) \<le> INT_MAX) attrs \<and> list_all fits children"
| "fits (Txt s cdata) \<longleftrightarrow> cdata \<or> length s \<le> INT_MAX"
| "fits t \<longleftrightarrow> True"

section \<open>The printer at work\<close>

lemma flag_small:
  "entityFlag c \<Longrightarrow> 0 < (of_char c :: nat) \<and> of_char c < ENTITY_RANGE"
  "restrictedEntityFlag c \<Longrightarrow> 0 < (of_char c :: nat) \<and> of_char c < ENTITY_RANGE"
  by (auto simp: entityFlag_def restrictedEntityFlag_def entities_def ENTITY_RANGE_def)

lemma Write_fields [simp]:
  "pr_out (Write s pr) = pr_out pr @ s" "pr_stack (Write s pr) = pr_stack pr"
  "pr_elementJustOpened (Write s pr) = pr_elementJustOpened pr" "pr_compactMode (Write s pr) = pr_compactMode pr"
  "pr_processEntities (Write s pr) = pr_processEntities pr"
  by (simp_all add: Write_def)

lemma Putc_Write: "Putc c pr = Write [c] pr"
  by (simp add: Putc_def Write_def)

lemma Write_Write [simp]: "Write t (Write s pr) = Write (s @ t) pr"
  by (simp add: Write_def)

lemma PrintString_loop_escape:
  assumes "\<And>c. flag c \<Longrightarrow> 0 < (of_char c :: nat) \<and> of_char c < ENTITY_RANGE"
    and "length (run @ s) \<le> INT_MAX"
  shows "PrintString_loop flag run s pr = Write (run @ escape flag s) pr"
  using assms(2)
proof (induction s arbitrary: run pr)
  case (Cons c s)
  with assms(1) [of c] show ?case
    by (cases "flag c") (auto simp: esc_char_def Putc_Write Let_def split: option.splits)
qed simp

lemma PrintString_escape:
  assumes "length s \<le> INT_MAX" and "pr_processEntities pr"
  shows "PrintString s restricted pr = Write (escape (if restricted then restrictedEntityFlag else entityFlag) s) pr"
  using assms PrintString_loop_escape [of _ "[]" s pr] flag_small by (simp add: PrintString_def)

lemma push_attributes:
  assumes "list_all (\<lambda>a. length (GetStr (snd a)) \<le> INT_MAX) attrs" and "pr_processEntities pr"
  shows "fold (\<lambda>(n, v). PushAttribute (GetStr n) (GetStr v)) attrs pr =
    Write (concat (map (render_attr \<circ> map_prod GetStr GetStr) attrs)) pr"
  using assms
proof (induction attrs arbitrary: pr)
  case (Cons a attrs)
  then show ?case
    by (cases a) (simp add: PushAttribute_def PrintString_escape Putc_Write render_attr_def)
qed (simp add: Write_def)

text \<open>A child has been written: the tag before it is sealed, and the stack is as before.\<close>

definition wrote :: "xml_printer \<Rightarrow> string \<Rightarrow> xml_printer \<Rightarrow> bool" where
  "wrote pr s pr' \<longleftrightarrow>
     pr_out pr' = pr_out pr @ (if pr_elementJustOpened pr then ''>'' else []) @ s \<and>
     pr_stack pr' = pr_stack pr \<and> \<not> pr_elementJustOpened pr' \<and>
     pr_compactMode pr' \<and> pr_processEntities pr'"

lemma wrote_trans:
  "wrote pr s pr1 \<Longrightarrow> wrote pr1 t pr2 \<Longrightarrow> wrote pr (s @ t) pr2"
  by (simp add: wrote_def)

lemma wrote_leaf:
  assumes "pr_compactMode pr" and "pr_processEntities pr"
  shows "wrote pr (render (Comm s)) (PushComment s pr)"
    and "wrote pr (render (Decl s)) (PushDeclaration s pr)"
    and "wrote pr (render (Unk s)) (PushUnknown s pr)"
    and "fits (Txt s cdata) \<Longrightarrow> wrote pr (render (Txt s cdata)) (PushText s cdata pr)"
  using assms
  by (auto simp: wrote_def PushComment_def PushDeclaration_def PushUnknown_def PushText_def new_line_def
      SealElementIfJustOpened_def Putc_Write Let_def PrintString_escape)

lemma wrote_children:
  assumes "pr_compactMode pr" and "pr_processEntities pr" and "ns \<noteq> []"
    and "\<And>n pr. n \<in> set ns \<Longrightarrow> pr_compactMode pr \<Longrightarrow> pr_processEntities pr \<Longrightarrow>
      wrote pr (render (view n)) (snd (Accept printer n pr))"
  shows "wrote pr (concat (map (render \<circ> view) ns)) (fold (\<lambda>n pr. snd (Accept printer n pr)) ns pr)"
  using assms
proof (induction ns arbitrary: pr)
  case (Cons n ns)
  have n: "wrote pr (render (view n)) (snd (Accept printer n pr))" using Cons.prems by simp
  show ?case
  proof (cases "ns = []")
    case False
    have "wrote (snd (Accept printer n pr)) (concat (map (render \<circ> view) ns))
        (fold (\<lambda>n pr. snd (Accept printer n pr)) ns (snd (Accept printer n pr)))"
      using n Cons.prems(4) False by (intro Cons.IH) (auto simp: wrote_def)
    with wrote_trans [OF n this] show ?thesis by (simp add: comp_def)
  qed (use n in simp)
qed simp

lemma Accept_printer:
  assumes "fits (view n)" and "pr_compactMode pr" and "pr_processEntities pr"
  shows "wrote pr (render (view n)) (snd (Accept printer n pr))"
  using assms
proof (induction n arbitrary: pr)
  case (XMLElement name closing attrs children)
  let ?pr = "snd (printer_enter_element name attrs pr)"
  have attrs: "list_all (\<lambda>a. length (GetStr (snd a)) \<le> INT_MAX) attrs"
    using XMLElement.prems(1) by (auto simp: list_all_iff)
  have open_tag: "pr_out ?pr = pr_out pr @ (if pr_elementJustOpened pr then ''>'' else []) @
      ''<'' @ GetStr name @ concat (map (render_attr \<circ> map_prod GetStr GetStr) attrs)"
    "pr_stack ?pr = GetStr name # pr_stack pr" "pr_elementJustOpened ?pr" "pr_compactMode ?pr" "pr_processEntities ?pr"
    using XMLElement.prems(2,3) push_attributes [OF attrs]
    by (auto simp: printer_enter_element_def OpenElement_def SealElementIfJustOpened_def Putc_Write Let_def)
  show ?case
  proof (cases "children = []")
    case True
    with open_tag show ?thesis
      unfolding pv.visits_element
      by (simp add: printer_def wrote_def printer_exit_element_def CloseElement_def Putc_Write Let_def)
  next
    case False
    have "wrote ?pr (concat (map (render \<circ> view) children)) (fold (\<lambda>n pr. snd (Accept printer n pr)) children ?pr)"
      using XMLElement.IH XMLElement.prems(1) open_tag False
      by (intro wrote_children) (auto simp: list_all_iff)
    with open_tag False show ?thesis
      unfolding pv.visits_element
      by (simp add: printer_def wrote_def printer_exit_element_def CloseElement_def Putc_Write Let_def comp_def)
  qed
qed (use wrote_leaf in \<open>simp_all add: printer_def\<close>)

lemma SaveFile_compact:
  assumes "list_all (fits \<circ> view) ns" and "processEntities d"
  shows "fst (SaveFile filename True True ns d) =
    Some ((if writeBOM d then [CHR 0xEF, CHR 0xBB, CHR 0xBF] else []) @ concat (map (render \<circ> view) ns))"
proof -
  let ?pr = "snd (printer_enter_doc d (XMLPrinter True 0))"
  have enter: "pr_out ?pr = (if writeBOM d then [CHR 0xEF, CHR 0xBB, CHR 0xBF] else [])"
      "pr_compactMode ?pr" "pr_processEntities ?pr" "\<not> pr_elementJustOpened ?pr"
    using assms(2) by (simp_all add: printer_enter_doc_def XMLPrinter_def PushHeader_def Let_def)
  have "pr_out (fold (\<lambda>n pr. snd (Accept printer n pr)) ns ?pr) = pr_out ?pr @ concat (map (render \<circ> view) ns)"
  proof (cases "ns = []")
    case False
    with enter wrote_children [OF enter(2,3) False] assms(1) Accept_printer show ?thesis
      by (simp add: wrote_def list_all_iff)
  qed simp
  with enter show ?thesis
    by (simp add: SaveFile_def Print_doc_def pv.visits_document) (simp add: printer_def XMLVisitor_def)
qed

text \<open>
  C9: In compact mode the printer writes exactly the text of the tree: every tag, attribute and value in
  document order, with the five characters of the entity table escaped in attribute values and
  three of them in text, self-closing tags for elements without children, and nothing else.
\<close>

theorem SaveFile_renders:
  assumes "list_all (fits \<circ> view) ns" and "processEntities d"
  shows "SaveFile filename True True ns d =
    (Some ((if writeBOM d then [CHR 0xEF, CHR 0xBB, CHR 0xBF] else []) @ concat (map (render \<circ> view) ns)),
     ClearError d)"
  using SaveFile_compact [OF assms, of filename] by (simp add: SaveFile_def)

theorem SaveFile_renders_witness:
  "fst (SaveFile ''f'' True True
     [XMLElement (SetStr ''a'') OPEN [(SetStr ''b'', SetStr ''<1>'')] [XMLText (SetStr ''2'') False, XMLComment (SetStr ''3'')]]
     (XMLDocument True False)) =
   Some (''<a b='' @ [CHR 0x22] @ ''&lt;1&gt;'' @ [CHR 0x22] @ ''>2<!--3--></a>'')"
proof -
  have str: "GetStr (SetStr s) = s" for s by (simp add: SetStr_def GetStr_def ATTRIBUTE_NAME_def)
  show ?thesis
    by (subst SaveFile_renders)
      (simp_all add: str INT_MAX_def XMLDocument_def render_attr_def escape_def esc_char_def entityFlag_def
        restrictedEntityFlag_def entities_def)
qed

end
