(* ===== verification/Xml_Decode.thy ===== *)
theory Xml_Decode
  imports Xml_Text
begin

text \<open>
  What the strings of a parsed document read as: a reference definition without a buffer, its
  agreement with the translation in place, and where the two part.
\<close>

section \<open>The reference\<close>

function decode :: "str_flags \<Rightarrow> string \<Rightarrow> string" where
  "decode fl [] = []"
| "decode fl (c # s) =
     (if needs_newline fl \<and> c = CR then LF # decode fl (if starts_with [LF] s then tl s else s)
      else if needs_newline fl \<and> c = LF then LF # decode fl (if starts_with [CR] s then tl s else s)
      else if needs_entity fl \<and> c = CHR ''&'' then
        (if starts_with ''#'' s then
           (case GetCharacterRef (c # s) of
              None \<Rightarrow> c # decode fl s
            | Some (adjusted, val) \<Rightarrow> val @ decode fl adjusted)
         else
           (case find_entity s of
              Some (pat, v) \<Rightarrow> v # decode fl (drop (length pat + 1) s)
            | None \<Rightarrow> c # decode fl s))
      else c # decode fl s)"
  by pat_completeness auto
termination
  by (relation "measure (\<lambda>(fl, s). length s)") (auto dest: GetCharacterRef_consumes)

text \<open>Every ampersand that is read starts a character reference or an entity of the table.\<close>

function known :: "str_flags \<Rightarrow> string \<Rightarrow> bool" where
  "known fl [] = True"
| "known fl (c # s) =
     (if needs_newline fl \<and> c = CR then known fl (if starts_with [LF] s then tl s else s)
      else if needs_newline fl \<and> c = LF then known fl (if starts_with [CR] s then tl s else s)
      else if needs_entity fl \<and> c = CHR ''&'' then
        (if starts_with ''#'' s then
           (case GetCharacterRef (c # s) of
              None \<Rightarrow> known fl s
            | Some (adjusted, val) \<Rightarrow> known fl adjusted)
         else
           (case find_entity s of
              Some (pat, v) \<Rightarrow> known fl (drop (length pat + 1) s)
            | None \<Rightarrow> False))
      else known fl s)"
  by pat_completeness auto
termination
  by (relation "measure (\<lambda>(fl, s). length s)") (auto dest: GetCharacterRef_consumes)

section \<open>Translation in place\<close>

text \<open>
  The state of the loop in terms of what is still to be read: \<open>rest\<close>, unchanged behind the read index.
\<close>

definition reading :: "string \<Rightarrow> nat \<Rightarrow> nat \<Rightarrow> nat \<Rightarrow> string \<Rightarrow> bool" where
  "reading buf e p q rest \<longleftrightarrow>
     length buf = Suc e \<and> p \<le> e \<and> q \<le> p \<and> drop p buf = rest @ [NUL] \<and> NUL \<notin> set rest"

lemma reading_access:
  assumes "reading buf e p q (c # s)"
  shows "p < e" "p < length buf" "buf ! p = c" "buf ! Suc p = hd (s @ [NUL])" "cstr (drop p buf) = c # s"
    "cstr (drop (Suc p) buf) = s"
proof -
  have d: "drop p buf = c # s @ [NUL]" and no: "NUL \<notin> set (c # s)" and len: "length buf = Suc e"
    using assms by (simp_all add: reading_def)
  have "length (drop p buf) = Suc (Suc (length s))" by (simp add: d)
  then show "p < e" "p < length buf" using len by simp_all
  then show "buf ! p = c" using d by (metis Cons_nth_drop_Suc list.inject)
  have d1: "drop (Suc p) buf = s @ [NUL]" using d by (metis drop_Suc list.sel(3) tl_drop)
  then show "buf ! Suc p = hd (s @ [NUL])" using \<open>p < e\<close> len by (simp add: hd_drop_conv_nth [symmetric])
  show "cstr (drop p buf) = c # s" using no cstr_append_nul [of "c # s" "[]"] by (simp add: d NUL_def)
  show "cstr (drop (Suc p) buf) = s" using no by (simp add: d1 NUL_def)
qed

text \<open>Writing \<open>v\<close> at \<open>q\<close> and reading on \<open>n\<close> characters later, where \<open>v\<close> is at most as long.\<close>

lemma reading_next:
  assumes "reading buf e p q rest" and "rest = pre @ rest'" and "length v \<le> length pre"
  shows "reading (take q buf @ v @ drop (q + length v) buf) e (p + length pre) (q + length v) rest'"
    and "take (q + length v) (take q buf @ v @ drop (q + length v) buf) = take q buf @ v"
proof -
  have *: "length buf = Suc e" "p \<le> e" "q \<le> p" "drop p buf = pre @ rest' @ [NUL]" "NUL \<notin> set rest'"
    using assms(1,2) by (simp_all add: reading_def)
  have "length (drop p buf) = length pre + length rest' + 1" by (simp add: *(4))
  then have bound: "p + length pre \<le> e" using *(1,2) by simp
  have tq: "length (take q buf) = q" using *(1-3) by simp
  have "drop (p + length pre) (take q buf @ v @ drop (q + length v) buf) =
      drop (p + length pre - q - length v) (drop (q + length v) buf)"
    using tq *(3) assms(3) by simp
  also have "\<dots> = drop (p + length pre) buf" using *(3) assms(3) by simp
  also have "\<dots> = drop (length pre) (drop p buf)" by (simp add: add.commute)
  also have "\<dots> = rest' @ [NUL]" by (simp only: *(4)) simp
  finally show "reading (take q buf @ v @ drop (q + length v) buf) e (p + length pre) (q + length v) rest'"
    using * bound assms(3) tq by (simp add: reading_def)
  show "take (q + length v) (take q buf @ v @ drop (q + length v) buf) = take q buf @ v"
    using tq by simp
qed

lemma list_update_write: "q < length buf \<Longrightarrow> buf[q := x] = take q buf @ [x] @ drop (q + length [x]) buf"
  by (simp add: upd_conv_take_nth_drop)

lemma reading_write:
  assumes "reading buf e p q (c # s)" and "c # s = pre @ rest'" and "pre \<noteq> []"
  shows "reading (buf[q := x]) e (p + length pre) (Suc q) rest'"
    and "take (Suc q) (buf[q := x]) = take q buf @ [x]"
proof -
  have q: "q < length buf" using assms(1) reading_access(2) [OF assms(1)] by (simp add: reading_def)
  have "length [x] \<le> length pre" using assms(3) by (cases pre) auto
  from reading_next [OF assms(1,2) this]
  show "reading (buf[q := x]) e (p + length pre) (Suc q) rest'"
    "take (Suc q) (buf[q := x]) = take q buf @ [x]"
    unfolding list_update_write [OF q] by simp_all
qed

text \<open>The loop from a state on: what has been written, followed by the translation of the rest.\<close>

definition finishes :: "str_flags \<Rightarrow> nat \<Rightarrow> string \<Rightarrow> nat \<Rightarrow> nat \<Rightarrow> string \<Rightarrow> bool" where
  "finishes fl e buf p q out \<longleftrightarrow>
     (\<exists>buf'. GetStr_loop fl e buf p q = (buf', length out) \<and> length buf' = Suc e \<and> length out \<le> e \<and>
        take (length out) buf' = out)"

lemma GetStr_loop_end: "reading buf e p q [] \<Longrightarrow> finishes fl e buf p q (take q buf)"
proof -
  assume *: "reading buf e p q []"
  then have "length (drop p buf) = Suc 0" by (simp add: reading_def)
  then have "p = e" "q \<le> e" using * by (auto simp: reading_def)
  with * show ?thesis by (subst finishes_def, subst GetStr_loop.simps) (simp add: reading_def min_def)
qed

lemma starts_with_1: "starts_with [c] s \<longleftrightarrow> (\<exists>t. s = c # t)"
  by (cases s) (auto simp: starts_with_def)

lemma find_entity_Some:
  assumes "find_entity s = Some (pat, v)"
  shows "s = (pat @ '';'') @ drop (length pat + 1) s"
proof -
  have "starts_with (pat @ '';'') s"
    using assms by (auto simp: find_entity_def find_Some_iff)
  then have "take (length pat + 1) s = pat @ '';''" by (simp add: starts_with_def)
  then show ?thesis by (metis append_take_drop_id)
qed

lemma hd_snoc_NUL: "c \<noteq> NUL \<Longrightarrow> hd (s @ [NUL]) = c \<longleftrightarrow> starts_with [c] s"
  by (cases s) (auto simp: starts_with_def)

text \<open>One step of the loop, in each case: what is written and where reading goes on.\<close>

lemma loop_step:
  assumes r: "reading buf e p q (c # s)" and pre: "c # s = pre @ rest'" "pre \<noteq> []"
    and step: "GetStr_loop fl e buf p q = GetStr_loop fl e (buf[q := x]) (p + length pre) (q + 1)"
    and rest: "\<And>buf p q. reading buf e p q rest' \<Longrightarrow> finishes fl e buf p q (take q buf @ out)"
  shows "finishes fl e buf p q (take q buf @ x # out)"
  using rest [OF reading_write(1) [OF r pre, of x]] reading_write(2) [OF r pre, of x] step
  by (simp add: finishes_def)

lemma GetStr_loop_decode:
  "known fl rest \<Longrightarrow> reading buf e p q rest \<Longrightarrow> finishes fl e buf p q (take q buf @ decode fl rest)"
proof (induction fl rest arbitrary: buf p q rule: decode.induct)
  case (1 fl)
  then show ?case using GetStr_loop_end by simp
next
  case (2 fl c s)
  note acc = reading_access [OF "2.prems"(2)]
  note loop = GetStr_loop.simps [of fl e buf p q]
  have cs: "c # s = [c] @ s" by simp
  consider (cr) "needs_newline fl" "c = CR" | (lf) "needs_newline fl" "c = LF"
    | (ref) "\<not> (needs_newline fl \<and> (c = CR \<or> c = LF))" "needs_entity fl" "c = CHR ''&''" "starts_with ''#'' s"
    | (ent) "\<not> (needs_newline fl \<and> (c = CR \<or> c = LF))" "needs_entity fl" "c = CHR ''&''" "\<not> starts_with ''#'' s"
    | (plain) "\<not> (needs_newline fl \<and> (c = CR \<or> c = LF))" "\<not> (needs_entity fl \<and> c = CHR ''&'')"
    by blast
  then show ?case
  proof cases
    case cr
    show ?thesis
    proof (cases "starts_with [LF] s")
      case True
      then obtain t where s: "s = LF # t" by (auto simp: starts_with_1)
      have "finishes fl e buf p q (take q buf @ LF # decode fl t)"
        using cr True 2 acc loop s hd_snoc_NUL [of LF s]
        by (intro loop_step [OF "2.prems"(2), of "[c, LF]"]) (auto simp: control_chars)
      with cr True s show ?thesis by simp
    next
      case False
      have "finishes fl e buf p q (take q buf @ LF # decode fl s)"
        using cr False 2 acc loop hd_snoc_NUL [of LF s]
        by (intro loop_step [OF "2.prems"(2) cs]) (auto simp: control_chars)
      with cr False show ?thesis by simp
    qed
  next
    case lf
    then have c: "c \<noteq> CR" by (simp add: control_chars)
    show ?thesis
    proof (cases "starts_with [CR] s")
      case True
      then obtain t where s: "s = CR # t" by (auto simp: starts_with_1)
      have "finishes fl e buf p q (take q buf @ LF # decode fl t)"
        using lf c True 2 acc loop s hd_snoc_NUL [of CR s]
        by (intro loop_step [OF "2.prems"(2), of "[c, CR]"]) (auto simp: control_chars)
      with lf c True s show ?thesis by simp
    next
      case False
      have "finishes fl e buf p q (take q buf @ LF # decode fl s)"
        using lf c False 2 acc loop hd_snoc_NUL [of CR s]
        by (intro loop_step [OF "2.prems"(2) cs]) (auto simp: control_chars)
      with lf c False show ?thesis by simp
    qed
  next
    case ref
    then have nohash: "buf ! Suc p = CHR ''#''"
      using acc(4) hd_snoc_NUL [of "CHR ''#''" s] by (simp add: control_chars)
    show ?thesis
    proof (cases "GetCharacterRef (c # s)")
      case None
      have "finishes fl e buf p q (take q buf @ c # decode fl s)"
        using ref None nohash 2 acc loop by (intro loop_step [OF "2.prems"(2) cs]) (auto simp: control_chars)
      with ref None show ?thesis by (auto simp: control_chars)
    next
      case (Some av)
      obtain adj v where av: "av = (adj, v)" by (cases av)
      have con: "length adj + length v \<le> length (c # s)" "\<exists>pre. c # s = pre @ adj"
        using GetCharacterRef_consumes [of c s adj v] Some av by simp_all
      from con(2) obtain pre where pre: "c # s = pre @ adj" by blast
      have "length v \<le> length pre" using con(1) by (simp only: pre length_append)
      note pre = pre this
      have n: "length (c # s) - length adj = length pre" by (simp add: pre(1))
      let ?buf = "take q buf @ v @ drop (q + length v) buf"
      have "finishes fl e b p' q' (take q' b @ decode fl adj)" if "reading b e p' q' adj" for b p' q'
        using ref Some av 2 that by (auto simp: control_chars)
      note this [OF reading_next(1) [OF "2.prems"(2) pre]]
      moreover have "GetStr_loop fl e buf p q = GetStr_loop fl e ?buf (p + length pre) (q + length v)"
        using ref Some av nohash acc n loop by (auto simp: control_chars Let_def)
      ultimately have "finishes fl e buf p q (take q buf @ v @ decode fl adj)"
        unfolding reading_next(2) [OF "2.prems"(2) pre] by (simp add: finishes_def)
      with ref Some av show ?thesis by (auto simp: control_chars)
    qed
  next
    case ent
    then have nohash: "buf ! Suc p \<noteq> CHR ''#''"
      using acc(4) hd_snoc_NUL [of "CHR ''#''" s] by (simp add: control_chars)
    obtain pat v where f: "find_entity s = Some (pat, v)"
      using ent "2.prems"(1) by (cases "find_entity s") (auto simp: control_chars)
    let ?t = "drop (length pat + 1) s"
    have pre: "c # s = (c # pat @ '';'') @ ?t" using find_entity_Some [OF f] by simp
    have "finishes fl e buf p q (take q buf @ v # decode fl ?t)"
      using ent f nohash 2 acc loop by (intro loop_step [OF "2.prems"(2) pre]) (auto simp: control_chars)
    with ent f show ?thesis by (auto simp: control_chars)
  next
    case plain
    have "finishes fl e buf p q (take q buf @ c # decode fl s)"
      using plain 2 acc loop by (intro loop_step [OF "2.prems"(2) cs]) auto
    with plain show ?thesis by auto
  qed
qed

lemma GetStr_buffer:
  assumes "known fl raw" and "NUL \<notin> set raw"
    and "GetStr_loop fl (length raw) (raw @ [NUL]) 0 0 = (buf, q)"
  shows "cstr (buf[q := NUL]) = cstr (decode fl raw)"
proof -
  have "reading (raw @ [NUL]) (length raw) 0 0 raw" using assms(2) by (simp add: reading_def)
  from GetStr_loop_decode [OF assms(1) this] assms(3) have
    buf: "q = length (decode fl raw)" "length buf = Suc (length raw)" "q \<le> length raw" "take q buf = decode fl raw"
    by (auto simp: finishes_def)
  then have "buf[q := NUL] = decode fl raw @ NUL # drop (Suc q) buf"
    by (simp add: upd_conv_take_nth_drop)
  moreover have "cstr (s @ NUL # t) = cstr s" for s t
    by (induction s) (simp_all add: cstr_def NUL_def)
  ultimately show ?thesis by simp
qed

lemma GetStr_decode:
  assumes "known fl raw" and "NUL \<notin> set raw" and "needs_entity fl \<or> needs_newline fl" and "\<not> needs_collapse fl"
  shows "GetStr \<lparr>sp_text = raw, sp_flags = fl\<rparr> = cstr (decode fl raw)"
  using assms GetStr_buffer [OF assms(1,2)] by (auto simp: GetStr_def Let_def split: prod.splits)

lemma cstr_id: "NUL \<notin> set s \<Longrightarrow> cstr s = s"
  by (auto simp: cstr_def NUL_def takeWhile_eq_all_conv)

lemma decode_no_flags: "\<not> needs_entity fl \<Longrightarrow> \<not> needs_newline fl \<Longrightarrow> decode fl s = s"
  by (induction s) simp_all

text \<open>
  C8: For a text without zero characters in which each ampersand that is to be translated is followed by a number sign or
  starts one of the five entities, the translation in place gives the result of the reference definition without a
  buffer: it never reads what it has overwritten, because no replacement is longer than what it replaces.  A zero
  character it produces ends the string; white space is collapsed last.  For another ampersand the two can differ
  (\<open>stale_character\<close>).
\<close>

theorem GetStr_is_decode:
  assumes "known fl raw" and "NUL \<notin> set raw"
  shows "GetStr \<lparr>sp_text = raw, sp_flags = fl\<rparr> =
    (if needs_collapse fl then CollapseWhitespace (cstr (decode fl raw)) else cstr (decode fl raw))"
proof (cases "needs_entity fl \<or> needs_newline fl \<or> needs_collapse fl")
  case True
  with GetStr_buffer [OF assms] show ?thesis by (auto simp: GetStr_def Let_def split: prod.splits)
next
  case False
  with assms(2) show ?thesis by (simp add: GetStr_def decode_no_flags cstr_id)
qed

theorem GetStr_is_decode_witness:
  "GetStr \<lparr>sp_text = ''a &lt; b'', sp_flags = TEXT_ELEMENT\<rparr> = ''a < b''"
proof -
  have "decode TEXT_ELEMENT ''a &lt; b'' = ''a < b''" "known TEXT_ELEMENT ''a &lt; b''"
    by (simp_all add: flag_defs control_chars starts_with_def find_entity_def entities_def)
  then show ?thesis
    using GetStr_is_decode [of TEXT_ELEMENT "''a &lt; b''"]
    by (simp add: flag_defs NUL_def cstr_def)
qed

section \<open>Unknown entities\<close>

lemma decode_plain:
  "\<forall>c \<in> set t. c \<noteq> CHR ''&'' \<and> c \<noteq> CR \<and> c \<noteq> LF \<Longrightarrow> decode fl t = t \<and> known fl t"
  by (induction t) auto

text \<open>
  For an ampersand that starts no entity the write position moves on without writing.  Behind a
  replacement the character that is found there is a left-over of the text that was replaced:
  \<open>&lt;&t\<close> reads as \<open><lt\<close>, not as \<open><&t\<close>.
\<close>

theorem stale_character:
  assumes "\<forall>c \<in> set t. c \<noteq> CHR ''&'' \<and> c \<noteq> CR \<and> c \<noteq> LF \<and> c \<noteq> NUL"
    and "find_entity t = None" and "\<not> starts_with ''#'' t"
  shows "GetStr \<lparr>sp_text = ''&lt;&'' @ t, sp_flags = TEXT_ELEMENT\<rparr> = ''<l'' @ t \<and>
    decode TEXT_ELEMENT (''&lt;&'' @ t) = ''<&'' @ t"
proof -
  let ?buf = "''&lt;&'' @ t @ [NUL]" and ?e = "5 + length t"
  have amp: "starts_with ''lt;'' (''lt;&'' @ t)" for t by (simp add: starts_with_def)
  have lt: "find_entity (''lt;&'' @ t) = Some (''lt'', CHR ''<'')" for t
    by (simp add: find_entity_def entities_def starts_with_def)
  have no: "NUL \<notin> set t" using assms(1) by blast
  have c0: "cstr (''lt;&'' @ t @ [NUL]) = ''lt;&'' @ t"
    using cstr_append_nul [of "''lt;&'' @ t" "[]"] no by (simp add: NUL_def)
  have c1: "cstr (t @ [NUL]) = t" using no by (simp add: NUL_def)
  have h: "hd (t @ [NUL]) \<noteq> CHR ''#''" using assms(3) hd_snoc_NUL [of "CHR ''#''" t] by (simp add: NUL_def)
  have nth5: "(t @ [NUL]) ! 0 = hd (t @ [NUL])" by (cases t) auto
  have step1: "GetStr_loop TEXT_ELEMENT ?e ?buf 0 0 = GetStr_loop TEXT_ELEMENT ?e (''<lt;&'' @ t @ [NUL]) 4 1"
    using lt [of t] c0
    by (subst GetStr_loop.simps) (simp add: flag_defs control_chars numeral_eq_Suc)
  have step2: "GetStr_loop TEXT_ELEMENT ?e (''<lt;&'' @ t @ [NUL]) 4 1 =
      GetStr_loop TEXT_ELEMENT ?e (''<lt;&'' @ t @ [NUL]) 5 2"
    using assms(2) c1 h nth5
    by (subst GetStr_loop.simps) (simp add: flag_defs control_chars nth_append numeral_2_eq_2)
  have "reading (''<lt;&'' @ t @ [NUL]) ?e 5 2 t" using no by (simp add: reading_def)
  from GetStr_loop_decode [OF _ this, of TEXT_ELEMENT] decode_plain [of t TEXT_ELEMENT] assms(1)
  obtain buf where buf: "GetStr_loop TEXT_ELEMENT ?e ?buf 0 0 = (buf, 2 + length t)"
      "length buf = Suc ?e" "take (2 + length t) buf = ''<l'' @ t"
    unfolding step1 step2 by (auto simp: finishes_def)
  have "buf[2 + length t := NUL] = (''<l'' @ t) @ NUL # drop (Suc (2 + length t)) buf"
    using buf(2,3) by (simp add: upd_conv_take_nth_drop)
  then have "cstr (buf[2 + length t := NUL]) = ''<l'' @ t"
    using cstr_append_nul [of "''<l'' @ t" "drop (Suc (2 + length t)) buf"] no by (simp add: NUL_def)
  moreover have "GetStr \<lparr>sp_text = ''&lt;&'' @ t, sp_flags = TEXT_ELEMENT\<rparr> = cstr (buf[2 + length t := NUL])"
    using buf(1) by (simp add: GetStr_def TEXT_ELEMENT_def Let_def numeral_eq_Suc)
  moreover have "decode TEXT_ELEMENT (''&lt;&'' @ t) = ''<&'' @ t"
    using assms lt [of t] decode_plain [of t TEXT_ELEMENT]
    by (simp add: flag_defs control_chars starts_with_def)
  ultimately show ?thesis by simp
qed

theorem stale_character_witness: "GetStr \<lparr>sp_text = ''&lt;&t'', sp_flags = TEXT_ELEMENT\<rparr> = ''<lt''"
  using stale_character [of "''t''"] by (simp add: control_chars find_entity_def entities_def starts_with_def)

end
