(* ===== verification/Xml_Pieces.thy ===== *)
theory Xml_Pieces
  imports Xml_Render Xml_Decode Xml_Tree
begin

text \<open>
  The trees that can be written and read again, and the pieces of their text: how the parser reads escaped
  strings, names, attributes and tags.  The conditions are on the tree as its user reads it (\<open>view\<close>); each is
  needed, since the printer writes comments, CDATA and the like as they are.
\<close>

section \<open>Trees that can be written\<close>

definition plain :: "string \<Rightarrow> bool" where
  "plain s \<longleftrightarrow> NUL \<notin> set s \<and> CR \<notin> set s"

text \<open>The end tag does not occur before the end of the text.\<close>

definition ends_first :: "string \<Rightarrow> string \<Rightarrow> bool" where
  "ends_first tag s \<longleftrightarrow> list_all (\<lambda>k. \<not> starts_with tag (drop k (s @ tag))) [0..<length s]"

definition name_ok :: "string \<Rightarrow> bool" where
  "name_ok s \<longleftrightarrow> (case s of [] \<Rightarrow> False | c # t \<Rightarrow> IsNameStartChar c \<and> list_all IsNameChar t)"

definition is_Decl :: "tree \<Rightarrow> bool" where
  "is_Decl t = (case t of Decl _ \<Rightarrow> True | _ \<Rightarrow> False)"

text \<open>No two neighbours are text: the parser would read them as one.\<close>

fun spaced :: "tree list \<Rightarrow> bool" where
  "spaced (t # u # ts) \<longleftrightarrow> \<not> (is_text t \<and> is_text u) \<and> spaced (u # ts)"
| "spaced _ \<longleftrightarrow> True"

fun tree_ok :: "nat \<Rightarrow> tree \<Rightarrow> bool" where
  "tree_ok k (Elem name attrs children) \<longleftrightarrow>
     name_ok name \<and> list_all (name_ok \<circ> fst) attrs \<and> list_all (plain \<circ> snd) attrs \<and>
     distinct (map fst attrs) \<and>
     (children = [] \<or>
      0 < k \<and> list_all (\<lambda>t. tree_ok (k - 1) t \<and> \<not> is_Decl t) children \<and> spaced children)"
| "tree_ok k (Txt s cdata) \<longleftrightarrow>
     plain s \<and> (if cdata then ends_first '']]>'' s else list_ex (\<lambda>c. \<not> IsWhiteSpace c) s)"
| "tree_ok k (Comm s) \<longleftrightarrow> plain s \<and> ends_first ''-->'' s"
| "tree_ok k (Decl s) \<longleftrightarrow> plain s \<and> ends_first ''?>'' s"
| "tree_ok k (Unk s) \<longleftrightarrow>
     plain s \<and> ends_first ''>'' s \<and> \<not> starts_with ''--'' s \<and> \<not> starts_with ''[CDATA['' s"

fun decls_first :: "tree list \<Rightarrow> bool" where
  "decls_first [] = True"
| "decls_first (t # ts) \<longleftrightarrow> (if is_Decl t then decls_first ts else list_all (\<lambda>u. \<not> is_Decl u) ts)"

section \<open>Strings\<close>

lemma decode_no_entity:
  "\<not> needs_entity fl \<Longrightarrow> CR \<notin> set s \<Longrightarrow> decode fl s = s \<and> known fl s"
proof (induction s)
  case (Cons c s)
  then have "\<not> starts_with [CR] s" by (cases s) (auto simp: starts_with_def)
  with Cons show ?case by auto
qed simp

lemma GetStr_leave_entities:
  assumes "plain s"
  shows "GetStr \<lparr>sp_text = s, sp_flags = TEXT_ELEMENT_LEAVE_ENTITIES\<rparr> = s"
  using assms GetStr_decode [of TEXT_ELEMENT_LEAVE_ENTITIES s] decode_no_entity [of TEXT_ELEMENT_LEAVE_ENTITIES s]
  by (simp add: plain_def flag_defs cstr_id)

text \<open>The two flag tables of the printer.\<close>

definition escapes :: "(char \<Rightarrow> bool) \<Rightarrow> bool" where
  "escapes flag \<longleftrightarrow> flag = entityFlag \<or> flag = restrictedEntityFlag"

lemma esc_char_cases:
  assumes "escapes flag" and "flag c"
  obtains pat where "esc_char flag c = CHR ''&'' # pat @ '';''"
    and "\<And>s. find_entity (pat @ CHR '';'' # s) = Some (pat, c)" and "\<And>s. \<not> starts_with ''#'' (pat @ s)"
    and "CR \<notin> set pat" and "NUL \<notin> set pat" and "CHR ''<'' \<notin> set pat" and "CHR 0x22 \<notin> set pat"
proof -
  have "c \<in> {CHR 0x22, CHR ''&'', CHR 0x27, CHR ''<'', CHR ''>''}"
    using assms by (auto simp: escapes_def entityFlag_def restrictedEntityFlag_def entities_def)
  with assms(2) that [of "''quot''"] that [of "''amp''"] that [of "''apos''"] that [of "''lt''"] that [of "''gt''"]
  show ?thesis
    by (auto simp: esc_char_def entities_def find_entity_def starts_with_def control_chars)
qed

lemma esc_char_plain: "\<not> flag c \<Longrightarrow> esc_char flag c = [c]"
  by (simp add: esc_char_def)

lemma flag_amp: "escapes flag \<Longrightarrow> flag (CHR ''&'') \<and> flag (CHR ''<'')"
  by (auto simp: escapes_def entityFlag_def restrictedEntityFlag_def entities_def)

lemma escape_set:
  assumes "escapes flag" and "x \<notin> set s \<or> flag x" and "x \<in> {CR, NUL, CHR ''<'', CHR 0x22}"
  shows "x \<notin> set (escape flag s)"
  using assms(2)
proof (induction s)
  case (Cons c s)
  have "x \<notin> set (esc_char flag c)"
  proof (cases "flag c")
    case True
    then obtain pat where "esc_char flag c = CHR ''&'' # pat @ '';''"
      "CR \<notin> set pat" "NUL \<notin> set pat" "CHR ''<'' \<notin> set pat" "CHR 0x22 \<notin> set pat"
      using esc_char_cases [OF assms(1)] by metis
    with assms(3) show ?thesis by (auto simp: control_chars)
  qed (use Cons.prems in \<open>auto simp: esc_char_plain\<close>)
  with Cons show ?case by auto
qed simp

lemma decode_escape:
  assumes "escapes flag" and "CR \<notin> set s"
  shows "decode TEXT_ELEMENT (escape flag s) = s \<and> known TEXT_ELEMENT (escape flag s)"
  using assms(2)
proof (induction s)
  case (Cons c s)
  show ?case
  proof (cases "flag c")
    case True
    then obtain pat where pat: "esc_char flag c = CHR ''&'' # pat @ '';''"
      "\<And>s. find_entity (pat @ CHR '';'' # s) = Some (pat, c)" "\<And>s. \<not> starts_with ''#'' (pat @ s)"
      using esc_char_cases [OF assms(1)] by metis
    with Cons show ?thesis by (simp add: flag_defs control_chars)
  next
    case False
    have "\<not> starts_with [CR] (escape flag s)"
      using escape_set [OF assms(1), of CR s] Cons.prems by (cases "escape flag s") (auto simp: starts_with_def)
    moreover have "c \<noteq> CHR ''&''" using False flag_amp [OF assms(1)] by auto
    ultimately show ?thesis using Cons False by (auto simp: esc_char_plain)
  qed
qed simp

lemma GetStr_escape:
  assumes "escapes flag" and "plain s"
  shows "GetStr \<lparr>sp_text = escape flag s, sp_flags = TEXT_ELEMENT\<rparr> = s"
proof -
  have "NUL \<notin> set (escape flag s)" using escape_set [OF assms(1)] assms(2) by (simp add: plain_def)
  with decode_escape [OF assms(1), of s] GetStr_decode [of TEXT_ELEMENT "escape flag s"] assms(2)
  show ?thesis by (simp add: plain_def cstr_id) (simp add: flag_defs)
qed

section \<open>Reading the pieces\<close>

lemma starts_with_append: "length tag \<le> length s \<Longrightarrow> starts_with tag (s @ t) \<longleftrightarrow> starts_with tag s"
  by (simp add: starts_with_def)

lemma starts_with_beyond:
  assumes "\<not> starts_with q s" and "c \<notin> set q"
  shows "\<not> starts_with q (s @ c # t)"
proof
  assume q: "starts_with q (s @ c # t)"
  show False
  proof (cases "length q \<le> length s")
    case True
    with q assms(1) show ?thesis by (simp add: starts_with_append)
  next
    case False
    then have "c \<in> set (take (length q) (s @ c # t))" by (cases "length q - length s") auto
    with q assms(2) show ?thesis by (simp add: starts_with_def)
  qed
qed

lemma ends_first_Cons:
  "ends_first tag (c # s) \<longleftrightarrow> \<not> starts_with tag (c # s @ tag) \<and> ends_first tag s"
proof -
  have "list_all P [0..<length (c # s)] \<longleftrightarrow> P 0 \<and> list_all (P \<circ> Suc) [0..<length s]" for P
    using upt_conv_Cons [of 0 "length (c # s)"] map_Suc_upt [of 0 "length s"] by (simp add: list.pred_map [symmetric] del: upt_Suc)
  then show ?thesis by (simp only: ends_first_def comp_def) simp
qed

lemma ends_first_single: "ends_first [x] s \<longleftrightarrow> x \<notin> set s"
  by (induction s) (auto simp: ends_first_Cons starts_with_def, simp add: ends_first_def)

lemma parse_text_found:
  "tag \<noteq> [] \<Longrightarrow> ends_first tag s \<Longrightarrow> \<exists>l. parse_text tag acc (s @ tag @ rest) line = (Some (acc @ s, rest), l)"
proof (induction s arbitrary: acc line)
  case Nil
  then show ?case by (cases tag) (auto simp: starts_with_def)
next
  case (Cons c s)
  then have "\<not> starts_with tag (c # s @ tag @ rest)"
    using starts_with_append [of tag "c # s @ tag" rest] by (simp add: ends_first_Cons)
  with Cons.IH [of "acc @ [c]" "if c = LF then line + 1 else line"] Cons.prems show ?case
    by (simp add: ends_first_Cons)
qed

lemma ParseText_found:
  assumes "tag \<noteq> []" and "ends_first tag s"
  obtains l where "ParseText (s @ tag @ rest) tag fl line = (Some (\<lparr>sp_text = s, sp_flags = fl\<rparr>, rest), l)"
  using parse_text_found [OF assms, of "[]" rest line] that by (auto simp: ParseText_def)

lemma name_start:
  assumes "IsNameStartChar c"
  shows "\<not> IsWhiteSpace c" and "c \<notin> {CHR ''/'', CHR ''!'', CHR ''?'', CHR ''>'', NUL}"
  using assms
  by (auto simp: IsNameStartChar_def IsWhiteSpace_def IsUTF8Continuation_def isspace_def isalpha_def Let_def NUL_def)

text \<open>The characters a name can be followed by.\<close>

lemma not_name:
  "c \<in> {CHR '' '', CHR ''='', CHR ''>'', CHR ''/'', NUL} \<Longrightarrow> \<not> IsNameChar c"
  by (auto simp: IsNameChar_def IsNameStartChar_def isalpha_def isdigit_def NUL_def)

lemma ParseName_found:
  assumes "name_ok s" and "\<not> IsNameChar c"
  shows "ParseName (s @ c # rest) = Some (\<lparr>sp_text = s, sp_flags = ATTRIBUTE_NAME\<rparr>, c # rest)"
proof -
  obtain a t where s: "s = a # t" "IsNameStartChar a" "list_all IsNameChar t"
    using assms(1) by (auto simp: name_ok_def split: list.splits)
  then have "takeWhile IsNameChar (t @ c # rest) = t" "dropWhile IsNameChar (t @ c # rest) = c # rest"
    using assms(2) by (auto simp: takeWhile_tail list_all_iff dropWhile_append3 takeWhile_append2)
  with s show ?thesis by (simp add: ParseName_def)
qed

lemma name_ok_Cons: "name_ok s \<Longrightarrow> \<exists>c t. s = c # t \<and> IsNameStartChar c"
  by (auto simp: name_ok_def split: list.splits)

lemma SkipWhiteSpace_id: "\<not> IsWhiteSpace c \<Longrightarrow> SkipWhiteSpace (c # s) line = (c # s, line)"
  by simp

lemma special_not_space:
  "\<not> IsWhiteSpace (CHR ''<'')" "\<not> IsWhiteSpace (CHR ''='')" "\<not> IsWhiteSpace (CHR 0x22)"
  "\<not> IsWhiteSpace (CHR ''>'')" "\<not> IsWhiteSpace (CHR ''/'')" "IsWhiteSpace (CHR '' '')"
  by (simp_all add: IsWhiteSpace_def isspace_def IsUTF8Continuation_def)

definition attr_pair :: "string \<times> string \<Rightarrow> str_pair \<times> str_pair" where
  "attr_pair a =
     (\<lparr>sp_text = fst a, sp_flags = ATTRIBUTE_NAME\<rparr>,
      \<lparr>sp_text = escape entityFlag (snd a), sp_flags = ATTRIBUTE_VALUE\<rparr>)"

lemma escapes_flags [simp]: "escapes entityFlag" "escapes restrictedEntityFlag"
  by (simp_all add: escapes_def)

lemma attr_pair_view: "plain (snd a) \<Longrightarrow> map_prod GetStr GetStr (attr_pair a) = a"
  using GetStr_escape [of entityFlag "snd a"] by (simp add: attr_pair_def ATTRIBUTE_VALUE_def)

lemma attr_pairs_view:
  "list_all (plain \<circ> snd) attrs \<Longrightarrow> map (map_prod GetStr GetStr) (map attr_pair attrs) = attrs"
  using attr_pair_view by (induction attrs) auto

lemma XMLAttribute_found:
  assumes "name_ok (fst a)"
  obtains l where "XMLAttribute_ParseDeep (tl (render_attr a) @ rest) True line = (Some (attr_pair a, rest), l)"
proof -
  let ?q = "CHR 0x22" and ?v = "escape entityFlag (snd a)"
  have "?q \<notin> set ?v" using escape_set [of entityFlag ?q] by (simp add: entityFlag_def entities_def)
  then obtain l where l: "ParseText (?v @ [?q] @ rest) [?q] ATTRIBUTE_VALUE line =
      (Some (\<lparr>sp_text = ?v, sp_flags = ATTRIBUTE_VALUE\<rparr>, rest), l)"
    using ParseText_found [of "[?q]" ?v rest ATTRIBUTE_VALUE line] by (auto simp: ends_first_single)
  show ?thesis
    using that [of l] l ParseName_found [OF assms not_name [of "CHR ''=''"]] special_not_space
    by (simp add: XMLAttribute_ParseDeep_def render_attr_def attr_pair_def starts_with_def)
qed

lemma FindAttribute_new:
  "s \<notin> set (map fst attrs) \<Longrightarrow> FindAttribute s (map attr_pair attrs) = None"
  by (induction attrs) (auto simp: FindAttribute_def attr_pair_def)

lemma ParseAttributes_end:
  assumes "e \<in> {''>'', ''/>''}"
  shows "ParseAttributes entity name nodeLine closing attrs (e @ rest) line =
    \<lparr>ar_rest = Some rest, ar_closing = (if e = ''/>'' then CLOSED else closing), ar_attrs = attrs, ar_line = line,
     ar_error = None\<rparr>"
proof -
  obtain c t where e: "e = c # t" "\<not> IsWhiteSpace c" using assms special_not_space by auto
  have "\<not> IsNameStartChar c" using e(1) assms name_start(2) [of c] by auto
  with e assms show ?thesis
    by (auto simp: ParseAttributes.simps [of entity name nodeLine closing attrs] starts_with_def numeral_2_eq_2)
qed

lemma ParseAttributes_found:
  assumes "list_all (name_ok \<circ> fst) attrs" and "distinct (map fst (before @ attrs))" and "e \<in> {''>'', ''/>''}"
  shows "\<exists>l. ParseAttributes True name nodeLine closing (map attr_pair before)
      (concat (map render_attr attrs) @ e @ rest) line =
    \<lparr>ar_rest = Some rest, ar_closing = (if e = ''/>'' then CLOSED else closing),
     ar_attrs = map attr_pair (before @ attrs), ar_line = l, ar_error = None\<rparr>"
  using assms
proof (induction attrs arbitrary: before line)
  case Nil
  then show ?case using ParseAttributes_end [of e] by auto
next
  case (Cons a attrs)
  let ?rest = "concat (map render_attr attrs) @ e @ rest"
  have ok: "name_ok (fst a)" using Cons.prems(1) by simp
  obtain c t where c: "fst a = c # t" "IsNameStartChar c" using name_ok_Cons [OF ok] by blast
  obtain l where l: "XMLAttribute_ParseDeep (tl (render_attr a) @ ?rest) True line = (Some (attr_pair a, ?rest), l)"
    using XMLAttribute_found [OF ok] by blast
  have attr: "render_attr a = CHR '' '' # tl (render_attr a)" "tl (render_attr a) \<noteq> []"
    "hd (tl (render_attr a) @ ?rest) = c"
    using c by (simp_all add: render_attr_def)
  have skip: "SkipWhiteSpace (render_attr a @ ?rest) line = (tl (render_attr a) @ ?rest, line)"
    using c name_start(1) [OF c(2)] special_not_space by (simp add: render_attr_def)
  have new: "FindAttribute (GetStr (fst (attr_pair a))) (map attr_pair before) = None"
    using FindAttribute_new [of "fst a" before] Cons.prems(2) by (simp add: attr_pair_def)
  have "ParseAttributes True name nodeLine closing (map attr_pair before) (render_attr a @ ?rest) line =
      ParseAttributes True name nodeLine closing (map attr_pair (before @ [a])) ?rest l"
    using attr(2,3) l c(2) new by (simp add: ParseAttributes.simps [of _ _ _ _ "map attr_pair before"] skip)
  moreover have "\<exists>l'. ParseAttributes True name nodeLine closing (map attr_pair (before @ [a])) ?rest l =
    \<lparr>ar_rest = Some rest, ar_closing = (if e = ''/>'' then CLOSED else closing),
     ar_attrs = map attr_pair ((before @ [a]) @ attrs), ar_line = l', ar_error = None\<rparr>"
    using Cons.prems by (intro Cons.IH) simp_all
  ultimately show ?case by simp
qed

definition name_pair :: "string \<Rightarrow> str_pair" where
  "name_pair s = \<lparr>sp_text = s, sp_flags = ATTRIBUTE_NAME\<rparr>"

lemma GetStr_name_pair [simp]: "GetStr (name_pair s) = s"
  by (simp add: name_pair_def)

lemma open_element_found:
  assumes "name_ok n" and "list_all (name_ok \<circ> fst) attrs" and "distinct (map fst attrs)"
    and "e \<in> {''>'', ''/>''}" and "processEntities d"
  shows "\<exists>l. open_element nodeLine (n @ concat (map render_attr attrs) @ e @ rest) d =
    (Some (name_pair n, if e = ''/>'' then CLOSED else OPEN, map attr_pair attrs, rest), d\<lparr>parseCurLineNum := l\<rparr>)"
proof -
  obtain c t where c: "n = c # t" "IsNameStartChar c" using name_ok_Cons [OF assms(1)] by blast
  let ?rest = "concat (map render_attr attrs) @ e @ rest"
  obtain x xs where x: "?rest = x # xs" "\<not> IsNameChar x"
    using assms(4) not_name by (cases attrs) (auto simp: render_attr_def)
  have name: "ParseName (n @ ?rest) = Some (name_pair n, ?rest)"
    using ParseName_found [OF assms(1) x(2)] x(1) by (simp add: name_pair_def)
  have skip: "SkipWhiteSpace (n @ ?rest) line = (n @ ?rest, line)" for line
    using c name_start(1) [OF c(2)] by simp
  have slash: "\<not> starts_with ''/'' (n @ ?rest)" using c name_start(2) [OF c(2)] by (auto simp: starts_with_def)
  obtain l where "ParseAttributes True (GetStr (name_pair n)) nodeLine OPEN [] ?rest (parseCurLineNum d) =
    \<lparr>ar_rest = Some rest, ar_closing = (if e = ''/>'' then CLOSED else OPEN),
     ar_attrs = map attr_pair attrs, ar_line = l, ar_error = None\<rparr>"
    using ParseAttributes_found [OF assms(2), of "[]" e "GetStr (name_pair n)" nodeLine OPEN rest "parseCurLineNum d"] assms(3,4)
    by auto
  with assms(5) show ?thesis
    by (intro exI [of _ l]) (simp add: open_element_def skip slash name del: append_assoc)
qed

lemma closing_found:
  assumes "name_ok n"
  shows "open_element nodeLine (''/'' @ n @ ''>'' @ rest) d = (Some (name_pair n, CLOSING, [], rest), d)"
proof -
  have "ParseName (n @ ''>'' @ rest) = Some (name_pair n, ''>'' @ rest)"
    using ParseName_found [OF assms not_name [of "CHR ''>''"]] by (simp add: name_pair_def)
  with ParseAttributes_end [of "''>''"] special_not_space show ?thesis
    by (simp add: open_element_def starts_with_def)
qed

end
