(* ===== verification/Xml_Layout.thy ===== *)
theory Xml_Layout
  imports Xml_Render
begin

text \<open>
  Texts of a tree with blanks between the tags, and the printer in its default mode, which puts every
  node on a line of its own and indents it: what it writes is such a text, unless an element comes right
  behind a text.
\<close>

section \<open>Texts of a tree\<close>

definition blank :: "string \<Rightarrow> bool" where
  "blank w \<longleftrightarrow> list_all (\<lambda>c. c = CHR '' '' \<or> c = LF) w"

definition start_tag :: "string \<Rightarrow> (string \<times> string) list \<Rightarrow> string" where
  "start_tag n attrs = ''<'' @ n @ concat (map render_attr attrs)"

text \<open>
  \<open>printed_list after ts s\<close>: the nodes \<open>ts\<close> behind a text, if \<open>after\<close>.  There are no blanks next to a text,
  where they would be part of it.
\<close>

inductive printed :: "tree \<Rightarrow> string \<Rightarrow> bool" and printed_list :: "bool \<Rightarrow> tree list \<Rightarrow> string \<Rightarrow> bool" where
  leaf: "\<not> is_Elem t \<Longrightarrow> printed t (render t)"
| empty: "printed (Elem n attrs []) (start_tag n attrs @ ''/>'')"
| element: "ts \<noteq> [] \<Longrightarrow> printed_list False ts s \<Longrightarrow> blank w \<Longrightarrow> (is_text (last ts) \<longrightarrow> w = []) \<Longrightarrow>
    printed (Elem n attrs ts) (start_tag n attrs @ ''>'' @ s @ w @ ''</'' @ n @ ''>'')"
| nil: "printed_list after [] []"
| cons: "blank w \<Longrightarrow> (after \<or> is_text t \<longrightarrow> w = []) \<Longrightarrow> printed t s \<Longrightarrow> printed_list (is_text t) ts r \<Longrightarrow>
    printed_list after (t # ts) (w @ s @ r)"

inductive_simps printed_list_Nil: "printed_list after [] s"
inductive_simps printed_list_Cons: "printed_list after (t # ts) s"
inductive_cases printed_leafE: "printed (Txt s cdata) r"

lemma blank_simps [simp]:
  "blank []" "blank (c # w) \<longleftrightarrow> (c = CHR '' '' \<or> c = LF) \<and> blank w" "blank (v @ w) \<longleftrightarrow> blank v \<and> blank w"
  by (simp_all add: blank_def)

lemma printed_list_blank:
  assumes "printed_list after ts s" and "ts \<noteq> []" and "blank u" and "u \<noteq> [] \<Longrightarrow> \<not> after \<and> \<not> is_text (hd ts)"
  shows "printed_list after ts (u @ s)"
  using assms(1)
proof cases
  case (cons w t s' ts' r)
  have "printed_list after (t # ts') ((u @ w) @ s' @ r)"
    using cons assms(3,4) by (intro printed_printed_list.cons) auto
  with cons show ?thesis by simp
qed (use assms(2) in simp)

text \<open>The compact text has no blanks.\<close>

lemma printed_list_render:
  "(\<And>t. t \<in> set ts \<Longrightarrow> printed t (render t)) \<Longrightarrow> printed_list after ts (concat (map render ts))"
proof (induction ts arbitrary: after)
  case (Cons t ts)
  then have "printed_list after (t # ts) ([] @ render t @ concat (map render ts))"
    by (intro printed_printed_list.cons) auto
  then show ?case by simp
qed (simp add: printed_printed_list.nil)

lemma printed_render: "printed t (render t)"
proof (induction t)
  case (Elem n attrs ts)
  show ?case
  proof (cases "ts = []")
    case True
    then show ?thesis using printed_printed_list.empty [of n attrs] by (simp add: start_tag_def)
  next
    case False
    have "printed_list False ts (concat (map render ts))" using Elem by (rule printed_list_render)
    from printed_printed_list.element [OF False this, of "[]" n attrs] False show ?thesis by (simp add: start_tag_def)
  qed
qed (rule printed_printed_list.leaf, simp add: is_Elem_def)+

section \<open>The printer in its default mode\<close>

text \<open>
  No element comes right behind a text: the printer writes the indentation of the element also there
  (\<open>OpenElement\<close> looks at \<open>_textDepth\<close> only for the line end), and a reader takes it for more text.
\<close>

fun inline_free_list :: "tree list \<Rightarrow> bool" where
  "inline_free_list (t # u # ts) \<longleftrightarrow> \<not> (is_text t \<and> is_Elem u) \<and> inline_free_list (u # ts)"
| "inline_free_list _ \<longleftrightarrow> True"

fun inline_free :: "tree \<Rightarrow> bool" where
  "inline_free (Elem n attrs ts) \<longleftrightarrow> list_all inline_free ts \<and> inline_free_list ts"
| "inline_free t \<longleftrightarrow> True"

text \<open>The blanks a node starts with, and what is between it and the printer's text so far.\<close>

definition spaces :: "int \<Rightarrow> string" where
  "spaces depth = concat (replicate (nat depth) ''    '')"

definition lead :: "xml_printer \<Rightarrow> tree \<Rightarrow> string" where
  "lead pr t =
     (if (case t of Txt _ _ \<Rightarrow> True | _ \<Rightarrow> False) then []
      else if pr_textDepth pr < 0 \<and> \<not> pr_firstElement pr then LF # spaces (pr_depth pr)
      else if is_Elem t then spaces (pr_depth pr) else [])"

definition sealed :: "xml_printer \<Rightarrow> string" where
  "sealed pr = (if pr_elementJustOpened pr then ''>'' else [])"

lemma PrintSpace_spaces: "PrintSpace depth pr = Write (spaces depth) pr"
proof -
  have swap: "concat (replicate n s) @ s = s @ concat (replicate n s)" for n and s :: string
    by (induction n) simp_all
  have "(Write s ^^ n) pr = Write (concat (replicate n s)) pr" for n s
    by (induction n) (simp_all add: swap, simp add: Write_def)
  then show ?thesis by (simp add: PrintSpace_def spaces_def)
qed

lemma blank_spaces [simp]: "blank (spaces depth)"
  by (simp add: blank_def spaces_def list_all_iff)

lemma blank_lead: "blank (lead pr t)"
  by (simp add: lead_def)

definition kept :: "xml_printer \<Rightarrow> xml_printer \<Rightarrow> bool" where
  "kept pr pr' \<longleftrightarrow>
     pr_depth pr' = pr_depth pr \<and> pr_stack pr' = pr_stack pr \<and> \<not> pr_elementJustOpened pr' \<and>
     \<not> pr_compactMode pr' \<and> pr_processEntities pr'"

text \<open>A node has been written behind \<open>lead\<close>; \<open>u\<close> is the line end behind an element of the document.\<close>

definition indented :: "xml_printer \<Rightarrow> tree \<Rightarrow> xml_printer \<Rightarrow> bool" where
  "indented pr t pr' \<longleftrightarrow>
     (\<exists>s. printed t s \<and>
        pr_out pr' = pr_out pr @ sealed pr @ lead pr t @ s @ (if is_Elem t \<and> pr_depth pr = 0 then [LF] else [])) \<and>
     (is_text t \<longrightarrow> pr_textDepth pr' = pr_depth pr - 1) \<and>
     kept pr pr'"

lemma Write_more [simp]:
  "pr_depth (Write s pr) = pr_depth pr" "pr_textDepth (Write s pr) = pr_textDepth pr"
  "pr_firstElement (Write s pr) = pr_firstElement pr"
  by (simp_all add: Write_def)

lemma printed_leaves:
  "printed (Comm s) (''<!--'' @ s @ ''-->'')" "printed (Decl s) (''<?'' @ s @ ''?>'')" "printed (Unk s) (''<!'' @ s @ ''>'')"
  "printed (Txt s True) (''<![CDATA['' @ s @ '']]>'')" "printed (Txt s False) (escape restrictedEntityFlag s)"
  using printed_render [of "Comm s"] printed_render [of "Decl s"] printed_render [of "Unk s"]
    printed_render [of "Txt s True"] printed_render [of "Txt s False"]
  by simp_all

lemma indented_leaf:
  assumes "\<not> pr_compactMode pr" and "pr_processEntities pr"
  shows "indented pr (Comm s) (PushComment s pr)"
    and "indented pr (Decl s) (PushDeclaration s pr)"
    and "indented pr (Unk s) (PushUnknown s pr)"
    and "fits (Txt s cdata) \<Longrightarrow> indented pr (Txt s cdata) (PushText s cdata pr)"
  unfolding indented_def kept_def
  using assms printed_leaves [of s]
  by (auto simp: PushComment_def PushDeclaration_def PushUnknown_def PushText_def new_line_def
      SealElementIfJustOpened_def Putc_Write Let_def PrintString_escape sealed_def lead_def is_text_def is_Elem_def
      PrintSpace_spaces)

lemma Elem_no_text: "is_Elem t \<Longrightarrow> \<not> is_text t"
  by (cases t) (simp_all add: is_Elem_def is_text_def)

lemma printed_starts: "printed t s \<Longrightarrow> \<not> is_text t \<Longrightarrow> \<exists>xs. s = CHR ''<'' # xs \<and> xs \<noteq> []"
  by (cases rule: printed.cases, assumption) (auto simp: start_tag_def is_text_def is_Elem_def split: tree.splits)

lemma printed_list_starts: "printed_list True (u # us) r \<Longrightarrow> \<not> is_text u \<Longrightarrow> \<exists>xs. r = CHR ''<'' # xs \<and> xs \<noteq> []"
  by (cases rule: printed_list.cases, assumption) (auto dest: printed_starts)

lemma indented_children:
  assumes "\<not> pr_compactMode pr" and "pr_processEntities pr" and "ns \<noteq> []" and "0 \<le> pr_depth pr"
    and "inline_free_list (map view ns)" and "after \<longrightarrow> 0 \<le> pr_textDepth pr \<and> \<not> is_Elem (view (hd ns))"
    and "pr_depth pr = 0 \<longrightarrow> list_all (\<lambda>n. \<not> is_text (view n)) ns"
    and "\<And>n pr. n \<in> set ns \<Longrightarrow> \<not> pr_compactMode pr \<Longrightarrow> pr_processEntities pr \<Longrightarrow> 0 \<le> pr_depth pr \<Longrightarrow>
      indented pr (view n) (snd (Accept printer n pr))"
  shows "\<exists>s u. pr_out (fold (\<lambda>n pr. snd (Accept printer n pr)) ns pr) = pr_out pr @ sealed pr @ s @ u \<and>
    blank u \<and> (0 < pr_depth pr \<longrightarrow> u = []) \<and> printed_list after (map view ns) s \<and>
    (lead pr (view (hd ns)) = [] \<and> \<not> is_text (view (hd ns)) \<longrightarrow> (\<exists>xs. s = CHR ''<'' # xs)) \<and>
    kept pr (fold (\<lambda>n pr. snd (Accept printer n pr)) ns pr) \<and>
    (is_text (view (last ns)) \<longrightarrow> pr_textDepth (fold (\<lambda>n pr. snd (Accept printer n pr)) ns pr) = pr_depth pr - 1)"
  using assms
proof (induction ns arbitrary: pr after)
  case (Cons n ns)
  let ?pr = "snd (Accept printer n pr)" and ?t = "view n"
  let ?u = "if is_Elem ?t \<and> pr_depth pr = 0 then [LF] else []"
  have n: "indented pr ?t ?pr" using Cons.prems by simp
  then obtain s where s: "printed ?t s" "pr_out ?pr = pr_out pr @ sealed pr @ lead pr ?t @ s @ ?u"
    by (auto simp: indented_def)
  have k: "kept pr ?pr" and td: "is_text ?t \<longrightarrow> pr_textDepth ?pr = pr_depth pr - 1" using n by (simp_all add: indented_def)
  have lead: "after \<or> is_text ?t \<longrightarrow> lead pr ?t = []"
    using Cons.prems(6) by (auto simp: lead_def is_text_def is_Elem_def split: tree.splits)
  have start: "lead pr ?t = [] \<and> \<not> is_text ?t \<longrightarrow> (\<exists>xs. lead pr ?t @ s @ r = CHR ''<'' # xs)" for r
    using printed_starts [OF s(1)] by auto
  show ?case
  proof (cases "ns = []")
    case True
    have "printed_list after [?t] (lead pr ?t @ s @ [])"
      using blank_lead lead s(1) by (intro printed_printed_list.cons) (auto intro: nil)
    with True s(2) k td start [of "[]"] show ?thesis
      by (intro exI [of _ "lead pr ?t @ s"] exI [of _ ?u]) auto
  next
    case False
    have "is_text ?t \<longrightarrow> 0 \<le> pr_textDepth ?pr \<and> \<not> is_Elem (view (hd ns))"
      using td Cons.prems(4,5,7) False by (cases ns) auto
    moreover have "inline_free_list (map view ns)" using Cons.prems(5) False by (cases ns) auto
    ultimately obtain s2 u2 where r: "pr_out (fold (\<lambda>n pr. snd (Accept printer n pr)) ns ?pr) = pr_out ?pr @ sealed ?pr @ s2 @ u2"
      "blank u2" "0 < pr_depth ?pr \<longrightarrow> u2 = []" "printed_list (is_text ?t) (map view ns) s2"
      "kept ?pr (fold (\<lambda>n pr. snd (Accept printer n pr)) ns ?pr)"
      "is_text (view (last ns)) \<longrightarrow> pr_textDepth (fold (\<lambda>n pr. snd (Accept printer n pr)) ns ?pr) = pr_depth ?pr - 1"
      using Cons.IH [of ?pr "is_text ?t"] Cons.prems(4,7,8) k False by (auto simp: kept_def)
    have "pr_depth pr = 0 \<longrightarrow> \<not> is_text (hd (map view ns))" using Cons.prems(7) False by (cases ns) auto
    then have "printed_list (is_text ?t) (map view ns) (?u @ s2)"
      using r(4) False Elem_no_text by (intro printed_list_blank) (auto split: if_splits)
    then have list: "printed_list after (map view (n # ns)) (lead pr ?t @ s @ ?u @ s2)"
      unfolding list.map using blank_lead lead s(1) by (intro printed_printed_list.cons)
    have out: "pr_out (fold (\<lambda>n pr. snd (Accept printer n pr)) (n # ns) pr) = pr_out pr @ sealed pr @ (lead pr ?t @ s @ ?u @ s2) @ u2"
      using s(2) r(1) k by (simp add: sealed_def kept_def)
    have "kept pr (fold (\<lambda>n pr. snd (Accept printer n pr)) (n # ns) pr)" using r(5) k by (simp add: kept_def)
    with out list r(2,3,6) k start [of "?u @ s2"] False show ?thesis
      unfolding kept_def by (intro exI [of _ "lead pr ?t @ s @ ?u @ s2"] exI [of _ u2] conjI) simp_all
  qed
qed simp

lemma open_indented:
  assumes "list_all (\<lambda>a. length (GetStr (snd a)) \<le> INT_MAX) attrs" and "pr_processEntities pr" and "\<not> pr_compactMode pr"
  shows "snd (printer_enter_element name attrs pr) =
    Write (sealed pr @ lead pr (Elem n a ts) @ start_tag (GetStr name) (map (map_prod GetStr GetStr) attrs))
      (pr\<lparr>pr_stack := GetStr name # pr_stack pr, pr_elementJustOpened := True, pr_firstElement := False,
          pr_depth := pr_depth pr + 1\<rparr>)"
proof -
  let ?pr = "OpenElement (GetStr name) False pr"
  have "?pr = Write (sealed pr @ lead pr (Elem n a ts) @ ''<'' @ GetStr name)
      (pr\<lparr>pr_stack := GetStr name # pr_stack pr, pr_elementJustOpened := True, pr_firstElement := False,
          pr_depth := pr_depth pr + 1\<rparr>)"
    by (simp add: OpenElement_def SealElementIfJustOpened_def Putc_Write PrintSpace_spaces sealed_def lead_def is_Elem_def Let_def
        Write_def)
  then show ?thesis
    using push_attributes [OF assms(1), of ?pr] assms(2,3)
    by (simp add: printer_enter_element_def start_tag_def comp_def)
qed

lemma close_indented:
  assumes "\<not> pr_compactMode pr" and "pr_stack pr = n # st" and "ts \<noteq> [] \<and> is_text (last ts) \<longrightarrow> 0 \<le> pr_textDepth pr" and "ts = [] \<longleftrightarrow> pr_elementJustOpened pr"
  shows "\<exists>w pr'. printer_exit_element name pr = (True, pr') \<and> blank w \<and> (ts \<noteq> [] \<and> is_text (last ts) \<longrightarrow> w = []) \<and>
    pr_out pr' = pr_out pr @ (if ts = [] then ''/>'' else w @ ''</'' @ n @ ''>'') @ (if pr_depth pr = 1 then [LF] else []) \<and>
    pr_depth pr' = pr_depth pr - 1 \<and> pr_stack pr' = st \<and> \<not> pr_elementJustOpened pr' \<and> \<not> pr_compactMode pr' \<and>
    pr_processEntities pr' = pr_processEntities pr"
  using assms
  by (intro exI [of _ "if pr_textDepth pr < 0 then LF # spaces (pr_depth pr - 1) else []"] exI [of _ "CloseElement False pr"])
    (auto simp: printer_exit_element_def CloseElement_def Putc_Write PrintSpace_spaces Let_def)

lemma Accept_indented:
  assumes "fits (view n)" and "inline_free (view n)" and "\<not> pr_compactMode pr" and "pr_processEntities pr" and "0 \<le> pr_depth pr"
  shows "indented pr (view n) (snd (Accept printer n pr))"
  using assms
proof (induction n arbitrary: pr)
  case (XMLElement name closing attrs children)
  let ?t = "view (XMLElement name closing attrs children)" and ?ts = "map view children"
  let ?pr = "snd (printer_enter_element name attrs pr)" and ?a = "map (map_prod GetStr GetStr) attrs"
  let ?pr1 = "fold (\<lambda>n pr. snd (Accept printer n pr)) children ?pr"
  have attrs: "list_all (\<lambda>a. length (GetStr (snd a)) \<le> INT_MAX) attrs"
    using XMLElement.prems(1) by (auto simp: list_all_iff)
  have enter: "pr_out ?pr = pr_out pr @ sealed pr @ lead pr ?t @ start_tag (GetStr name) ?a"
    "pr_stack ?pr = GetStr name # pr_stack pr" "pr_elementJustOpened ?pr" "\<not> pr_compactMode ?pr" "pr_processEntities ?pr"
    "pr_depth ?pr = pr_depth pr + 1"
    using open_indented [OF attrs XMLElement.prems(4,3), of name "GetStr name" ?a ?ts] XMLElement.prems(3,4) by simp_all
  have inside: "\<exists>s. pr_out ?pr1 = pr_out ?pr @ s \<and> (if children = [] then s = [] else \<exists>r. s = ''>'' @ r \<and> printed_list False ?ts r) \<and>
      pr_stack ?pr1 = pr_stack ?pr \<and> \<not> pr_compactMode ?pr1 \<and> pr_processEntities ?pr1 \<and> pr_depth ?pr1 = pr_depth ?pr \<and>
      (pr_elementJustOpened ?pr1 \<longleftrightarrow> children = []) \<and>
      (children \<noteq> [] \<and> is_text (last ?ts) \<longrightarrow> 0 \<le> pr_textDepth ?pr1)"
  proof (cases "children = []")
    case False
    have fi: "n \<in> set children \<Longrightarrow> fits (view n) \<and> inline_free (view n)" for n
      using XMLElement.prems(1,2) by (auto simp: list_all_iff)
    have ifl: "inline_free_list ?ts" using XMLElement.prems(2) by simp
    obtain s where "pr_out ?pr1 = pr_out ?pr @ sealed ?pr @ s" "printed_list False ?ts s" "kept ?pr ?pr1"
      "is_text (view (last children)) \<longrightarrow> pr_textDepth ?pr1 = pr_depth ?pr - 1"
      using indented_children [OF enter(4,5) False _ ifl, of False] XMLElement.IH fi enter(6) XMLElement.prems(5) by auto
    with False enter(3,6) XMLElement.prems(5) show ?thesis
      by (intro exI [of _ "''>'' @ s"]) (auto simp: kept_def sealed_def last_map)
  qed (use enter in simp)
  then obtain s where s: "pr_out ?pr1 = pr_out ?pr @ s"
    "if children = [] then s = [] else \<exists>r. s = ''>'' @ r \<and> printed_list False ?ts r"
    "pr_stack ?pr1 = GetStr name # pr_stack pr" "\<not> pr_compactMode ?pr1" "pr_processEntities ?pr1"
    "pr_depth ?pr1 = pr_depth pr + 1" "pr_elementJustOpened ?pr1 \<longleftrightarrow> ?ts = []"
    "?ts \<noteq> [] \<and> is_text (last ?ts) \<longrightarrow> 0 \<le> pr_textDepth ?pr1"
    using enter by auto
  obtain w pr' where c: "printer_exit_element name ?pr1 = (True, pr')" "blank w" "?ts \<noteq> [] \<and> is_text (last ?ts) \<longrightarrow> w = []"
    "pr_out pr' = pr_out ?pr1 @ (if ?ts = [] then ''/>'' else w @ ''</'' @ GetStr name @ ''>'') @ (if pr_depth ?pr1 = 1 then [LF] else [])"
    "pr_depth pr' = pr_depth ?pr1 - 1" "pr_stack pr' = pr_stack pr" "\<not> pr_elementJustOpened pr'" "\<not> pr_compactMode pr'"
    "pr_processEntities pr' = pr_processEntities ?pr1"
    using close_indented [OF s(4,3,8) s(7) [symmetric], of name] by auto
  have "\<exists>out. printed ?t out \<and> pr_out ?pr1 @ (if ?ts = [] then ''/>'' else w @ ''</'' @ GetStr name @ ''>'') =
      pr_out pr @ sealed pr @ lead pr ?t @ out"
  proof (cases "children = []")
    case True
    with s(1,2) enter(1) printed_printed_list.empty [of "GetStr name" ?a] show ?thesis by auto
  next
    case False
    with s(2) obtain r where r: "s = ''>'' @ r" "printed_list False ?ts r" by auto
    let ?out = "start_tag (GetStr name) ?a @ ''>'' @ r @ w @ ''</'' @ GetStr name @ ''>''"
    have "printed ?t ?out"
      using printed_printed_list.element [OF _ r(2) c(2)] False c(3) by simp
    moreover have "pr_out ?pr1 @ (if ?ts = [] then ''/>'' else w @ ''</'' @ GetStr name @ ''>'') =
        pr_out pr @ sealed pr @ lead pr ?t @ ?out"
      using False s(1) enter(1) r(1) by simp
    ultimately show ?thesis by blast
  qed
  then obtain out where out: "printed ?t out"
    "pr_out ?pr1 @ (if ?ts = [] then ''/>'' else w @ ''</'' @ GetStr name @ ''>'') = pr_out pr @ sealed pr @ lead pr ?t @ out"
    by blast
  have "snd (Accept printer (XMLElement name closing attrs children) pr) = pr'"
    unfolding pv.visits_element using c(1) by (simp add: printer_def)
  moreover have "pr_out pr' = pr_out pr @ sealed pr @ lead pr ?t @ out @ (if pr_depth pr = 0 then [LF] else [])"
    using c(4) s(6) arg_cong [OF out(2), of "\<lambda>x. x @ (if pr_depth pr = 0 then [LF] else [])"] by (simp del: view.simps)
  ultimately show ?case
    using out(1) c(5-9) s(5,6) by (auto simp: indented_def kept_def is_text_def is_Elem_def simp del: Accept.simps)
qed (use indented_leaf in \<open>simp_all add: printer_def\<close>)

section \<open>Saved files\<close>

lemma inline_free_no_text: "list_all (\<lambda>t. \<not> is_text t) ts \<Longrightarrow> inline_free_list ts"
  by (induction ts rule: inline_free_list.induct) auto

lemma SaveFile_indented:
  assumes "ns \<noteq> []" and "list_all (fits \<circ> view) ns" and "list_all (inline_free \<circ> view) ns"
    and "list_all (\<lambda>t. \<not> is_text t) (map view ns)" and "processEntities d"
  shows "\<exists>s u. fst (SaveFile filename True False ns d) =
      Some ((if writeBOM d then [CHR 0xEF, CHR 0xBB, CHR 0xBF] else []) @ s @ u) \<and>
    blank u \<and> printed_list False (map view ns) s \<and> (\<exists>xs. s = CHR ''<'' # xs)"
proof -
  let ?pr = "snd (printer_enter_doc d (XMLPrinter False 0))"
  have enter: "pr_out ?pr = (if writeBOM d then [CHR 0xEF, CHR 0xBB, CHR 0xBF] else [])"
      "\<not> pr_compactMode ?pr" "pr_processEntities ?pr" "sealed ?pr = []" "pr_depth ?pr = 0" "pr_firstElement ?pr"
    using assms(5) by (simp_all add: printer_enter_doc_def XMLPrinter_def PushHeader_def sealed_def Let_def)
  have lead: "lead ?pr (view (hd ns)) = [] \<and> \<not> is_text (view (hd ns))"
    using enter(5,6) assms(1,4) by (cases ns) (auto simp: lead_def spaces_def)
  have nodes: "indented pr (view n) (snd (Accept printer n pr))"
    if "n \<in> set ns" "\<not> pr_compactMode pr" "pr_processEntities pr" "0 \<le> pr_depth pr" for n pr
    using Accept_indented that assms(2,3) by (simp add: list_all_iff)
  have "inline_free_list (map view ns)" using assms(4) by (rule inline_free_no_text)
  from indented_children [OF enter(2,3) assms(1) _ this, of False] enter(5) assms(4) nodes
  obtain s u where "pr_out (fold (\<lambda>n pr. snd (Accept printer n pr)) ns ?pr) = pr_out ?pr @ sealed ?pr @ s @ u"
    "blank u" "printed_list False (map view ns) s" "\<exists>xs. s = CHR ''<'' # xs"
    using lead by (auto simp: list_all_iff)
  moreover have "fst (SaveFile filename True False ns d) = Some (pr_out (fold (\<lambda>n pr. snd (Accept printer n pr)) ns ?pr))"
    by (simp add: SaveFile_def Print_doc_def pv.visits_document) (simp add: printer_def XMLVisitor_def)
  ultimately show ?thesis using enter(1,4) by (intro exI [of _ s] exI [of _ u]) simp
qed

lemma SaveFile_printed:
  assumes "ns \<noteq> []" and "list_all (fits \<circ> view) ns" and "compact \<or> list_all (inline_free \<circ> view) ns"
    and "list_all (\<lambda>t. \<not> is_text t) (map view ns)" and "processEntities d"
  shows "\<exists>s u. fst (SaveFile filename True compact ns d) =
      Some ((if writeBOM d then [CHR 0xEF, CHR 0xBB, CHR 0xBF] else []) @ s @ u) \<and>
    blank u \<and> printed_list False (map view ns) s \<and> (\<exists>xs. s = CHR ''<'' # xs)"
proof (cases compact)
  case True
  obtain n ms where ns: "ns = n # ms" using assms(1) by (cases ns) auto
  have "\<exists>xs. concat (map (render \<circ> view) ns) = CHR ''<'' # xs"
    using printed_starts [OF printed_render, of "view n"] assms(4) ns by auto
  moreover have "printed_list False (map view ns) (concat (map (render \<circ> view) ns))"
    using printed_list_render [of "map view ns" False] printed_render by simp
  ultimately show ?thesis
    using True SaveFile_compact [OF assms(2,5), of filename]
    by (intro exI [of _ "concat (map (render \<circ> view) ns)"] exI [of _ "[]"]) simp
next
  case False
  then have "list_all (inline_free \<circ> view) ns" using assms(3) by simp
  from SaveFile_indented [OF assms(1,2) this assms(4,5), of filename] False show ?thesis by simp
qed

end
