(* ===== verification/Xml_Roundtrip.thy ===== *)
theory Xml_Roundtrip
  imports Xml_Pieces Xml_Layout
begin

text \<open>
  A document that is saved and loaded again is the same document, in compact form and, without elements
  behind texts, in the default form.
\<close>

section \<open>Reading a node\<close>

text \<open>The document while text is read without an error, with room for \<open>k\<close> more levels.\<close>

definition ready :: "nat \<Rightarrow> xml_doc \<Rightarrow> bool" where
  "ready k d \<longleftrightarrow> parsingDepth d + k \<le> 99 \<and> \<not> Error d \<and> processEntities d \<and> \<not> collapseWhitespace d"

lemma ready_line [simp]: "ready k (d\<lparr>parseCurLineNum := l\<rparr>) = ready k d"
  by (simp add: ready_def Error_def)

definition follow :: "tree \<Rightarrow> string \<Rightarrow> bool" where
  "follow t tail \<longleftrightarrow> (is_text t \<longrightarrow> (\<exists>xs. tail = CHR ''<'' # xs \<and> xs \<noteq> []))"

text \<open>The parser takes \<open>s\<close> for the tree \<open>t\<close> and adds it to the siblings.\<close>

definition parses :: "nat \<Rightarrow> tree \<Rightarrow> string \<Rightarrow> bool" where
  "parses k t s \<longleftrightarrow>
     (\<forall>fuel is_doc sibs tail d.
        ready k d \<longrightarrow> follow t tail \<longrightarrow> length (s @ tail) \<le> fuel \<longrightarrow>
        (is_Decl t \<longrightarrow> is_doc \<and> list_all is_declaration sibs) \<longrightarrow>
        (\<exists>n l. view n = t \<and>
           ParseDeep_loop (Suc fuel) is_doc sibs (s @ tail) d =
             ParseDeep_loop fuel is_doc (sibs @ [n]) tail (d\<lparr>parseCurLineNum := l\<rparr>)))"

lemma parsesD:
  assumes "parses k t s" and "ready k d" and "follow t tail" and "length (s @ tail) \<le> fuel"
    and "is_Decl t \<longrightarrow> is_doc \<and> list_all is_declaration sibs"
  shows "\<exists>n l. view n = t \<and> ParseDeep_loop (Suc fuel) is_doc sibs (s @ tail) d =
    ParseDeep_loop fuel is_doc (sibs @ [n]) tail (d\<lparr>parseCurLineNum := l\<rparr>)"
  using assms unfolding parses_def by blast

text \<open>One round of the loop, from what reading the node gives.\<close>

lemma loop_round:
  assumes "p \<noteq> []" and "Identify p (parseCurLineNum d) = (p1, Some (k, l), line)"
    and "node_ParseDeep (ParseDeep_loop fuel False []) k l p1 (d\<lparr>parseCurLineNum := line\<rparr>) =
      Some (Some (n, tail), tag, d\<lparr>parseCurLineNum := line'\<rparr>)"
    and "place_node is_doc sibs l tag n (d\<lparr>parseCurLineNum := line'\<rparr>) = Insert_node"
  shows "ParseDeep_loop (Suc fuel) is_doc sibs p d =
    ParseDeep_loop fuel is_doc (sibs @ [n]) tail (d\<lparr>parseCurLineNum := line'\<rparr>)"
  using assms by (simp add: ParseDeep_loop.simps(2))

text \<open>Leaves between a start and an end tag.\<close>

lemma leaf_round:
  assumes p: "p = start @ s @ endTag @ tail" and start: "start \<noteq> []" "endTag \<noteq> []"
    and ident: "\<And>line. Identify p line = (s @ endTag @ tail, Some (k, line), line)"
    and leaf: "\<And>l d. parse_leaf k l (s @ endTag @ tail) d =
      (let (r, d') = parse_into mk (s @ endTag @ tail) endTag TEXT_ELEMENT_LEAVE_ENTITIES d in fail err l r d')"
    and kind: "k \<noteq> Element_kind" and place: "\<And>l v d. place_node is_doc sibs l None (mk v) d = Insert_node"
    and s: "ends_first endTag s"
  shows "\<exists>l. ParseDeep_loop (Suc fuel) is_doc sibs p d =
    ParseDeep_loop fuel is_doc (sibs @ [mk \<lparr>sp_text = s, sp_flags = TEXT_ELEMENT_LEAVE_ENTITIES\<rparr>]) tail
      (d\<lparr>parseCurLineNum := l\<rparr>)"
proof -
  obtain l where l: "ParseText (s @ endTag @ tail) endTag TEXT_ELEMENT_LEAVE_ENTITIES (parseCurLineNum d) =
      (Some (\<lparr>sp_text = s, sp_flags = TEXT_ELEMENT_LEAVE_ENTITIES\<rparr>, tail), l)"
    using ParseText_found [OF start(2) s] by blast
  have "node_ParseDeep (ParseDeep_loop fuel False []) k (parseCurLineNum d) (s @ endTag @ tail)
      (d\<lparr>parseCurLineNum := parseCurLineNum d\<rparr>) =
      Some (Some (mk \<lparr>sp_text = s, sp_flags = TEXT_ELEMENT_LEAVE_ENTITIES\<rparr>, tail), None, d\<lparr>parseCurLineNum := l\<rparr>)"
    using kind l by (simp add: node_ParseDeep_def leaf parse_into_def fail_def)
  moreover have "p \<noteq> []" using p start(1) by simp
  ultimately show ?thesis using loop_round [OF _ ident] place by blast
qed

lemma parses_between:
  assumes text_of: "render t = start @ s @ endTag" and start: "start \<noteq> []" "endTag \<noteq> []"
    and s: "plain s" "ends_first endTag s" and view: "\<And>v. GetStr v = s \<Longrightarrow> view (mk v) = t"
    and ident: "\<And>tail line. Identify (start @ s @ endTag @ tail) line = (s @ endTag @ tail, Some (kd, line), line)"
    and leaf: "\<And>l p d. parse_leaf kd l p d =
      (let (r, d') = parse_into mk p endTag TEXT_ELEMENT_LEAVE_ENTITIES d in fail err l r d')"
    and kind: "kd \<noteq> Element_kind"
    and place: "\<And>is_doc sibs l v d. (is_Decl t \<longrightarrow> is_doc \<and> list_all is_declaration sibs) \<Longrightarrow>
      place_node is_doc sibs l None (mk v) d = Insert_node"
  shows "parses k t (render t)"
  unfolding parses_def
proof (intro allI impI)
  fix fuel is_doc sibs tail d
  assume decl: "is_Decl t \<longrightarrow> is_doc \<and> list_all is_declaration sibs"
  let ?v = "\<lparr>sp_text = s, sp_flags = TEXT_ELEMENT_LEAVE_ENTITIES\<rparr>"
  have "\<exists>l. ParseDeep_loop (Suc fuel) is_doc sibs (start @ s @ endTag @ tail) d =
      ParseDeep_loop fuel is_doc (sibs @ [mk ?v]) tail (d\<lparr>parseCurLineNum := l\<rparr>)"
    by (rule leaf_round [OF refl start ident leaf kind place [OF decl] s(2)])
  then show "\<exists>n l. view n = t \<and> ParseDeep_loop (Suc fuel) is_doc sibs (render t @ tail) d =
      ParseDeep_loop fuel is_doc (sibs @ [n]) tail (d\<lparr>parseCurLineNum := l\<rparr>)"
    using view [OF GetStr_leave_entities [OF s(1)]] by (intro exI [of _ "mk ?v"]) (simp add: text_of)
qed

lemmas leaf_defs = Identify_def starts_with_def parse_leaf_def place_node_def is_declaration_def COMMENT_def
  XMLText_ParseDeep_def XMLComment_ParseDeep_def XMLDeclaration_ParseDeep_def XMLUnknown_ParseDeep_def

lemma parses_cdata:
  assumes "tree_ok k (Txt s True)" shows "parses k (Txt s True) (render (Txt s True))"
  by (rule parses_between [where start = "''<![CDATA[''" and s = s and endTag = "'']]>''" and kd = "Text_kind True"
        and mk = "\<lambda>v. XMLText v True" and err = XML_ERROR_PARSING_CDATA])
    (use assms special_not_space in \<open>simp_all add: leaf_defs\<close>)

lemma parses_comment:
  assumes "tree_ok k (Comm s)" shows "parses k (Comm s) (render (Comm s))"
  by (rule parses_between [where start = "''<!--''" and s = s and endTag = "''-->''" and kd = Comment_kind
        and mk = XMLComment and err = XML_ERROR_PARSING_COMMENT])
    (use assms special_not_space in \<open>simp_all add: leaf_defs\<close>)

lemma parses_declaration:
  assumes "tree_ok k (Decl s)" shows "parses k (Decl s) (render (Decl s))"
  by (rule parses_between [where start = "''<?''" and s = s and endTag = "''?>''" and kd = Declaration_kind
        and mk = XMLDeclaration and err = XML_ERROR_PARSING_DECLARATION])
    (use assms special_not_space in \<open>simp_all add: leaf_defs is_Decl_def\<close>)

lemma parses_unknown:
  assumes "tree_ok k (Unk s)" shows "parses k (Unk s) (render (Unk s))"
proof (rule parses_between [where start = "''<!''" and s = s and endTag = "''>''" and kd = Unknown_kind
      and mk = XMLUnknown and err = XML_ERROR_PARSING_UNKNOWN])
  fix tail line
  have "\<not> starts_with ''--'' (s @ ''>'' @ tail)" "\<not> starts_with ''[CDATA['' (s @ ''>'' @ tail)"
    using assms starts_with_beyond [of _ s "CHR ''>''" tail] by simp_all
  then show "Identify (''<!'' @ s @ ''>'' @ tail) line = (s @ ''>'' @ tail, Some (Unknown_kind, line), line)"
    using special_not_space by (simp add: leaf_defs)
qed (use assms in \<open>simp_all add: leaf_defs\<close>)

lemma SkipWhiteSpace_stops:
  "list_ex (\<lambda>c. \<not> IsWhiteSpace c) e \<Longrightarrow> \<exists>c q l. SkipWhiteSpace (e @ tail) line = (c # q, l) \<and> c \<in> set e"
  by (induction e arbitrary: line) force+

lemma escape_not_space:
  assumes "list_ex (\<lambda>c. \<not> IsWhiteSpace c) s"
  shows "list_ex (\<lambda>c. \<not> IsWhiteSpace c) (escape restrictedEntityFlag s)"
  using assms
proof (induction s)
  case (Cons c s)
  have "list_ex (\<lambda>c. \<not> IsWhiteSpace c) (esc_char restrictedEntityFlag c)" if "\<not> IsWhiteSpace c"
  proof (cases "restrictedEntityFlag c")
    case True
    then obtain pat where "esc_char restrictedEntityFlag c = CHR ''&'' # pat @ '';''"
      using esc_char_cases [of restrictedEntityFlag c] by (metis escapes_flags(2))
    then show ?thesis by (simp add: IsWhiteSpace_def isspace_def)
  qed (use that in \<open>simp add: esc_char_plain\<close>)
  with Cons show ?case by (auto simp: list_ex_append)
qed simp

lemma parses_text:
  assumes "tree_ok k (Txt s False)"
  shows "parses k (Txt s False) (render (Txt s False))"
  unfolding parses_def
proof (intro allI impI)
  fix fuel is_doc sibs tail d
  assume d: "ready k d" and "follow (Txt s False) tail"
  then obtain xs where tail: "tail = CHR ''<'' # xs" "xs \<noteq> []" by (auto simp: follow_def is_text_def)
  let ?e = "escape restrictedEntityFlag s"
  let ?n = "XMLText \<lparr>sp_text = ?e, sp_flags = TEXT_ELEMENT\<rparr> False"
  have s: "plain s" "list_ex (\<lambda>c. \<not> IsWhiteSpace c) ?e" using assms escape_not_space by auto
  have e: "CHR ''<'' \<notin> set ?e" using escape_set [of restrictedEntityFlag "CHR ''<''"] by (simp add: restrictedEntityFlag_def)
  obtain c q l where skip: "SkipWhiteSpace (?e @ tail) (parseCurLineNum d) = (c # q, l)" "c \<in> set ?e"
    using SkipWhiteSpace_stops [OF s(2)] by blast
  then have c: "c \<noteq> CHR ''<''" using e by auto
  have ident: "Identify (?e @ tail) (parseCurLineNum d) = (?e @ tail, Some (Text_kind False, l), parseCurLineNum d)"
    using skip c by (simp add: Identify_def starts_with_def)
  obtain l' where "ParseText (?e @ ''<'' @ xs) ''<'' TEXT_ELEMENT (parseCurLineNum d) =
      (Some (\<lparr>sp_text = ?e, sp_flags = TEXT_ELEMENT\<rparr>, xs), l')"
    using ParseText_found [of "''<''" ?e xs TEXT_ELEMENT "parseCurLineNum d"] e by (auto simp: ends_first_single)
  then have "node_ParseDeep (ParseDeep_loop fuel False []) (Text_kind False) l (?e @ tail) (d\<lparr>parseCurLineNum := parseCurLineNum d\<rparr>) =
      Some (Some (?n, tail), None, d\<lparr>parseCurLineNum := l'\<rparr>)"
    using d tail by (simp add: node_ParseDeep_def parse_leaf_def XMLText_ParseDeep_def parse_into_def ready_def)
  moreover have "?e @ tail \<noteq> []" using tail by simp
  moreover have "place_node is_doc sibs l None ?n (d\<lparr>parseCurLineNum := l'\<rparr>) = Insert_node"
    by (simp add: place_node_def is_declaration_def)
  ultimately have "ParseDeep_loop (Suc fuel) is_doc sibs (?e @ tail) d =
      ParseDeep_loop fuel is_doc (sibs @ [?n]) tail (d\<lparr>parseCurLineNum := l'\<rparr>)"
    using loop_round [OF _ ident] by blast
  then show "\<exists>n l. view n = Txt s False \<and> ParseDeep_loop (Suc fuel) is_doc sibs (render (Txt s False) @ tail) d =
      ParseDeep_loop fuel is_doc (sibs @ [n]) tail (d\<lparr>parseCurLineNum := l\<rparr>)"
    using GetStr_escape [of restrictedEntityFlag s] s(1) by (intro exI [of _ ?n] exI [of _ l']) simp
qed

section \<open>Blanks and children\<close>

lemma SkipWhiteSpace_blank: "blank w \<Longrightarrow> \<exists>l. SkipWhiteSpace (w @ p) line = SkipWhiteSpace p l"
proof (induction w arbitrary: line)
  case (Cons c w)
  have "IsWhiteSpace (CHR '' '')" "IsWhiteSpace LF" by (simp_all add: IsWhiteSpace_def isspace_def IsUTF8Continuation_def LF_def)
  with Cons show ?case by auto
qed auto

text \<open>Blanks before a tag only move the line count, and blanks at the end of the document end it.\<close>

lemma loop_blank:
  assumes "blank w" and "w \<noteq> [] \<longrightarrow> tail = [] \<or> (\<exists>xs. tail = CHR ''<'' # xs)"
  shows "\<exists>l. ParseDeep_loop (Suc fuel) is_doc sibs (w @ tail) d = ParseDeep_loop (Suc fuel) is_doc sibs tail (d\<lparr>parseCurLineNum := l\<rparr>)"
proof (cases "w = []")
  case False
  obtain l where l: "SkipWhiteSpace (w @ tail) (parseCurLineNum d) = SkipWhiteSpace tail l"
    using SkipWhiteSpace_blank [OF assms(1)] by blast
  have "ParseDeep_loop (Suc fuel) is_doc sibs (w @ tail) d = ParseDeep_loop (Suc fuel) is_doc sibs tail (d\<lparr>parseCurLineNum := l\<rparr>)"
  proof (cases tail)
    case Nil
    with l False show ?thesis by (simp add: ParseDeep_loop.simps(2) Identify_def)
  next
    case (Cons c xs)
    then have "Identify (w @ tail) (parseCurLineNum d) = Identify tail l"
      using assms(2) False l special_not_space(1) by (simp add: Identify_def starts_with_def)
    moreover obtain p1 k line where "Identify tail l = (p1, k, line)" by (cases "Identify tail l")
    ultimately show ?thesis using Cons by (cases k) (auto simp: ParseDeep_loop.simps(2))
  qed
  then show ?thesis by blast
qed (auto intro: exI [of _ "parseCurLineNum d"])

lemma printed_nonempty: "tree_ok k t \<Longrightarrow> printed t s \<Longrightarrow> s \<noteq> []"
proof (cases "is_text t")
  case True
  moreover assume "tree_ok k t" "printed t s"
  moreover from this True have "s = render t" by (cases t) (auto simp: is_text_def elim: printed_leafE)
  ultimately show ?thesis using escape_not_space by (cases t) (fastforce simp: is_text_def)+
qed (use printed_starts in fastforce)

lemma view_Decl: "view n = t \<Longrightarrow> is_declaration n = is_Decl t"
  by (cases n) (auto simp: is_declaration_def is_Decl_def)

definition decls_ok :: "bool \<Rightarrow> xml_node list \<Rightarrow> tree list \<Rightarrow> bool" where
  "decls_ok is_doc sibs ts \<longleftrightarrow>
     is_doc \<and> list_all is_declaration sibs \<and> decls_first ts \<or> list_all (\<lambda>t. \<not> is_Decl t) ts"

text \<open>The parser takes \<open>s\<close> for the trees \<open>ts\<close>, in order.\<close>

definition reads :: "nat \<Rightarrow> tree list \<Rightarrow> string \<Rightarrow> bool" where
  "reads k ts s \<longleftrightarrow>
     (\<forall>fuel is_doc sibs tail d.
        ready k d \<longrightarrow> (ts \<noteq> [] \<longrightarrow> follow (last ts) tail) \<longrightarrow> length (s @ tail) < fuel \<longrightarrow> decls_ok is_doc sibs ts \<longrightarrow>
        (\<exists>fuel' ns l. length tail < fuel' \<and> map view ns = ts \<and>
           ParseDeep_loop fuel is_doc sibs (s @ tail) d =
             ParseDeep_loop fuel' is_doc (sibs @ ns) tail (d\<lparr>parseCurLineNum := l\<rparr>)))"

lemma readsD:
  assumes "reads k ts s" and "ready k d" and "ts \<noteq> [] \<Longrightarrow> follow (last ts) tail" and "length (s @ tail) < fuel"
    and "decls_ok is_doc sibs ts"
  shows "\<exists>fuel' ns l. length tail < fuel' \<and> map view ns = ts \<and> ParseDeep_loop fuel is_doc sibs (s @ tail) d =
      ParseDeep_loop fuel' is_doc (sibs @ ns) tail (d\<lparr>parseCurLineNum := l\<rparr>)"
  by (rule assms(1) [unfolded reads_def, rule_format, OF assms(2,3,4,5)])

lemma reads_Nil: "reads k [] []"
  unfolding reads_def
proof (intro allI impI)
  fix fuel is_doc sibs and tail :: string and d
  assume "length ([] @ tail) < fuel"
  then show "\<exists>fuel' ns l. length tail < fuel' \<and> map view ns = [] \<and> ParseDeep_loop fuel is_doc sibs ([] @ tail) d =
      ParseDeep_loop fuel' is_doc (sibs @ ns) tail (d\<lparr>parseCurLineNum := l\<rparr>)"
    by (intro exI [of _ fuel] exI [of _ "[]"] exI [of _ "parseCurLineNum d"]) simp
qed

lemma reads_Cons:
  assumes t: "parses k t s" "tree_ok k t" "printed t s" and w: "blank w" "is_text t \<longrightarrow> w = []"
    and ts: "reads k ts r" "printed_list (is_text t) ts r" "spaced (t # ts)"
  shows "reads k (t # ts) (w @ s @ r)"
  unfolding reads_def
proof (intro allI impI)
  fix fuel is_doc sibs tail d
  assume d: "ready k d" and last: "t # ts \<noteq> [] \<longrightarrow> follow (last (t # ts)) tail" and fuel: "length ((w @ s @ r) @ tail) < fuel"
    and decls: "decls_ok is_doc sibs (t # ts)"
  obtain f where f: "fuel = Suc f" "length (s @ r @ tail) \<le> f" using fuel by (cases fuel) auto
  have "w \<noteq> [] \<longrightarrow> (\<exists>xs. s @ r @ tail = CHR ''<'' # xs)" using w(2) printed_starts [OF t(3)] by auto
  then obtain l0 where l0: "ParseDeep_loop fuel is_doc sibs (w @ s @ r @ tail) d =
      ParseDeep_loop fuel is_doc sibs (s @ r @ tail) (d\<lparr>parseCurLineNum := l0\<rparr>)"
    using loop_blank [OF w(1), of "s @ r @ tail" f is_doc sibs d] f(1) by blast
  have next_tag: "follow t (r @ tail)"
  proof (cases ts)
    case Nil
    then have "r = []" using ts(2) printed_list_Nil by blast
    with Nil last show ?thesis by simp
  next
    case (Cons u us)
    show ?thesis
    proof (cases "is_text t")
      case True
      then have "printed_list True (u # us) r" "\<not> is_text u" using Cons ts(2,3) by simp_all
      from printed_list_starts [OF this] show ?thesis by (auto simp: follow_def)
    qed (simp add: follow_def)
  qed
  have "is_Decl t \<longrightarrow> is_doc \<and> list_all is_declaration sibs" using decls by (auto simp: decls_ok_def)
  then obtain n l where n: "view n = t" "ParseDeep_loop fuel is_doc sibs (s @ r @ tail) (d\<lparr>parseCurLineNum := l0\<rparr>) =
      ParseDeep_loop f is_doc (sibs @ [n]) (r @ tail) (d\<lparr>parseCurLineNum := l\<rparr>)"
    using parsesD [OF t(1), of "d\<lparr>parseCurLineNum := l0\<rparr>" "r @ tail" f is_doc sibs] d next_tag f by auto
  have "decls_ok is_doc (sibs @ [n]) ts"
    using decls view_Decl [OF n(1)] by (auto simp: decls_ok_def split: if_splits)
  moreover have "length (r @ tail) < f" using f(2) printed_nonempty [OF t(2,3)] by (cases s) auto
  moreover have "ts \<noteq> [] \<Longrightarrow> follow (last ts) tail" using last by simp
  ultimately obtain fuel' ns l' where "length tail < fuel'" "map view ns = ts"
    "ParseDeep_loop f is_doc (sibs @ [n]) (r @ tail) (d\<lparr>parseCurLineNum := l\<rparr>) =
      ParseDeep_loop fuel' is_doc ((sibs @ [n]) @ ns) tail (d\<lparr>parseCurLineNum := l, parseCurLineNum := l'\<rparr>)"
    using readsD [OF ts(1), of "d\<lparr>parseCurLineNum := l\<rparr>" tail f is_doc "sibs @ [n]"] d by auto
  with n l0 show "\<exists>fuel' ns l. length tail < fuel' \<and> map view ns = t # ts \<and>
      ParseDeep_loop fuel is_doc sibs ((w @ s @ r) @ tail) d =
        ParseDeep_loop fuel' is_doc (sibs @ ns) tail (d\<lparr>parseCurLineNum := l\<rparr>)"
    by (intro exI [of _ fuel'] exI [of _ "n # ns"] exI [of _ l']) simp
qed

section \<open>Reading elements\<close>

lemma Identify_element:
  assumes "c \<notin> {CHR ''!'', CHR ''?''}"
  shows "Identify (CHR ''<'' # c # p) line = (c # p, Some (Element_kind, line), line)"
  using assms special_not_space by (simp add: Identify_def starts_with_def)

lemma loop_closing_tag:
  assumes "name_ok n" and "length (''</'' @ n @ ''>'' @ tail) < fuel"
  shows "ParseDeep_loop fuel is_doc ns (''</'' @ n @ ''>'' @ tail) d = Some (Some tail, Some (name_pair n), ns, d)"
proof -
  obtain f where f: "fuel = Suc f" using assms(2) by (cases fuel) auto
  have "Identify (''</'' @ n @ ''>'' @ tail) (parseCurLineNum d) =
      (''/'' @ n @ ''>'' @ tail, Some (Element_kind, parseCurLineNum d), parseCurLineNum d)"
    using Identify_element [of "CHR ''/''"] by simp
  then show ?thesis
    using closing_found [OF assms(1), of "parseCurLineNum d" tail d]
    by (simp add: f ParseDeep_loop.simps(2) node_ParseDeep_def XMLElement_ParseDeep_def place_node_def is_declaration_def)
qed

lemma PushDepth_ready: "ready (Suc k) d \<Longrightarrow> PushDepth d = d\<lparr>parsingDepth := Suc (parsingDepth d)\<rparr>"
  by (simp add: PushDepth_def ready_def TINYXML2_MAX_ELEMENT_DEPTH_def Let_def)

lemma PopDepth_push:
  "PopDepth (d\<lparr>parsingDepth := Suc (parsingDepth d), parseCurLineNum := l\<rparr>) = d\<lparr>parseCurLineNum := l\<rparr>"
  by (simp add: PopDepth_def)

lemma element_content:
  assumes "reads k ts s" and "list_all (\<lambda>t. \<not> is_Decl t) ts" and "blank w" and "ts \<noteq> [] \<and> is_text (last ts) \<longrightarrow> w = []"
    and "ready (Suc k) d" and "name_ok n" and "length (s @ w @ ''</'' @ n @ ''>'' @ tail) < fuel"
  shows "\<exists>ns l. map view ns = ts \<and>
    XMLNode_ParseDeep (ParseDeep_loop fuel False []) (s @ w @ ''</'' @ n @ ''>'' @ tail) d =
      Some (Some tail, Some (name_pair n), ns, d\<lparr>parseCurLineNum := l\<rparr>)"
proof -
  let ?d = "d\<lparr>parsingDepth := Suc (parsingDepth d)\<rparr>" and ?tail = "''</'' @ n @ ''>'' @ tail"
  have d: "PushDepth d = ?d" "ready k ?d" "\<not> Error ?d"
    using PushDepth_ready [OF assms(5)] assms(5) by (simp_all add: ready_def Error_def)
  have "ts \<noteq> [] \<Longrightarrow> follow (last ts) (w @ ?tail)" using assms(4) by (auto simp: follow_def)
  moreover have "decls_ok False [] ts" using assms(2) by (simp add: decls_ok_def)
  ultimately obtain fuel' ns l where f: "length (w @ ?tail) < fuel'" and ns: "map view ns = ts"
    and run: "ParseDeep_loop fuel False [] (s @ w @ ?tail) ?d = ParseDeep_loop fuel' False ns (w @ ?tail) (?d\<lparr>parseCurLineNum := l\<rparr>)"
    using readsD [OF assms(1) d(2), of "w @ ?tail" fuel False "[]"] assms(7) by auto
  obtain f where f': "fuel' = Suc f" using f by (cases fuel') auto
  obtain l' where "ParseDeep_loop fuel' False ns (w @ ?tail) (?d\<lparr>parseCurLineNum := l\<rparr>) =
      ParseDeep_loop fuel' False ns ?tail (?d\<lparr>parseCurLineNum := l'\<rparr>)"
    using loop_blank [OF assms(3), of ?tail f False ns "?d\<lparr>parseCurLineNum := l\<rparr>"] f' by auto
  moreover have "length ?tail < fuel'" using f by simp
  ultimately show ?thesis
    using d run ns loop_closing_tag [OF assms(6), of tail fuel' False ns "?d\<lparr>parseCurLineNum := l'\<rparr>"]
    by (intro exI [of _ ns] exI [of _ l']) (simp add: XMLNode_ParseDeep_def PopDepth_push)
qed

text \<open>What follows the attributes of an element, and the element behind its opening bracket.\<close>

definition body_ok :: "nat \<Rightarrow> string \<Rightarrow> tree list \<Rightarrow> string \<Rightarrow> bool" where
  "body_ok k n ts body \<longleftrightarrow>
     (if ts = [] then body = ''/>''
      else \<exists>s w. body = ''>'' @ s @ w @ ''</'' @ n @ ''>'' \<and> reads (k - 1) ts s \<and> blank w \<and> (is_text (last ts) \<longrightarrow> w = []))"

definition tag_text :: "string \<Rightarrow> (string \<times> string) list \<Rightarrow> string \<Rightarrow> string" where
  "tag_text n attrs body = n @ concat (map render_attr attrs) @ body"

lemma start_tag_text: "start_tag n attrs @ body = CHR ''<'' # tag_text n attrs body"
  by (simp add: tag_text_def start_tag_def)

lemma XMLElement_found:
  assumes ok: "tree_ok k (Elem n attrs ts)" and body: "body_ok k n ts body"
    and d: "ready k d" and fuel: "length (tag_text n attrs (body @ tail)) < fuel"
  obtains ns l where "map view ns = ts"
    and "XMLElement_ParseDeep (ParseDeep_loop fuel False []) nodeLine (tag_text n attrs (body @ tail)) d =
      Some (Some (XMLElement (name_pair n) (if ts = [] then CLOSED else OPEN) (map attr_pair attrs) ns, tail),
        if ts = [] then None else Some (name_pair n), d\<lparr>parseCurLineNum := l\<rparr>)"
proof (cases "ts = []")
  case True
  then have b: "body = ''/>''" using body by (simp add: body_ok_def)
  obtain l where "open_element nodeLine (tag_text n attrs (body @ tail)) d =
      (Some (name_pair n, CLOSED, map attr_pair attrs, tail), d\<lparr>parseCurLineNum := l\<rparr>)"
    using open_element_found [of n attrs "''/>''" d nodeLine tail] ok d by (auto simp: ready_def tag_text_def b)
  with True that [of "[]" l] show ?thesis by (simp add: XMLElement_ParseDeep_def)
next
  case False
  then obtain s w where b: "body = ''>'' @ s @ w @ ''</'' @ n @ ''>''" "reads (k - 1) ts s" "blank w" "is_text (last ts) \<longrightarrow> w = []"
    using body by (auto simp: body_ok_def)
  let ?rest = "s @ w @ ''</'' @ n @ ''>'' @ tail"
  obtain l where op: "open_element nodeLine (tag_text n attrs (body @ tail)) d =
      (Some (name_pair n, OPEN, map attr_pair attrs, ?rest), d\<lparr>parseCurLineNum := l\<rparr>)"
    using open_element_found [of n attrs "''>''" d nodeLine ?rest] ok d by (auto simp: ready_def tag_text_def b(1))
  obtain j where j: "k = Suc j" using ok False by (cases k) auto
  have "length ?rest < fuel" using fuel by (simp add: tag_text_def b(1))
  moreover have "list_all (\<lambda>t. \<not> is_Decl t) ts" using ok False by (simp add: list_all_iff)
  ultimately obtain ns l' where "map view ns = ts"
    "XMLNode_ParseDeep (ParseDeep_loop fuel False []) ?rest (d\<lparr>parseCurLineNum := l\<rparr>) =
      Some (Some tail, Some (name_pair n), ns, d\<lparr>parseCurLineNum := l'\<rparr>)"
    using element_content [of j ts s w "d\<lparr>parseCurLineNum := l\<rparr>" n tail fuel] b ok d j by auto
  with that [of ns l'] op False show ?thesis by (simp add: XMLElement_ParseDeep_def)
qed

lemma parses_element:
  assumes ok: "tree_ok k (Elem n attrs ts)" and body: "body_ok k n ts body"
  shows "parses k (Elem n attrs ts) (start_tag n attrs @ body)"
  unfolding parses_def
proof (intro allI impI)
  fix fuel is_doc sibs tail d
  let ?text = "CHR ''<'' # tag_text n attrs (body @ tail)"
  assume d: "ready k d" and fuel: "length ((start_tag n attrs @ body) @ tail) \<le> fuel"
  have out: "(start_tag n attrs @ body) @ tail = ?text" using start_tag_text [of n attrs "body @ tail"] by simp
  obtain c t where c: "n = c # t" "IsNameStartChar c" using ok name_ok_Cons [of n] by auto
  have ident: "Identify ?text line = (tag_text n attrs (body @ tail), Some (Element_kind, line), line)" for line
    using Identify_element [of c] c name_start(2) [OF c(2)] by (simp add: tag_text_def)
  have "length (tag_text n attrs (body @ tail)) < fuel" using fuel unfolding out by simp
  then obtain ns l where ns: "map view ns = ts"
    and node: "XMLElement_ParseDeep (ParseDeep_loop fuel False []) (parseCurLineNum d) (tag_text n attrs (body @ tail)) d =
      Some (Some (XMLElement (name_pair n) (if ts = [] then CLOSED else OPEN) (map attr_pair attrs) ns, tail),
        if ts = [] then None else Some (name_pair n), d\<lparr>parseCurLineNum := l\<rparr>)"
    using XMLElement_found [OF assms d] by blast
  let ?n = "XMLElement (name_pair n) (if ts = [] then CLOSED else OPEN) (map attr_pair attrs) ns"
  have "place_node is_doc sibs (parseCurLineNum d) (if ts = [] then None else Some (name_pair n)) ?n
      (d\<lparr>parseCurLineNum := l\<rparr>) = Insert_node"
    by (simp add: place_node_def is_declaration_def)
  then have "ParseDeep_loop (Suc fuel) is_doc sibs ?text d =
      ParseDeep_loop fuel is_doc (sibs @ [?n]) tail (d\<lparr>parseCurLineNum := l\<rparr>)"
    using node by (intro loop_round [OF _ ident]) (simp_all add: node_ParseDeep_def)
  moreover have "map (map_prod GetStr GetStr) (map attr_pair attrs) = attrs"
    using ok attr_pairs_view by simp
  ultimately show "\<exists>m l. view m = Elem n attrs ts \<and>
      ParseDeep_loop (Suc fuel) is_doc sibs ((start_tag n attrs @ body) @ tail) d =
        ParseDeep_loop fuel is_doc (sibs @ [m]) tail (d\<lparr>parseCurLineNum := l\<rparr>)"
    unfolding out using ns by (intro exI [of _ ?n] exI [of _ l]) simp
qed

lemma parses_leaf: "tree_ok k t \<Longrightarrow> \<not> is_Elem t \<Longrightarrow> parses k t (render t)"
  using parses_text parses_cdata parses_comment parses_declaration parses_unknown
  by (cases t; cases "is_text t") (auto simp: is_Elem_def is_text_def simp del: tree_ok.simps render.simps)

lemma printed_parses:
  "printed t s \<Longrightarrow> tree_ok k t \<Longrightarrow> parses k t s"
  "printed_list after ts s \<Longrightarrow> list_all (tree_ok k) ts \<Longrightarrow> spaced ts \<Longrightarrow> reads k ts s"
proof (induction arbitrary: k and k rule: printed_printed_list.inducts)
  case (leaf t)
  then show ?case by (simp add: parses_leaf)
next
  case (empty n attrs)
  then show ?case by (intro parses_element) (simp_all add: body_ok_def)
next
  case (element ts s w n attrs)
  then have "reads (k - 1) ts s" by (auto simp: list_all_iff)
  with element show ?case by (intro parses_element) (auto simp: body_ok_def)
next
  case (nil after)
  show ?case by (rule reads_Nil)
next
  case (cons w after t s ts r)
  then have "reads k ts r" by (cases ts) auto
  with cons show ?case by (intro reads_Cons) auto
qed

section \<open>Documents\<close>

lemma NUL_escape: "escapes flag \<Longrightarrow> plain s \<Longrightarrow> NUL \<notin> set (escape flag s)"
  using escape_set [of flag NUL s] by (simp add: plain_def)

lemma NUL_name: "name_ok s \<Longrightarrow> NUL \<notin> set s"
proof -
  assume "name_ok s"
  then have "list_all IsNameChar s" by (auto simp: name_ok_def IsNameChar_def split: list.splits)
  then show ?thesis using not_name [of NUL] by (auto simp: list_all_iff)
qed

lemma NUL_start_tag:
  assumes "tree_ok k (Elem n attrs ts)" shows "NUL \<notin> set (start_tag n attrs)"
proof -
  have "NUL \<notin> set (render_attr a)" if "a \<in> set attrs" for a
    using assms that NUL_name [of "fst a"] NUL_escape [OF escapes_flags(1), of "snd a"]
    by (simp add: render_attr_def list_all_iff NUL_def)
  then show ?thesis using assms NUL_name [of n] by (auto simp: start_tag_def NUL_def)
qed

lemma NUL_blank: "blank w \<Longrightarrow> NUL \<notin> set w"
  by (induction w) (auto simp: NUL_def LF_def)

lemma NUL_leaf: "tree_ok k t \<Longrightarrow> \<not> is_Elem t \<Longrightarrow> NUL \<notin> set (render t)"
  using NUL_escape [of restrictedEntityFlag] by (cases t) (auto simp: plain_def NUL_def is_Elem_def)

lemma NUL_printed:
  "printed t s \<Longrightarrow> tree_ok k t \<Longrightarrow> NUL \<notin> set s"
  "printed_list after ts s \<Longrightarrow> list_all (tree_ok k) ts \<Longrightarrow> NUL \<notin> set s"
proof (induction arbitrary: k and k rule: printed_printed_list.inducts)
  case (leaf t)
  then show ?case using NUL_leaf by blast
next
  case (empty n attrs)
  then show ?case using NUL_start_tag [of k n attrs "[]"] by (simp add: control_chars)
next
  case (element ts s w n attrs)
  then have "list_all (tree_ok (k - 1)) ts" "NUL \<notin> set n" using NUL_name by (auto simp: list_all_iff)
  with element.IH have "NUL \<notin> set s" "NUL \<notin> set n" by blast+
  then show ?case using NUL_start_tag [OF element.prems] NUL_blank [OF element(3)] by (auto simp: control_chars)
next
  case (cons w after t s ts r)
  then show ?case using NUL_blank by auto
qed simp

text \<open>A document that can be written: no text outside the elements, and the declarations first.\<close>

definition writable :: "tree list \<Rightarrow> bool" where
  "writable ts \<longleftrightarrow>
     ts \<noteq> [] \<and> list_all (tree_ok 98) ts \<and> list_all fits ts \<and> list_all (\<lambda>t. \<not> is_text t) ts \<and> decls_first ts"

lemma spaced_no_text: "list_all (\<lambda>t. \<not> is_text t) ts \<Longrightarrow> spaced ts"
  by (induction ts rule: spaced.induct) auto

lemma document_ParseDeep_printed:
  assumes "writable ts" and "printed_list False ts s" and "blank u"
    and "parsingDepth d = 0" and "\<not> Error d" and "processEntities d" and "\<not> collapseWhitespace d"
  shows "\<exists>ns l. map view ns = ts \<and> document_ParseDeep (s @ u) d = Some (ns, d\<lparr>parseCurLineNum := l\<rparr>)"
proof -
  let ?d = "d\<lparr>parsingDepth := Suc (parsingDepth d)\<rparr>"
  have d: "PushDepth d = ?d" "ready 98 ?d" "\<not> Error ?d"
    using assms PushDepth_ready [of 98 d] by (simp_all add: ready_def Error_def)
  have "\<not> is_text (last ts)" using assms(1) last_in_set [of ts] by (simp add: writable_def list_all_iff)
  then have "follow (last ts) u" by (simp add: follow_def)
  moreover have "reads 98 ts s"
    using printed_parses(2) [OF assms(2)] assms(1) spaced_no_text by (simp add: writable_def)
  ultimately obtain fuel' ns l where f: "length u < fuel'" and ns: "map view ns = ts"
    and run: "ParseDeep_loop (Suc (length (s @ u))) True [] (s @ u) ?d = ParseDeep_loop fuel' True ns u (?d\<lparr>parseCurLineNum := l\<rparr>)"
    using readsD [of 98 ts s ?d u "Suc (length (s @ u))" True "[]"] assms(1) d(2) by (auto simp: writable_def decls_ok_def)
  obtain f' where f': "fuel' = Suc f'" using f by (cases fuel') auto
  obtain l' where "ParseDeep_loop fuel' True ns u (?d\<lparr>parseCurLineNum := l\<rparr>) =
      ParseDeep_loop fuel' True ns [] (?d\<lparr>parseCurLineNum := l'\<rparr>)"
    using loop_blank [OF assms(3), of "[]" f' True ns "?d\<lparr>parseCurLineNum := l\<rparr>"] f' by auto
  with d run ns f' show ?thesis
    by (intro exI [of _ ns] exI [of _ l'])
      (simp add: document_ParseDeep_def XMLNode_ParseDeep_def ParseDeep_loop.simps(2) PopDepth_push)
qed

lemma Parse_buffer_printed:
  assumes "writable ts" and "printed_list False ts s" and "blank u" and p: "s = CHR ''<'' # xs"
    and "parsingDepth d = 0" and "\<not> Error d" and "processEntities d" and "\<not> collapseWhitespace d"
  shows "\<exists>ns l. map view ns = ts \<and>
    Parse_buffer ((if bom then [CHR 0xEF, CHR 0xBB, CHR 0xBF] else []) @ s @ u) d =
      Some (ns, d\<lparr>parseCurLineNum := l, writeBOM := bom\<rparr>)"
proof -
  let ?bom = "[CHR 0xEF, CHR 0xBB, CHR 0xBF]"
  have "SkipWhiteSpace ((if bom then ?bom else []) @ s @ u) 1 = ((if bom then ?bom else []) @ s @ u, 1)"
    using special_not_space(1) by (simp add: p IsWhiteSpace_def IsUTF8Continuation_def)
  moreover have "ReadBOM ((if bom then ?bom else []) @ s @ u) = (s @ u, bom)"
    by (simp add: p ReadBOM_def starts_with_def numeral_3_eq_3)
  moreover obtain ns l where "map view ns = ts"
    "document_ParseDeep (s @ u) (d\<lparr>parseCurLineNum := 1, writeBOM := bom\<rparr>) =
      Some (ns, d\<lparr>parseCurLineNum := 1, writeBOM := bom, parseCurLineNum := l\<rparr>)"
    using document_ParseDeep_printed [OF assms(1-3), of "d\<lparr>parseCurLineNum := 1, writeBOM := bom\<rparr>"] assms(5-)
    by (auto simp: Error_def)
  ultimately show ?thesis
    using p by (intro exI [of _ ns] exI [of _ l]) (simp add: Parse_buffer_def)
qed

text \<open>A file with such a text is loaded as the trees.\<close>

lemma load_printed:
  assumes "writable ts" and "printed_list False ts s" and "blank u" and "\<exists>xs. s = CHR ''<'' # xs"
    and "processEntities e" and "\<not> collapseWhitespace e"
  shows "\<exists>ns e'. LoadFile filename (Contents ((if bom then [CHR 0xEF, CHR 0xBB, CHR 0xBF] else []) @ s @ u)) e = Some (ns, e') \<and>
    \<not> Error e' \<and> map view ns = ts \<and> writeBOM e' = bom"
proof -
  let ?p = "(if bom then [CHR 0xEF, CHR 0xBB, CHR 0xBF] else []) @ s @ u"
  obtain xs where p: "s = CHR ''<'' # xs" using assms(4) by blast
  have "NUL \<notin> set s" using NUL_printed(2) [OF assms(2)] assms(1) by (auto simp: writable_def)
  then have "NUL \<notin> set ?p" using NUL_blank [OF assms(3)] by (auto simp: control_chars)
  then have cstr: "cstr ?p = ?p" by (rule cstr_id)
  have "?p \<noteq> []" using p by simp
  then have load: "LoadFile filename (Contents ?p) e = Parse_buffer ?p (Clear_doc e)"
    unfolding LoadFile_def LoadFile_fp_def file_contents.case Let_def Clear_doc_twice cstr
    by (metis file_contents.distinct(4))
  have "parsingDepth (Clear_doc e) = 0" "\<not> Error (Clear_doc e)" "processEntities (Clear_doc e)"
    "\<not> collapseWhitespace (Clear_doc e)"
    using assms(5,6) by (simp_all add: Clear_doc_def ClearError_def SetError_def Error_def)
  from Parse_buffer_printed [OF assms(1-3) p this, of bom] obtain ns l where "map view ns = ts"
    "LoadFile filename (Contents ?p) e = Some (ns, (Clear_doc e)\<lparr>parseCurLineNum := l, writeBOM := bom\<rparr>)"
    unfolding load by blast
  moreover have "\<not> Error ((Clear_doc e)\<lparr>parseCurLineNum := l, writeBOM := bom\<rparr>)"
    by (simp add: Clear_doc_def ClearError_def SetError_def Error_def)
  ultimately show ?thesis by fastforce
qed

lemma save_then_load:
  assumes "writable (map view ns)" and "compact \<or> list_all inline_free (map view ns)"
    and "processEntities d" and "processEntities e" and "\<not> collapseWhitespace e"
  shows "\<exists>saved ns' e'. fst (SaveFile filename True compact ns d) = Some saved \<and>
    LoadFile filename (Contents saved) e = Some (ns', e') \<and>
    \<not> Error e' \<and> map view ns' = map view ns \<and> writeBOM e' = writeBOM d"
proof -
  have "ns \<noteq> []" "list_all (fits \<circ> view) ns" "list_all (\<lambda>t. \<not> is_text t) (map view ns)"
    using assms(1) by (auto simp: writable_def list_all_iff)
  from SaveFile_printed [OF this(1,2) _ this(3) assms(3), of compact filename] assms(2) obtain s u where
    save: "fst (SaveFile filename True compact ns d) = Some ((if writeBOM d then [CHR 0xEF, CHR 0xBB, CHR 0xBF] else []) @ s @ u)"
    and s: "blank u" "printed_list False (map view ns) s" "\<exists>xs. s = CHR ''<'' # xs"
    by (auto simp: list_all_iff)
  from load_printed [OF assms(1) s(2,1,3) assms(4,5), of filename "writeBOM d"] save show ?thesis by blast
qed

text \<open>
  C5: A document that is saved and loaded again is the same document, in compact form, and with indentation if no
  element comes right behind a text (\<open>inline_free\<close>): the same elements in the same order with the same names, attributes
  and content, and the same byte order mark, without an error.  The document must be \<open>writable\<close>:
  the document has at least one node; all names are names of the grammar and no element has an attribute twice; no
  text, attribute value, comment, declaration or unknown node contains a zero character or a carriage return; no text
  (but a CDATA section) is of white space only, no two texts are next to each other, none is outside the elements; no
  CDATA section, comment, declaration or unknown node contains its end tag, and no unknown node starts like one of the others;
  declarations come first; elements are nested at most 98 deep; and texts and values are no longer than \<open>INT_MAX\<close>.  Both
  documents process entities, and the loading one preserves white space.
\<close>

theorem save_load:
  assumes "writable (map view ns)" and "compact \<or> list_all inline_free (map view ns)"
    and "processEntities d" and "processEntities e" and "\<not> collapseWhitespace e"
  shows "\<exists>saved ns' e'. fst (SaveFile filename True compact ns d) = Some saved \<and>
    LoadFile filename (Contents saved) e = Some (ns', e') \<and>
    \<not> Error e' \<and> map view ns' = map view ns \<and> writeBOM e' = writeBOM d"
  using save_then_load [OF assms] by blast

theorem save_load_witness:
  "map_option (map_option (map view) \<circ> map_option fst \<circ> (\<lambda>t. LoadFile ''f'' (Contents t) (XMLDocument True False)))
     (fst (SaveFile ''f'' True False
       [XMLElement (SetStr ''a'') OPEN [(SetStr ''b'', SetStr ''x<y'')]
         [XMLElement (SetStr ''c'') OPEN [] [XMLText (SetStr ''1 & 2'') False], XMLComment (SetStr ''d'')]]
       (XMLDocument True False))) =
   Some (Some [Elem ''a'' [(''b'', ''x<y'')] [Elem ''c'' [] [Txt ''1 & 2'' False], Comm ''d'']])"
proof -
  let ?ns = "[XMLElement (SetStr ''a'') OPEN [(SetStr ''b'', SetStr ''x<y'')]
         [XMLElement (SetStr ''c'') OPEN [] [XMLText (SetStr ''1 & 2'') False], XMLComment (SetStr ''d'')]]"
  have str: "GetStr (SetStr s) = s" for s by (simp add: SetStr_def)
  have ws: "\<not> IsWhiteSpace (CHR ''1'')" by (simp add: IsWhiteSpace_def isspace_def)
  have nm: "IsNameStartChar (CHR ''a'')" "IsNameStartChar (CHR ''b'')" "IsNameStartChar (CHR ''c'')"
    by (simp_all add: IsNameStartChar_def isalpha_def)
  have "writable (map view ?ns)"
    by (simp add: writable_def str is_text_def is_Decl_def name_ok_def plain_def control_chars ws nm INT_MAX_def
        ends_first_def starts_with_def)
  from save_load [OF this, of False "XMLDocument True False" "XMLDocument True False" "''f''"] show ?thesis
    by (auto simp: XMLDocument_def str is_text_def is_Elem_def)
qed

text \<open>
  Otherwise the indentation of the element is read as the end of the text before it: with every round
  through a file the text grows.
\<close>

lemma save_inline:
  assumes "length s \<le> INT_MAX" and "processEntities d"
  shows "fst (SaveFile filename True False
      [XMLElement (SetStr n) OPEN [] [XMLText (SetStr s) False, XMLElement (SetStr m) CLOSED [] []]] d) =
    Some ((if writeBOM d then [CHR 0xEF, CHR 0xBB, CHR 0xBF] else []) @
      (''<'' @ n @ ''>'' @ escape restrictedEntityFlag s @ ''    <'' @ m @ ''/></'' @ n @ ''>'') @ [LF])"
proof -
  let ?pr = "\<lambda>opened st fst depth td out. \<lparr>pr_elementJustOpened = opened, pr_stack = st, pr_firstElement = fst, pr_depth = depth,
      pr_textDepth = td, pr_processEntities = True, pr_compactMode = False, pr_out = out\<rparr>"
  have str: "GetStr (SetStr s) = s" for s by (simp add: SetStr_def)
  note defs = printer_enter_element_def printer_exit_element_def OpenElement_def CloseElement_def PushText_def
    SealElementIfJustOpened_def Putc_def Write_def PrintSpace_def str
  define p0 where "p0 = ?pr False [] True 0 (-1) (if writeBOM d then [CHR 0xEF, CHR 0xBB, CHR 0xBF] else [])"
  define p1 where "p1 = ?pr True [n] False 1 (-1) (pr_out p0 @ ''<'' @ n)"
  define p2 where "p2 = ?pr False [n] False 1 0 (pr_out p1 @ ''>'' @ escape restrictedEntityFlag s)"
  define p3 where "p3 = ?pr True [m, n] False 2 0 (pr_out p2 @ ''    <'' @ m)"
  define p4 where "p4 = ?pr False [n] False 1 0 (pr_out p3 @ ''/>'')"
  define p5 where "p5 = ?pr False [] False 0 (-1) (pr_out p4 @ ''</'' @ n @ ''>'' @ [LF])"
  have "printer_enter_doc d (XMLPrinter False 0) = (True, p0)"
    using assms(2) by (simp add: printer_enter_doc_def PushHeader_def XMLPrinter_def Write_def p0_def)
  moreover have "printer_enter_element (SetStr n) [] p0 = (True, p1)" by (simp add: defs p0_def p1_def)
  moreover have "PushText s False p1 = p2"
    using assms(1) by (simp add: PushText_def SealElementIfJustOpened_def PrintString_escape p1_def Putc_def p2_def Write_def)
  moreover have "printer_enter_element (SetStr m) [] p2 = (True, p3)" by (simp add: defs p2_def p3_def)
  moreover have "printer_exit_element (SetStr m) p3 = (True, p4)" by (simp add: defs p3_def p4_def)
  moreover have "printer_exit_element (SetStr n) p4 = (True, p5)" by (simp add: defs p4_def p5_def)
  ultimately have "pr_out (Print_doc d [XMLElement (SetStr n) OPEN [] [XMLText (SetStr s) False, XMLElement (SetStr m) CLOSED [] []]]
      (XMLPrinter False 0)) = pr_out p5"
    by (simp add: Print_doc_def Accept_doc_def printer_def XMLVisitor_def str)
  then show ?thesis by (simp add: SaveFile_def p0_def p1_def p2_def p3_def p4_def p5_def)
qed

lemma indentation_joins_text:
  assumes n: "name_ok n" "name_ok m" and s: "plain s" "list_ex (\<lambda>c. \<not> IsWhiteSpace c) s" "length s + 4 \<le> INT_MAX"
    and d: "processEntities d" "processEntities e" "\<not> collapseWhitespace e"
  shows "\<exists>saved ns' e'.
    fst (SaveFile filename True False
      [XMLElement (SetStr n) OPEN [] [XMLText (SetStr s) False, XMLElement (SetStr m) CLOSED [] []]] d) = Some saved \<and>
    LoadFile filename (Contents saved) e = Some (ns', e') \<and>
    map view ns' = [Elem n [] [Txt (s @ ''    '') False, Elem m [] []]]"
proof -
  let ?ns = "[XMLElement (SetStr n) OPEN [] [XMLText (SetStr s) False, XMLElement (SetStr m) CLOSED [] []]]"
  let ?e = "escape restrictedEntityFlag s" and ?bom = "if writeBOM d then [CHR 0xEF, CHR 0xBB, CHR 0xBF] else []"
  let ?ts = "[Txt (s @ ''    '') False, Elem m [] []]"
  have sp: "escape restrictedEntityFlag (s @ ''    '') = ?e @ ''    ''"
    by (simp add: escape_def esc_char_def restrictedEntityFlag_def)
  have saved: "fst (SaveFile filename True False ?ns d) =
      Some (?bom @ (''<'' @ n @ ''>'' @ ?e @ ''    <'' @ m @ ''/></'' @ n @ ''>'') @ [LF])"
    using save_inline [of s d filename n m] s(3) d(1) by simp
  have "printed_list False ?ts ([] @ (?e @ ''    '') @ [] @ (''<'' @ m @ ''/>'') @ [])"
    using printed_leaves(5) [of "s @ ''    ''"] printed_printed_list.empty [of m "[]"]
    by (intro printed_printed_list.cons printed_printed_list.nil) (simp_all add: sp is_text_def start_tag_def)
  from printed_printed_list.element [OF _ this, of "[]" n "[]"]
  have "printed (Elem n [] ?ts) (''<'' @ n @ ''>'' @ ?e @ ''    <'' @ m @ ''/></'' @ n @ ''>'')"
    by (simp add: is_text_def start_tag_def)
  from printed_printed_list.cons [OF _ _ this printed_printed_list.nil, of "[]" False]
  have "printed_list False [Elem n [] ?ts] (''<'' @ n @ ''>'' @ ?e @ ''    <'' @ m @ ''/></'' @ n @ ''>'')"
    by simp
  moreover have "writable [Elem n [] ?ts]"
    using n s by (auto simp: writable_def is_text_def is_Decl_def plain_def control_chars)
  ultimately obtain ns' e' where "LoadFile filename (Contents (?bom @ (''<'' @ n @ ''>'' @ ?e @ ''    <'' @ m @ ''/></'' @ n @ ''>'') @ [LF])) e =
      Some (ns', e')" "map view ns' = [Elem n [] ?ts]"
    using load_printed [of "[Elem n [] ?ts]" "''<'' @ n @ ''>'' @ ?e @ ''    <'' @ m @ ''/></'' @ n @ ''>''" "[LF]" e filename "writeBOM d"]
      d(2,3) by auto
  with saved show ?thesis by (intro exI conjI)
qed

end
