(* ===== verification/Xml_Web.thy ===== *)
theory Xml_Web
  imports Towa_App_Pool Xml_Roundtrip
begin

text \<open>
  The two sides of \<^verbatim>\<open>web.xml\<close> together: what the manager of ToWa reads is a function of the document as its
  user sees it, and a descriptor written by the XML library is read back as it was meant.
\<close>

section \<open>The servlet of a descriptor\<close>

definition named :: "string \<Rightarrow> tree \<Rightarrow> bool" where
  "named s t = (case t of Elem n _ _ \<Rightarrow> n = s | _ \<Rightarrow> False)"

definition content :: "string \<Rightarrow> tree list \<Rightarrow> tree list option" where
  "content s ts =
     (case find (named s) ts of Some (Elem _ _ children) \<Rightarrow> Some children | _ \<Rightarrow> None)"

definition text_of :: "tree list \<Rightarrow> string option" where
  "text_of ts = (case ts of Txt s _ # _ \<Rightarrow> Some s | _ \<Rightarrow> None)"

definition servlet_of :: "tree list \<Rightarrow> servlet option" where
  "servlet_of ts =
     Option.bind (content ''web-app'' ts) (\<lambda>app.
     Option.bind (content ''servlet-mapping'' app) (\<lambda>elt.
     Option.bind (Option.bind (content ''servlet-name'' elt) text_of) (\<lambda>n.
     Option.bind (Option.bind (content ''url-pattern'' elt) text_of) (\<lambda>u.
       Some \<lparr>sv_name = n, sv_path = u\<rparr>))))"

section \<open>Reading agrees with it\<close>

lemma named_view: "named s (view n) = ToElementWithName (Some s) n"
  by (cases n) (simp_all add: named_def ToElementWithName_def)

lemma content_view:
  "content s (map view ns) = map_option (map view \<circ> elem_children) (FirstChildElement (Some s) ns)"
proof (induction ns)
  case (Cons n ns)
  then show ?case
    by (cases n) (auto simp: content_def FirstChildElement_def named_def ToElementWithName_def)
qed (simp add: content_def FirstChildElement_def)

lemma text_of_view: "text_of (map view ns) = GetText ns"
proof (cases ns)
  case (Cons n ns')
  then show ?thesis by (cases n) (simp_all add: text_of_def GetText_def)
qed (simp add: text_of_def GetText_def)

lemma readWebXML_document:
  assumes "LoadFile (web_xml_path war) (files (web_xml_path war)) (XMLDocument True False) = Some (ns, d)"
  shows "readWebXML files war =
    (case servlet_of (map view ns) of None \<Rightarrow> Mgr_fault Null_deref | Some s \<Rightarrow> Ok_mgr s)"
proof -
  have bind: "Option.bind (map_option f x) g = (case x of None \<Rightarrow> None | Some y \<Rightarrow> g (f y))" for f x g
    by (cases x) simp_all
  show ?thesis
    using assms
    by (simp add: readWebXML_def servlet_of_def content_view bind children_of_def TowaServlet_def text_of_view
        split: option.splits)
qed

text \<open>
  C31: Whatever \<^verbatim>\<open>web.xml\<close> contains, the manager of ToWa either gets the name and the pattern of the first servlet
  mapping of the document, decoded, or uses a null pointer: it does so exactly when the document,
  as far as it could be parsed, lacks one of the four elements or the text of the two inner ones.
\<close>

theorem readWebXML_reads_mapping:
  "\<exists>ns d. LoadFile (web_xml_path war) (files (web_xml_path war)) (XMLDocument True False) = Some (ns, d) \<and>
     readWebXML files war =
       (case servlet_of (map view ns) of None \<Rightarrow> Mgr_fault Null_deref | Some s \<Rightarrow> Ok_mgr s)"
  using LoadFile_returns [of "web_xml_path war" "files (web_xml_path war)" "XMLDocument True False"]
    readWebXML_document by blast

text \<open>
  C32: A descriptor that is \<open>writable\<close> (the condition of \<open>save_load\<close>: no zero characters or carriage returns, no blank,
  adjacent or outermost texts, valid names, no end tags in comments and the like, at most 98 levels), in which no
  element comes right behind a text when it is indented (\<open>inline_free\<close>), that is saved with the XML library by a
  document that processes entities, and deployed, is read back as it was written: the manager gets the servlet of the
  document.
\<close>

theorem deployed_descriptor:
  assumes "writable (map view ns)" and "compact \<or> list_all inline_free (map view ns)" and "processEntities d"
    and "servlet_of (map view ns) = Some s" and "fst (SaveFile filename True compact ns d) = Some text" and "files (web_xml_path war) = Contents text"
  shows "readWebXML files war = Ok_mgr s"
proof -
  obtain ns' e' where "LoadFile (web_xml_path war) (Contents text) (XMLDocument True False) = Some (ns', e')"
    "map view ns' = map view ns"
    using save_then_load [OF assms(1-3), of "XMLDocument True False" "web_xml_path war"] assms(5)
    by (auto simp: XMLDocument_def SaveFile_def)
  with readWebXML_document [of war files] assms(4,6) show ?thesis by simp
qed

text \<open>A descriptor.\<close>

definition element :: "string \<Rightarrow> xml_node list \<Rightarrow> xml_node" where
  "element name children = XMLElement (SetStr name) OPEN [] children"

definition sample_descriptor :: "xml_node list" where
  "sample_descriptor =
     [element ''web-app'' [element ''servlet-mapping''
        [element ''servlet-name'' [XMLText (SetStr ''A&B'') False],
         element ''url-pattern'' [XMLText (SetStr ''/a'') False]]]]"

lemma sample_descriptor_ok:
  "writable (map view sample_descriptor)" "list_all inline_free (map view sample_descriptor)"
  "servlet_of (map view sample_descriptor) = Some \<lparr>sv_name = ''A&B'', sv_path = ''/a''\<rparr>"
proof -
  have str: "GetStr (SetStr s) = s" for s by (simp add: SetStr_def)
  have ws: "\<not> IsWhiteSpace (CHR ''A'')" "\<not> IsWhiteSpace (CHR ''/'')"
    by (simp_all add: IsWhiteSpace_def isspace_def)
  have nm: "name_ok ''web-app''" "name_ok ''servlet-mapping''" "name_ok ''servlet-name''" "name_ok ''url-pattern''"
    by (simp_all add: name_ok_def IsNameStartChar_def IsNameChar_def isalpha_def isdigit_def)
  show "writable (map view sample_descriptor)"
    by (simp add: sample_descriptor_def writable_def element_def str is_text_def is_Decl_def plain_def control_chars ws nm INT_MAX_def)
  show "list_all inline_free (map view sample_descriptor)"
    by (simp add: sample_descriptor_def element_def is_text_def is_Elem_def)
  show "servlet_of (map view sample_descriptor) = Some \<lparr>sv_name = ''A&B'', sv_path = ''/a''\<rparr>"
    by (simp add: sample_descriptor_def servlet_of_def content_def named_def text_of_def element_def str)
qed

theorem deployed_descriptor_witness:
  "\<exists>text. fst (SaveFile ''web.xml'' True False sample_descriptor (XMLDocument True False)) = Some text \<and>
    readWebXML (\<lambda>p. Contents text) ''app'' = Ok_mgr \<lparr>sv_name = ''A&B'', sv_path = ''/a''\<rparr>"
proof -
  obtain t where "fst (SaveFile ''web.xml'' True False sample_descriptor (XMLDocument True False)) = Some t"
    by (simp add: SaveFile_def)
  with deployed_descriptor [OF sample_descriptor_ok(1) _ _ sample_descriptor_ok(3) this, of "\<lambda>p. Contents t" "''app''"]
    sample_descriptor_ok(2)
  show ?thesis by (simp add: XMLDocument_def)
qed

section \<open>The scan of the class path\<close>

lemma archives_unread:
  assumes "w \<in> set ws" and "readWebXML files w = Mgr_fault Null_deref"
  shows "read_servlets files ds ws = Mgr_fault Null_deref"
  using read_servlets_fault [OF assms(1) _ assms(2)] readWebXML_range by blast


text \<open>Two archives, the second unpacked before.\<close>

definition two_archives :: "(string \<times> dir_type) list" where
  "two_archives = [(''a.war'', DT_REG), (''b'', DT_DIR), (''b.war'', DT_REG)]"

lemma two_archives:
  "\<not> short_names two_archives" "wars_of two_archives = {''a'', ''b''}" "dirs_of two_archives = {''b''}"
proof -
  show "\<not> short_names two_archives" by (simp add: two_archives_def short_names_def)
  show "wars_of two_archives = {''a'', ''b''}" by (auto simp: two_archives_def wars_of_Cons wars_of_def)
  show "dirs_of two_archives = {''b''}" by (auto simp: two_archives_def dirs_of_def)
qed


end
