(* ===== verification/Xml_Links.thy ===== *)
theory Xml_Links
  imports Xml_Util Posix
begin

text \<open>
  The pointers behind the trees of \<^verbatim>\<open>server/tinyxml2.cpp\<close>: each node has its parent, its first and last
  child and its neighbours.  The parser's model has lists of children instead; here the operations on
  the pointers are shown to be the operations on lists.
\<close>

section \<open>Nodes in memory\<close>

record xlinks =
  x_document :: nat
  x_parent :: "nat option"
  x_firstChild :: "nat option"
  x_lastChild :: "nat option"
  x_prev :: "nat option"
  x_next :: "nat option"

type_synonym links = "nat \<Rightarrow> xlinks"

definition XMLNode :: "nat \<Rightarrow> xlinks" where
  "XMLNode doc =
     \<lparr>x_document = doc, x_parent = None, x_firstChild = None, x_lastChild = None, x_prev = None, x_next = None\<rparr>"

definition upd :: "nat \<Rightarrow> (xlinks \<Rightarrow> xlinks) \<Rightarrow> links \<Rightarrow> links" where
  "upd a f h = h(a := f (h a))"

definition upd_opt :: "nat option \<Rightarrow> (xlinks \<Rightarrow> xlinks) \<Rightarrow> links \<Rightarrow> links" where
  "upd_opt a f h = (case a of None \<Rightarrow> h | Some b \<Rightarrow> upd b f h)"

definition Unlink :: "nat \<Rightarrow> nat \<Rightarrow> links \<Rightarrow> links" where
  "Unlink this child h =
     (let h = (if x_firstChild (h this) = Some child
               then upd this (x_firstChild_update (\<lambda>_. x_next (h child))) h else h);
          h = (if x_lastChild (h this) = Some child
               then upd this (x_lastChild_update (\<lambda>_. x_prev (h child))) h else h);
          h = upd_opt (x_prev (h child)) (x_next_update (\<lambda>_. x_next (h child))) h;
          h = upd_opt (x_next (h child)) (x_prev_update (\<lambda>_. x_prev (h child))) h
      in upd child (\<lambda>l. l\<lparr>x_next := None, x_prev := None, x_parent := None\<rparr>) h)"

text \<open>\<open>InsertChildPreamble\<close>, without the list of nodes that are in no tree.\<close>

definition InsertChildPreamble :: "nat \<Rightarrow> links \<Rightarrow> links" where
  "InsertChildPreamble insertThis h =
     (case x_parent (h insertThis) of None \<Rightarrow> h | Some p \<Rightarrow> Unlink p insertThis h)"

text \<open>The inserting operations return null and change nothing when the node belongs to another document.\<close>

definition InsertEndChild :: "nat \<Rightarrow> nat \<Rightarrow> links \<Rightarrow> nat option \<times> links" where
  "InsertEndChild this addThis h =
     (if x_document (h addThis) \<noteq> x_document (h this) then (None, h)
      else
        let h = InsertChildPreamble addThis h;
            h = (case x_lastChild (h this) of
                   Some b \<Rightarrow>
                     upd addThis (\<lambda>l. l\<lparr>x_prev := Some b, x_next := None\<rparr>)
                       (upd this (x_lastChild_update (\<lambda>_. Some addThis))
                         (upd b (x_next_update (\<lambda>_. Some addThis)) h))
                 | None \<Rightarrow>
                     upd addThis (\<lambda>l. l\<lparr>x_prev := None, x_next := None\<rparr>)
                       (upd this (\<lambda>l. l\<lparr>x_firstChild := Some addThis, x_lastChild := Some addThis\<rparr>) h))
        in (Some addThis, upd addThis (x_parent_update (\<lambda>_. Some this)) h))"

definition InsertFirstChild :: "nat \<Rightarrow> nat \<Rightarrow> links \<Rightarrow> nat option \<times> links" where
  "InsertFirstChild this addThis h =
     (if x_document (h addThis) \<noteq> x_document (h this) then (None, h)
      else
        let h = InsertChildPreamble addThis h;
            h = (case x_firstChild (h this) of
                   Some b \<Rightarrow>
                     upd addThis (\<lambda>l. l\<lparr>x_next := Some b, x_prev := None\<rparr>)
                       (upd this (x_firstChild_update (\<lambda>_. Some addThis))
                         (upd b (x_prev_update (\<lambda>_. Some addThis)) h))
                 | None \<Rightarrow>
                     upd addThis (\<lambda>l. l\<lparr>x_prev := None, x_next := None\<rparr>)
                       (upd this (\<lambda>l. l\<lparr>x_firstChild := Some addThis, x_lastChild := Some addThis\<rparr>) h))
        in (Some addThis, upd addThis (x_parent_update (\<lambda>_. Some this)) h))"

text \<open>
  \<open>InsertAfterChild\<close> reads \<open>afterThis->_next\<close> again after the preamble, and follows it without a test.
\<close>

definition InsertAfterChild :: "nat \<Rightarrow> nat \<Rightarrow> nat \<Rightarrow> links \<Rightarrow> fault + nat option \<times> links" where
  "InsertAfterChild this afterThis addThis h =
     (if x_document (h addThis) \<noteq> x_document (h this) then Inr (None, h)
      else if x_parent (h afterThis) \<noteq> Some this then Inr (None, h)
      else if afterThis = addThis then Inr (Some addThis, h)
      else if x_next (h afterThis) = None then Inr (InsertEndChild this addThis h)
      else
        let h = InsertChildPreamble addThis h
        in case x_next (h afterThis) of
             None \<Rightarrow> Inl Null_deref
           | Some b \<Rightarrow>
               Inr (Some addThis,
                 upd addThis (x_parent_update (\<lambda>_. Some this))
                   (upd afterThis (x_next_update (\<lambda>_. Some addThis))
                     (upd b (x_prev_update (\<lambda>_. Some addThis))
                       (upd addThis (\<lambda>l. l\<lparr>x_prev := Some afterThis, x_next := Some b\<rparr>) h)))))"

section \<open>Lists of siblings\<close>

definition hd_or :: "nat option \<Rightarrow> nat list \<Rightarrow> nat option" where
  "hd_or n xs = (case xs of [] \<Rightarrow> n | x # _ \<Rightarrow> Some x)"

definition last_or :: "nat option \<Rightarrow> nat list \<Rightarrow> nat option" where
  "last_or n xs = (if xs = [] then n else Some (last xs))"

lemma hd_or_simps [simp]: "hd_or n [] = n" "hd_or n (x # xs) = Some x"
  by (simp_all add: hd_or_def)

lemma last_or_simps [simp]: "last_or n [] = n" "last_or n (x # xs) = last_or (Some x) xs" "last_or n (xs @ [x]) = Some x"
  by (simp_all add: last_or_def)

lemma hd_or_append [simp]: "hd_or n (xs @ ys) = hd_or (hd_or n ys) xs"
  by (cases xs) simp_all

text \<open>The siblings \<open>xs\<close> with the parent \<open>p\<close>, between the neighbours \<open>pr\<close> and \<open>nx\<close>.\<close>

fun seg :: "links \<Rightarrow> nat \<Rightarrow> nat option \<Rightarrow> nat list \<Rightarrow> nat option \<Rightarrow> bool" where
  "seg h p pr [] nx \<longleftrightarrow> True"
| "seg h p pr (x # xs) nx \<longleftrightarrow>
     x_parent (h x) = Some p \<and> x_prev (h x) = pr \<and> x_next (h x) = hd_or nx xs \<and> seg h p (Some x) xs nx"

text \<open>
  The forest of all nodes: the children of every node, in order, and no pointers in a node that is
  nobody's child.
\<close>

definition forest :: "links \<Rightarrow> (nat \<Rightarrow> nat list) \<Rightarrow> bool" where
  "forest h C \<longleftrightarrow>
     (\<forall>p. distinct (C p) \<and> seg h p None (C p) None \<and>
        x_firstChild (h p) = hd_or None (C p) \<and> x_lastChild (h p) = last_or None (C p)) \<and>
     (\<forall>a. (\<forall>p. a \<notin> set (C p)) \<longrightarrow> x_parent (h a) = None \<and> x_prev (h a) = None \<and> x_next (h a) = None)"

lemma seg_append: "seg h p pr (us @ vs) nx \<longleftrightarrow> seg h p pr us (hd_or nx vs) \<and> seg h p (last_or pr us) vs nx"
  by (induction us arbitrary: pr) auto

lemma seg_parent: "seg h p pr xs nx \<Longrightarrow> x \<in> set xs \<Longrightarrow> x_parent (h x) = Some p"
  by (induction xs arbitrary: pr) auto

lemma seg_cong:
  "(\<And>x. x \<in> set xs \<Longrightarrow> x_parent (h' x) = x_parent (h x) \<and> x_prev (h' x) = x_prev (h x) \<and> x_next (h' x) = x_next (h x)) \<Longrightarrow>
   seg h' p pr xs nx = seg h p pr xs nx"
  by (induction xs arbitrary: pr) auto

lemma seg_next:
  assumes "seg h p pr us nx" and "distinct us"
    and "\<And>x. x \<in> set us \<Longrightarrow> x_parent (h' x) = x_parent (h x) \<and> x_prev (h' x) = x_prev (h x) \<and>
      x_next (h' x) = (if x = last us then nx' else x_next (h x))"
  shows "seg h' p pr us nx'"
  using assms
proof (induction us arbitrary: pr)
  case (Cons u us)
  show ?case
  proof (cases "us = []")
    case True
    with Cons.prems(1) Cons.prems(3) [of u] show ?thesis by simp
  next
    case False
    then have "u \<noteq> last us" "hd_or nx us = hd_or nx' us" using Cons.prems(2) by (auto simp: hd_or_def split: list.splits)
    moreover have "seg h' p (Some u) us nx'"
      using Cons.prems False by (intro Cons.IH) simp_all
    ultimately show ?thesis using Cons.prems(1) Cons.prems(3) [of u] False by simp
  qed
qed simp

lemma seg_prev:
  assumes "seg h p pr vs nx" and "distinct vs"
    and "\<And>x. x \<in> set vs \<Longrightarrow> x_parent (h' x) = x_parent (h x) \<and> x_next (h' x) = x_next (h x) \<and>
      x_prev (h' x) = (if x = hd vs then pr' else x_prev (h x))"
  shows "seg h' p pr' vs nx"
proof (cases vs)
  case (Cons v vs')
  with assms have "seg h' p (Some v) vs' nx = seg h p (Some v) vs' nx" by (intro seg_cong) auto
  with assms Cons show ?thesis by simp
qed simp

lemma forest_parent: "forest h C \<Longrightarrow> x_parent (h a) = Some p \<longleftrightarrow> a \<in> set (C p)"
  unfolding forest_def by (metis option.distinct(1) option.inject seg_parent)

lemma forest_disjoint: "forest h C \<Longrightarrow> a \<in> set (C p) \<Longrightarrow> a \<in> set (C q) \<Longrightarrow> p = q"
  using forest_parent by (metis option.inject)

section \<open>Taking a node out\<close>

lemma child_neighbours:
  assumes "forest h C" and "C p = us @ a # vs"
  shows "x_prev (h a) = last_or None us" and "x_next (h a) = hd_or None vs" and "x_parent (h a) = Some p"
    and "x_firstChild (h p) = Some a \<longleftrightarrow> us = []" and "x_lastChild (h p) = Some a \<longleftrightarrow> vs = []"
    and "a \<notin> set us" and "a \<notin> set vs" and "distinct us" and "distinct vs" and "set us \<inter> set vs = {}"
proof -
  have p: "distinct (C p)" "seg h p None (C p) None" "x_firstChild (h p) = hd_or None (C p)"
    "x_lastChild (h p) = last_or None (C p)"
    using assms(1) unfolding forest_def by blast+
  show "x_prev (h a) = last_or None us" "x_next (h a) = hd_or None vs" "x_parent (h a) = Some p"
    using p(2) by (simp_all add: assms(2) seg_append)
  show d: "a \<notin> set us" "a \<notin> set vs" "distinct us" "distinct vs" "set us \<inter> set vs = {}"
    using p(1) by (auto simp: assms(2))
  show "x_firstChild (h p) = Some a \<longleftrightarrow> us = []" using p(3) d by (cases us) (auto simp: assms(2))
  show "x_lastChild (h p) = Some a \<longleftrightarrow> vs = []"
    using p(4) d by (cases vs rule: rev_cases) (auto simp: assms(2) last_or_def)
qed

lemma Unlink_eval:
  assumes "x_prev (h a) = pr" and "x_next (h a) = nx" and "pr \<noteq> Some a" and "nx \<noteq> Some a"
    and "x_firstChild (h p) = Some a \<longleftrightarrow> pr = None" and "x_lastChild (h p) = Some a \<longleftrightarrow> nx = None"
  shows "Unlink p a h x =
    (h x)\<lparr>x_parent := (if x = a then None else x_parent (h x)),
      x_prev := (if x = a then None else if nx = Some x then pr else x_prev (h x)),
      x_next := (if x = a then None else if pr = Some x then nx else x_next (h x)),
      x_firstChild := (if x = p \<and> pr = None then nx else x_firstChild (h x)),
      x_lastChild := (if x = p \<and> nx = None then pr else x_lastChild (h x))\<rparr>"
proof (cases pr)
  case None
  with assms show ?thesis
    by (cases nx) (auto simp: Unlink_def upd_def upd_opt_def)
next
  case (Some b)
  with assms show ?thesis
    by (cases nx) (auto simp: Unlink_def upd_def upd_opt_def)
qed

lemma hd_or_Some: "hd_or None vs = Some x \<longleftrightarrow> vs \<noteq> [] \<and> x = hd vs"
  by (cases vs) auto

lemma last_or_Some: "last_or None us = Some x \<longleftrightarrow> us \<noteq> [] \<and> x = last us"
  by (auto simp: last_or_def)

lemma or_None [simp]: "hd_or None xs = None \<longleftrightarrow> xs = []" "last_or None xs = None \<longleftrightarrow> xs = []"
  by (cases xs) (simp_all add: last_or_def)

lemma Unlink_child:
  assumes "forest h C" and "C p = us @ a # vs"
  shows "Unlink p a h x =
    (h x)\<lparr>x_parent := (if x = a then None else x_parent (h x)),
      x_prev := (if x = a then None else if vs \<noteq> [] \<and> x = hd vs then last_or None us else x_prev (h x)),
      x_next := (if x = a then None else if us \<noteq> [] \<and> x = last us then hd_or None vs else x_next (h x)),
      x_firstChild := (if x = p \<and> us = [] then hd_or None vs else x_firstChild (h x)),
      x_lastChild := (if x = p \<and> vs = [] then last_or None us else x_lastChild (h x))\<rparr>"
proof -
  note n = child_neighbours [OF assms]
  have "last_or None us \<noteq> Some a" "hd_or None vs \<noteq> Some a"
    using n(6,7) by (auto simp: hd_or_Some last_or_Some)
  with Unlink_eval [of h a "last_or None us" "hd_or None vs" p x] n(1,2,4,5) show ?thesis
    by (simp add: hd_or_Some last_or_Some)
qed

lemma Unlink_forest:
  assumes f: "forest h C" and "C p = us @ a # vs"
  shows "forest (Unlink p a h) (C(p := us @ vs))"
proof -
  let ?h = "Unlink p a h"
  note n = child_neighbours [OF assms] and u = Unlink_child [OF assms]
  have "seg h p None (us @ a # vs) None" and p: "x_firstChild (h p) = hd_or None (us @ a # vs)"
    "x_lastChild (h p) = last_or None (us @ a # vs)"
    using f unfolding forest_def assms(2) [symmetric] by blast+
  then have s: "seg h p None us (Some a)" "seg h p (Some a) vs None" by (simp_all add: seg_append)
  have ends: "vs \<noteq> [] \<Longrightarrow> hd vs \<notin> set us" "us \<noteq> [] \<Longrightarrow> last us \<notin> set vs"
    using n(10) hd_in_set last_in_set by blast+
  have us: "seg ?h p None us (hd_or None vs)"
    using n ends by (intro seg_next [OF s(1)]) (auto simp: u)
  have vs: "seg ?h p (last_or None us) vs None"
    using n ends by (intro seg_prev [OF s(2)]) (auto simp: u)
  have here: "distinct (us @ vs) \<and> seg ?h p None (us @ vs) None \<and> x_firstChild (?h p) = hd_or None (us @ vs) \<and>
      x_lastChild (?h p) = last_or None (us @ vs)"
  proof (intro conjI)
    show "x_firstChild (?h p) = hd_or None (us @ vs)" using p(1) by (cases us) (simp_all add: u)
    show "x_lastChild (?h p) = last_or None (us @ vs)" using p(2) by (cases "vs = []") (simp_all add: u last_or_def)
  qed (use us vs n(8-10) in \<open>simp_all add: seg_append\<close>)
  have there: "distinct (C q) \<and> seg ?h q None (C q) None \<and> x_firstChild (?h q) = hd_or None (C q) \<and>
      x_lastChild (?h q) = last_or None (C q)" if "q \<noteq> p" for q
  proof -
    have "x \<noteq> a \<and> \<not> (vs \<noteq> [] \<and> x = hd vs) \<and> \<not> (us \<noteq> [] \<and> x = last us)" if "x \<in> set (C q)" for x
      using forest_disjoint [OF f that, of p] \<open>q \<noteq> p\<close> by (auto simp: assms(2))
    then have "seg ?h q None (C q) None = seg h q None (C q) None" by (intro seg_cong) (auto simp: u)
    with f that show ?thesis by (simp add: forest_def u)
  qed
  have loose: "x_parent (?h x) = None \<and> x_prev (?h x) = None \<and> x_next (?h x) = None"
    if "\<forall>q. x \<notin> set ((C(p := us @ vs)) q)" for x
  proof (cases "x = a")
    case False
    have "x \<notin> set us \<union> set vs" using that by (auto dest: spec [of _ p])
    moreover from this have "x \<notin> set (C q)" for q
      using that [rule_format, of q] False by (cases "q = p") (auto simp: assms(2))
    ultimately show ?thesis using f False unfolding forest_def by (auto simp: u)
  qed (simp add: u)
  show ?thesis unfolding forest_def using here there loose by auto
qed

lemma preamble_forest:
  assumes "forest h C"
  shows "forest (InsertChildPreamble a h) (\<lambda>q. removeAll a (C q))"
    and "x_document (InsertChildPreamble a h x) = x_document (h x)"
proof -
  have "forest (InsertChildPreamble a h) (\<lambda>q. removeAll a (C q)) \<and>
    x_document (InsertChildPreamble a h x) = x_document (h x)"
  proof (cases "x_parent (h a)")
    case None
    then have "a \<notin> set (C q)" for q using forest_parent [OF assms] by force
    with assms None show ?thesis by (simp add: InsertChildPreamble_def removeAll_id)
  next
    case (Some p)
    then have "a \<in> set (C p)" using forest_parent [OF assms] by blast
    then obtain us vs where C: "C p = us @ a # vs" by (meson split_list)
    note n = child_neighbours [OF assms C]
    have "removeAll a (C q) = (C(p := us @ vs)) q" for q
      using n(6,7) forest_disjoint [OF assms \<open>a \<in> set (C p)\<close>] by (cases "q = p") (auto simp: C intro!: removeAll_id)
    then have "(\<lambda>q. removeAll a (C q)) = C(p := us @ vs)" by (rule ext)
    with Some Unlink_forest [OF assms C] Unlink_child [OF assms C] show ?thesis
      by (simp add: InsertChildPreamble_def)
  qed
  then show "forest (InsertChildPreamble a h) (\<lambda>q. removeAll a (C q))"
    "x_document (InsertChildPreamble a h x) = x_document (h x)" by blast+
qed

section \<open>Putting a node in\<close>

lemma link_forest:
  assumes f: "forest h C" and C: "C p = us @ vs" and a: "\<And>q. a \<notin> set (C q)"
    and h': "\<And>x. h' x =
      (h x)\<lparr>x_parent := (if x = a then Some p else x_parent (h x)),
        x_prev := (if x = a then last_or None us else if vs \<noteq> [] \<and> x = hd vs then Some a else x_prev (h x)),
        x_next := (if x = a then hd_or None vs else if us \<noteq> [] \<and> x = last us then Some a else x_next (h x)),
        x_firstChild := (if x = p \<and> us = [] then Some a else x_firstChild (h x)),
        x_lastChild := (if x = p \<and> vs = [] then Some a else x_lastChild (h x))\<rparr>"
  shows "forest h' (C(p := us @ a # vs))"
proof -
  have "seg h p None (us @ vs) None" and p: "x_firstChild (h p) = hd_or None (us @ vs)"
    "x_lastChild (h p) = last_or None (us @ vs)" and d: "distinct (us @ vs)"
    using f unfolding forest_def C [symmetric] by blast+
  then have s: "seg h p None us (hd_or None vs)" "seg h p (last_or None us) vs None" by (simp_all add: seg_append)
  have n: "a \<notin> set us" "a \<notin> set vs" using a [of p] by (simp_all add: C)
  have ends: "vs \<noteq> [] \<Longrightarrow> hd vs \<notin> set us" "us \<noteq> [] \<Longrightarrow> last us \<notin> set vs"
    using d hd_in_set last_in_set by auto
  have us: "seg h' p None us (Some a)"
    using n d ends by (intro seg_next [OF s(1)]) (auto simp: h')
  have vs: "seg h' p (Some a) vs None"
    using n d ends by (intro seg_prev [OF s(2)]) (auto simp: h')
  have here: "distinct (us @ a # vs) \<and> seg h' p None (us @ a # vs) None \<and> x_firstChild (h' p) = hd_or None (us @ a # vs) \<and>
      x_lastChild (h' p) = last_or None (us @ a # vs)"
  proof (intro conjI)
    show "x_firstChild (h' p) = hd_or None (us @ a # vs)" using p(1) by (cases us) (simp_all add: h')
    show "x_lastChild (h' p) = last_or None (us @ a # vs)" using p(2) by (cases "vs = []") (simp_all add: h' last_or_def)
  qed (use us vs n d in \<open>simp_all add: seg_append h'\<close>)
  have there: "distinct (C q) \<and> seg h' q None (C q) None \<and> x_firstChild (h' q) = hd_or None (C q) \<and>
      x_lastChild (h' q) = last_or None (C q)" if "q \<noteq> p" for q
  proof -
    have "\<not> (vs \<noteq> [] \<and> x = hd vs) \<and> \<not> (us \<noteq> [] \<and> x = last us)" if "x \<in> set (C q)" for x
      using forest_disjoint [OF f that, of p] \<open>q \<noteq> p\<close> by (auto simp: C)
    with a have "seg h' q None (C q) None = seg h q None (C q) None" by (intro seg_cong) (auto simp: h')
    with f that show ?thesis by (simp add: forest_def h')
  qed
  have loose: "x_parent (h' x) = None \<and> x_prev (h' x) = None \<and> x_next (h' x) = None"
    if "\<forall>q. x \<notin> set ((C(p := us @ a # vs)) q)" for x
  proof -
    have x: "x \<notin> set us \<union> set vs" "x \<noteq> a" using that by (auto dest: spec [of _ p])
    then have "x \<notin> set (C q)" for q
      using that [rule_format, of q] by (cases "q = p") (auto simp: C)
    with x show ?thesis using f unfolding forest_def by (auto simp: h')
  qed
  show ?thesis unfolding forest_def using here there loose by auto
qed

lemma InsertEndChild_forest:
  assumes "forest h C" and "x_document (h a) = x_document (h p)" and "InsertEndChild p a h = (r, h')"
  shows "r = Some a \<and> forest h' ((\<lambda>q. removeAll a (C q))(p := removeAll a (C p) @ [a]))"
proof -
  let ?h = "InsertChildPreamble a h" and ?C = "\<lambda>q. removeAll a (C q)"
  have f: "forest ?h ?C" by (rule preamble_forest(1) [OF assms(1)])
  have last: "x_lastChild (?h p) = last_or None (?C p)" "x_firstChild (?h p) = hd_or None (?C p)"
    using f unfolding forest_def by blast+
  have in_C: "?C p \<noteq> [] \<Longrightarrow> last (?C p) \<noteq> a" using last_in_set [of "?C p"] by (auto simp del: last_in_set)
  have "forest h' (?C(p := ?C p @ a # []))"
    by (rule link_forest [OF f])
      (use assms(2,3) last in_C in \<open>auto simp: InsertEndChild_def upd_def Let_def last_or_def\<close>)
  moreover have "r = Some a" using assms(2,3) by (simp add: InsertEndChild_def Let_def)
  ultimately show ?thesis by simp
qed

lemma InsertFirstChild_forest:
  assumes "forest h C" and "x_document (h a) = x_document (h p)" and "InsertFirstChild p a h = (r, h')"
  shows "r = Some a \<and> forest h' ((\<lambda>q. removeAll a (C q))(p := a # removeAll a (C p)))"
proof -
  let ?h = "InsertChildPreamble a h" and ?C = "\<lambda>q. removeAll a (C q)"
  have f: "forest ?h ?C" by (rule preamble_forest(1) [OF assms(1)])
  have first: "x_firstChild (?h p) = hd_or None (?C p)" "x_lastChild (?h p) = last_or None (?C p)"
    using f unfolding forest_def by blast+
  have "forest h' (?C(p := [] @ a # ?C p))"
  proof (rule link_forest [OF f])
    fix x
    show "h' x = (?h x)
      \<lparr>x_parent := (if x = a then Some p else x_parent (?h x)),
        x_prev := (if x = a then last_or None [] else if ?C p \<noteq> [] \<and> x = hd (?C p) then Some a else x_prev (?h x)),
        x_next := (if x = a then hd_or None (?C p) else if [] \<noteq> [] \<and> x = last [] then Some a else x_next (?h x)),
        x_firstChild := (if x = p \<and> [] = [] then Some a else x_firstChild (?h x)),
        x_lastChild := (if x = p \<and> ?C p = [] then Some a else x_lastChild (?h x))\<rparr>"
    proof (cases "?C p")
      case Nil
      with assms(2,3) first show ?thesis by (auto simp: InsertFirstChild_def upd_def Let_def)
    next
      case (Cons b bs)
      then have "b \<noteq> a" using set_removeAll [of a "C p"] by (metis Diff_iff insertI1 list.set_intros(1))
      with Cons assms(2,3) first show ?thesis by (auto simp: InsertFirstChild_def upd_def Let_def)
    qed
  qed simp_all
  moreover have "r = Some a" using assms(2,3) by (simp add: InsertFirstChild_def Let_def)
  ultimately show ?thesis by simp
qed

fun insert_after :: "nat \<Rightarrow> nat \<Rightarrow> nat list \<Rightarrow> nat list" where
  "insert_after x a [] = []"
| "insert_after x a (y # ys) = (if y = x then y # a # ys else y # insert_after x a ys)"

lemma insert_after_split: "x \<notin> set us \<Longrightarrow> insert_after x a (us @ x # vs) = us @ x # a # vs"
  by (induction us) auto

lemma InsertAfterChild_inner:
  assumes f: "forest h C" and "x_document (h a) = x_document (h p)" and C: "C p = us @ b # vs" and "a \<noteq> b" and vs: "vs \<noteq> []"
  shows "if removeAll a vs = [] then InsertAfterChild p b a h = Inl Null_deref
    else \<exists>h'. InsertAfterChild p b a h = Inr (Some a, h') \<and>
      forest h' ((\<lambda>q. removeAll a (C q))(p := removeAll a us @ b # a # removeAll a vs))"
proof -
  let ?h = "InsertChildPreamble a h" and ?C = "\<lambda>q. removeAll a (C q)"
  have f': "forest ?h ?C" by (rule preamble_forest(1) [OF f])
  have C': "?C p = removeAll a us @ b # removeAll a vs" using assms(4) by (simp add: C)
  note n = child_neighbours [OF f C] and n' = child_neighbours [OF f' C']
  have start: "InsertAfterChild p b a h =
      (case hd_or None (removeAll a vs) of
         None \<Rightarrow> Inl Null_deref
       | Some c \<Rightarrow> Inr (Some a, upd a (x_parent_update (\<lambda>_. Some p)) (upd b (x_next_update (\<lambda>_. Some a))
           (upd c (x_prev_update (\<lambda>_. Some a)) (upd a (\<lambda>l. l\<lparr>x_prev := Some b, x_next := Some c\<rparr>) ?h)))))"
    using assms(2,4) vs n(2,3) n'(2) by (simp add: InsertAfterChild_def Let_def)
  show ?thesis
  proof (cases "removeAll a vs")
    case Nil
    with start show ?thesis by simp
  next
    case (Cons c cs)
    have "c \<in> set (removeAll a vs)" using Cons by simp
    then have c: "c \<noteq> a" "c \<noteq> b" using n'(7) by auto
    have "forest (upd a (x_parent_update (\<lambda>_. Some p)) (upd b (x_next_update (\<lambda>_. Some a))
        (upd c (x_prev_update (\<lambda>_. Some a)) (upd a (\<lambda>l. l\<lparr>x_prev := Some b, x_next := Some c\<rparr>) ?h))))
        (?C(p := (removeAll a us @ [b]) @ a # removeAll a vs))"
      by (rule link_forest [OF f'])
        (use C' c assms(4) in \<open>auto simp: Cons upd_def last_or_def\<close>)
    with start Cons show ?thesis by simp
  qed
qed

lemma removeAll_last: "distinct vs \<Longrightarrow> vs \<noteq> [] \<Longrightarrow> removeAll a vs = [] \<longleftrightarrow> vs = [a]"
proof (cases vs)
  case (Cons v ws)
  moreover have "a \<notin> set ws \<Longrightarrow> removeAll a ws = ws" by (rule removeAll_id)
  moreover assume "distinct vs"
  ultimately show ?thesis by auto
qed simp

text \<open>
  C7: The pointer operations of the document tree are list operations: on nodes of one document, in a heap whose
  pointers describe the children of every node, \<open>InsertEndChild\<close> takes the node out of wherever it was
  and appends it, \<open>InsertFirstChild\<close> puts it in front, and \<open>Unlink\<close> removes it; all pointers are
  again those of the lists, for every other node as well.
\<close>

theorem dom_refines_lists:
  assumes "forest h C" and "x_document (h a) = x_document (h p)"
  shows "(\<exists>h'. InsertEndChild p a h = (Some a, h') \<and>
      forest h' ((\<lambda>q. removeAll a (C q))(p := removeAll a (C p) @ [a]))) \<and>
    (\<exists>h'. InsertFirstChild p a h = (Some a, h') \<and>
      forest h' ((\<lambda>q. removeAll a (C q))(p := a # removeAll a (C p)))) \<and>
    (a \<in> set (C p) \<longrightarrow> forest (Unlink p a h) (C(p := removeAll a (C p))))"
proof (intro conjI impI)
  show "\<exists>h'. InsertEndChild p a h = (Some a, h') \<and> forest h' ((\<lambda>q. removeAll a (C q))(p := removeAll a (C p) @ [a]))"
    using InsertEndChild_forest [OF assms] by (metis surj_pair)
  show "\<exists>h'. InsertFirstChild p a h = (Some a, h') \<and> forest h' ((\<lambda>q. removeAll a (C q))(p := a # removeAll a (C p)))"
    using InsertFirstChild_forest [OF assms] by (metis surj_pair)
  assume "a \<in> set (C p)"
  then obtain us vs where C: "C p = us @ a # vs" by (meson split_list)
  have "removeAll a (C p) = us @ vs" using child_neighbours(6,7) [OF assms(1) C] by (simp add: C)
  with Unlink_forest [OF assms(1) C] show "forest (Unlink p a h) (C(p := removeAll a (C p)))" by simp
qed

lemma forest_new: "forest (\<lambda>x. XMLNode d) (\<lambda>x. [])"
  by (simp add: forest_def XMLNode_def last_or_def)

theorem dom_refines_lists_witness:
  "\<exists>h'. InsertEndChild 0 1 (\<lambda>x. XMLNode 7) = (Some 1, h') \<and> forest h' ((\<lambda>q. [])(0 := [1]))"
  using dom_refines_lists [OF forest_new [of 7], where a = 1 and p = 0] by (simp add: XMLNode_def)

text \<open>
  C33: \<open>InsertAfterChild\<close> moves a node right behind a child, from wherever it was, with one exception: when the
  node already follows that child and is the last one, taking it out first leaves a null pointer
  where the code expects a neighbour, and it crashes instead of leaving the list as it is.
\<close>

theorem InsertAfterChild_exact:
  assumes "forest h C" and "x_document (h a) = x_document (h p)" and "b \<in> set (C p)" and "a \<noteq> b"
  shows "if \<exists>us. C p = us @ [b, a] then InsertAfterChild p b a h = Inl Null_deref
    else \<exists>h'. InsertAfterChild p b a h = Inr (Some a, h') \<and>
      forest h' ((\<lambda>q. removeAll a (C q))(p := insert_after b a (removeAll a (C p))))"
proof -
  obtain us vs where C: "C p = us @ b # vs" using assms(3) by (meson split_list)
  note n = child_neighbours [OF assms(1) C]
  have after: "insert_after b a (removeAll a (C p)) = removeAll a us @ b # a # removeAll a vs"
    using assms(4) n(6) insert_after_split [of b "removeAll a us" a "removeAll a vs"] by (simp add: C)
  show ?thesis
  proof (cases "vs = []")
    case True
    have "\<nexists>us'. C p = us' @ [b, a]" using assms(4) True by (simp add: C)
    moreover have "InsertAfterChild p b a h = Inr (InsertEndChild p a h)"
      using assms(2,4) n(2,3) True by (simp add: InsertAfterChild_def)
    moreover have "removeAll a (C p) @ [a] = insert_after b a (removeAll a (C p))"
      using after assms(4) True by (simp add: C)
    ultimately show ?thesis using InsertEndChild_forest [OF assms(1,2)] by (metis surj_pair)
  next
    case False
    have "(\<exists>us'. C p = us' @ [b, a]) \<longleftrightarrow> vs = [a]"
    proof
      assume "\<exists>us'. C p = us' @ [b, a]"
      then obtain us' where us': "us @ b # vs = us' @ b # [a]" using C by auto
      then show "vs = [a]" using append_Cons_eq_iff [of b us vs us' "[a]"] n(6,7) by simp
    qed (simp add: C)
    with False removeAll_last [OF n(9), of a] InsertAfterChild_inner [OF assms(1,2) C assms(4) False] after show ?thesis
      by simp
  qed
qed

theorem InsertAfterChild_exact_witness:
  "InsertAfterChild 0 1 2 (snd (InsertEndChild 0 2 (snd (InsertEndChild 0 1 (\<lambda>x. XMLNode 7))))) = Inl Null_deref"
proof -
  let ?h1 = "snd (InsertEndChild 0 1 (\<lambda>x. XMLNode 7))"
  let ?h2 = "snd (InsertEndChild 0 2 ?h1)"
  have 1: "forest ?h1 ((\<lambda>q. [])(0 := [1]))"
    using InsertEndChild_forest [OF forest_new [of 7], where a = 1 and p = 0] by (simp add: XMLNode_def prod_eq_iff)
  have d1: "x_document (?h1 x) = 7" for x by (simp add: InsertEndChild_def InsertChildPreamble_def XMLNode_def upd_def)
  have 2: "forest ?h2 ((\<lambda>q. [])(0 := [1, 2]))"
    using InsertEndChild_forest [OF 1, where a = 2 and p = 0] d1 by (simp add: prod_eq_iff fun_upd_def cong: if_cong)
  have "x_document (?h2 x) = 7" for x
    by (simp add: InsertEndChild_def InsertChildPreamble_def XMLNode_def upd_def)
  with InsertAfterChild_exact [OF 2, where a = 2 and p = 0 and b = 1] show ?thesis by (simp add: append_eq_Cons_conv)
qed

end
