(* ===== verification/Xml_Value.thy ===== *)
theory Xml_Value
  imports Xml_Parse
begin

text \<open>
  The conversions of \<open>XMLUtil\<close> (\<^verbatim>\<open>server/tinyxml2.cpp\<close>) between values and the strings of a document.
  An \<open>int\<close> and an \<open>unsigned\<close> are words of 32 bits, an \<open>int64_t\<close> of 64.  Floating point numbers are a type
  \<open>'f\<close> with the C library's way to write and read them as an argument.
\<close>

section \<open>The C library\<close>

text \<open>\<open>snprintf\<close> keeps what fits into the buffer with the terminating zero.\<close>

definition TIXML_SNPRINTF :: "nat \<Rightarrow> string \<Rightarrow> string" where
  "TIXML_SNPRINTF bufferSize s = take (bufferSize - 1) s"

text \<open>
  What \<open>sscanf\<close> reads for an integer conversion: blanks, a sign, and the digits up to the first other
  character; \<open>None\<close> without a digit.
\<close>

definition scan_digits :: "string \<Rightarrow> nat option" where
  "scan_digits s =
     (case takeWhile isdigit s of
        [] \<Rightarrow> None
      | ds \<Rightarrow> Some (foldl (\<lambda>n c. 10 * n + (of_char c - 48)) 0 ds))"

definition scan_number :: "string \<Rightarrow> int option" where
  "scan_number s =
     (case dropWhile isspace s of
        [] \<Rightarrow> None
      | c # t \<Rightarrow>
          if c = CHR ''-'' then map_option (\<lambda>n. - int n) (scan_digits t)
          else if c = CHR ''+'' then map_option int (scan_digits t)
          else map_option int (scan_digits (c # t)))"

text \<open>
  A conversion stores into a variable that may keep its value: the result, the variable.  \<open>None\<close> is
  undefined behaviour, for a number that does not fit the type.  An unsigned conversion takes a minus sign
  and negates in the type.
\<close>

type_synonym 'a conversion = "string \<Rightarrow> 'a \<Rightarrow> (bool \<times> 'a) option"

definition sscanf_int :: "int \<Rightarrow> int \<Rightarrow> 'a::len word conversion" where
  "sscanf_int lo hi str val =
     (case scan_number str of
        None \<Rightarrow> Some (False, val)
      | Some n \<Rightarrow> if lo \<le> n \<and> n \<le> hi then Some (True, word_of_int n) else None)"

text \<open>The formats of floating point numbers, and what reading finds at the start of a string.\<close>

record 'f float_lib =
  print_float :: "'f \<Rightarrow> string"
  scan_float :: "string \<Rightarrow> 'f option"

section \<open>From values\<close>

type_synonym i32 = "32 word"
type_synonym i64 = "64 word"

text \<open>\<open>writeBoolTrue\<close> and \<open>writeBoolFalse\<close>; a null pointer restores the default.\<close>

record bool_names =
  writeBoolTrue :: string
  writeBoolFalse :: string

definition default_names :: bool_names where
  "default_names = \<lparr>writeBoolTrue = ''true'', writeBoolFalse = ''false''\<rparr>"

definition SetBoolSerialization :: "string option \<Rightarrow> string option \<Rightarrow> bool_names" where
  "SetBoolSerialization writeTrue writeFalse =
     \<lparr>writeBoolTrue = (case writeTrue of None \<Rightarrow> ''true'' | Some s \<Rightarrow> s),
      writeBoolFalse = (case writeFalse of None \<Rightarrow> ''false'' | Some s \<Rightarrow> s)\<rparr>"

definition ToStr_int :: "i32 \<Rightarrow> nat \<Rightarrow> string" where
  "ToStr_int v bufferSize = TIXML_SNPRINTF bufferSize (show_dec (sint v))"

definition ToStr_unsigned :: "u32 \<Rightarrow> nat \<Rightarrow> string" where
  "ToStr_unsigned v bufferSize = TIXML_SNPRINTF bufferSize (show_dec (uint v))"

definition ToStr_bool :: "bool_names \<Rightarrow> bool \<Rightarrow> nat \<Rightarrow> string" where
  "ToStr_bool names v bufferSize = TIXML_SNPRINTF bufferSize (if v then writeBoolTrue names else writeBoolFalse names)"

definition ToStr_float :: "'f float_lib \<Rightarrow> 'f \<Rightarrow> nat \<Rightarrow> string" where
  "ToStr_float lib v bufferSize = TIXML_SNPRINTF bufferSize (print_float lib v)"

definition ToStr_double :: "'f float_lib \<Rightarrow> 'f \<Rightarrow> nat \<Rightarrow> string" where
  "ToStr_double lib v bufferSize = TIXML_SNPRINTF bufferSize (print_float lib v)"

definition ToStr_int64 :: "i64 \<Rightarrow> nat \<Rightarrow> string" where
  "ToStr_int64 v bufferSize = TIXML_SNPRINTF bufferSize (show_dec (sint v))"

section \<open>To values\<close>

definition ToInt :: "i32 conversion" where
  "ToInt str val = sscanf_int (- (2 ^ 31)) (2 ^ 31 - 1) str val"

definition ToUnsigned :: "u32 conversion" where
  "ToUnsigned str val = sscanf_int (- (2 ^ 32 - 1)) (2 ^ 32 - 1) str val"

definition ToBool :: "bool conversion" where
  "ToBool str val =
     Option.bind (ToInt str 0) (\<lambda>(ok, ival).
       Some (if ok then (True, ival \<noteq> 0)
             else if str = ''true'' then (True, True)
             else if str = ''false'' then (True, False)
             else (False, val)))"

definition ToFloat :: "'f float_lib \<Rightarrow> 'f conversion" where
  "ToFloat lib str val = Some (case scan_float lib str of None \<Rightarrow> (False, val) | Some v \<Rightarrow> (True, v))"

definition ToDouble :: "'f float_lib \<Rightarrow> 'f conversion" where
  "ToDouble lib str val = Some (case scan_float lib str of None \<Rightarrow> (False, val) | Some v \<Rightarrow> (True, v))"

definition ToInt64 :: "i64 conversion" where
  "ToInt64 str val = sscanf_int (- (2 ^ 63)) (2 ^ 63 - 1) str val"

section \<open>Numbers are read as they were written\<close>

lemma digit_char: "d < 10 \<Longrightarrow> isdigit (digit d) \<and> of_char (digit d) = 48 + d"
  by (simp add: digit_def isdigit_def Let_def)

lemma isdigit_facts:
  "\<not> isdigit (CHR ''-'')" "\<not> isdigit (CHR ''+'')" "isdigit c \<Longrightarrow> \<not> isspace c"
  by (auto simp: isdigit_def isspace_def Let_def)

lemma show_base_isdigit: "list_all isdigit (show_base 10 n)"
proof (induction n rule: less_induct)
  case (less n)
  then show ?case by (subst show_base.simps) (auto simp: digit_char)
qed

lemma show_base_nonempty: "show_base 10 n \<noteq> []"
  by (subst show_base.simps) simp

lemma show_base_value: "foldl (\<lambda>n c. 10 * n + (of_char c - 48)) 0 (show_base 10 n) = (n :: nat)"
proof (induction n rule: less_induct)
  case (less n)
  show ?case
  proof (cases "n < 10")
    case True
    then show ?thesis by (subst show_base.simps) (simp add: digit_char)
  next
    case False
    then have "foldl (\<lambda>n c. 10 * n + (of_char c - 48)) 0 (show_base 10 (n div 10)) = n div 10" by (intro less) simp
    with False show ?thesis by (subst show_base.simps) (simp add: digit_char)
  qed
qed

lemma show_base_length: "n < 10 ^ k \<Longrightarrow> 0 < k \<Longrightarrow> length (show_base 10 n) \<le> k"
proof (induction k arbitrary: n)
  case (Suc k)
  show ?case
  proof (cases "n < 10")
    case True
    then show ?thesis by (subst show_base.simps) simp
  next
    case False
    then have "0 < k" using Suc.prems by (cases k) auto
    moreover have "n div 10 < 10 ^ k" using Suc.prems by (simp add: less_mult_imp_div_less mult.commute)
    ultimately have "length (show_base 10 (n div 10)) \<le> k" using Suc.IH by simp
    with False show ?thesis by (subst show_base.simps) simp
  qed
qed simp

lemma scan_digits_show: "rest = [] \<or> \<not> isdigit (hd rest) \<Longrightarrow> scan_digits (show_base 10 n @ rest) = Some n"
proof -
  assume "rest = [] \<or> \<not> isdigit (hd rest)"
  then have "takeWhile isdigit (show_base 10 n @ rest) = show_base 10 n"
    using show_base_isdigit [of n] by (cases rest) (auto simp: takeWhile_append list_all_iff)
  then show ?thesis
    using show_base_nonempty [of n] show_base_value [of n]
    by (cases "show_base 10 n") (auto simp: scan_digits_def)
qed

text \<open>Whatever is not a digit may follow the number.\<close>

lemma scan_number_show:
  assumes "rest = [] \<or> \<not> isdigit (hd rest)"
  shows "scan_number (show_dec z @ rest) = Some z"
proof (cases "z < 0")
  case True
  then show ?thesis
    using scan_digits_show [OF assms, of "nat (- z)"]
    by (simp add: scan_number_def show_dec_def isspace_def)
next
  case False
  obtain c t where c: "show_base 10 (nat z) = c # t" using show_base_nonempty [of "nat z"] by (cases "show_base 10 (nat z)") auto
  then have "isdigit c" using show_base_isdigit [of "nat z"] by simp
  with c scan_digits_show [OF assms, of "nat z"] isdigit_facts False show ?thesis
    by (auto simp: scan_number_def show_dec_def)
qed

lemma show_dec_length:
  assumes "\<bar>z\<bar> < 10 ^ k" and "0 < k"
  shows "length (show_dec z) \<le> Suc k"
proof -
  have "nat \<bar>z\<bar> < 10 ^ k" using assms(1) by (metis abs_ge_zero nat_less_iff of_nat_numeral of_nat_power)
  then have "length (show_base 10 (nat \<bar>z\<bar>)) \<le> k" using assms(2) by (rule show_base_length)
  then show ?thesis by (cases "z < 0") (simp_all add: show_dec_def)
qed

text \<open>The conversions of a type: what was written is read, whatever the variable held.\<close>

definition BUF_SIZE :: nat where "BUF_SIZE = 200"

locale converter =
  fixes to_str :: "'a \<Rightarrow> string" and of_str :: "'a conversion"
  assumes reads_back: "of_str (to_str v) val = Some (True, v)"
begin

lemma injective: "to_str v = to_str w \<Longrightarrow> v = w"
  by (metis option.inject prod.inject reads_back)

lemma reads_back_keeps: "of_str (to_str v) val \<noteq> Some (False, val')"
  by (simp add: reads_back)

end

lemma sscanf_show: "lo \<le> z \<Longrightarrow> z \<le> hi \<Longrightarrow> sscanf_int lo hi (show_dec z) val = Some (True, word_of_int z)"
  using scan_number_show [of "[]" z] by (simp add: sscanf_int_def)

lemma short_number: "\<bar>z\<bar> < 10 ^ 20 \<Longrightarrow> TIXML_SNPRINTF BUF_SIZE (show_dec z) = show_dec z"
  using show_dec_length [of z 20] by (simp add: TIXML_SNPRINTF_def BUF_SIZE_def)

lemma sint_bounds32: "- (2 ^ 31) \<le> sint (v :: i32) \<and> sint v \<le> 2 ^ 31 - 1"
  using sint_greater_eq [of v] sint_less [of v] by simp

lemma sint_bounds64: "- (2 ^ 63) \<le> sint (v :: i64) \<and> sint v \<le> 2 ^ 63 - 1"
  using sint_greater_eq [of v] sint_less [of v] by simp

interpretation int_conv: converter "\<lambda>v. ToStr_int v BUF_SIZE" ToInt
proof
  fix v val :: i32
  show "ToInt (ToStr_int v BUF_SIZE) val = Some (True, v)"
    using sint_bounds32 [of v] sscanf_show [of "- (2 ^ 31)" "sint v" "2 ^ 31 - 1" val] short_number [of "sint v"]
    by (simp add: ToInt_def ToStr_int_def abs_if)
qed

interpretation unsigned_conv: converter "\<lambda>v. ToStr_unsigned v BUF_SIZE" ToUnsigned
proof
  fix v val :: u32
  have hi: "uint v \<le> 2 ^ 32 - 1" using uint_bounded [of v] by simp
  have lo: "- (2 ^ 32 - 1) \<le> uint v" by (rule order_trans [OF _ uint_ge_0]) simp
  have "\<bar>uint v\<bar> < 10 ^ 20" using hi by simp
  then show "ToUnsigned (ToStr_unsigned v BUF_SIZE) val = Some (True, v)"
    by (simp only: ToUnsigned_def ToStr_unsigned_def short_number sscanf_show [OF lo hi] word_of_int_uint)
qed

interpretation int64_conv: converter "\<lambda>v. ToStr_int64 v BUF_SIZE" ToInt64
proof
  fix v val :: i64
  show "ToInt64 (ToStr_int64 v BUF_SIZE) val = Some (True, v)"
    using sint_bounds64 [of v] sscanf_show [of "- (2 ^ 63)" "sint v" "2 ^ 63 - 1" val] short_number [of "sint v"]
    by (simp add: ToInt64_def ToStr_int64_def abs_if)
qed

text \<open>Booleans are read in the two default spellings and as numbers only.\<close>

lemma no_number: "scan_number ''true'' = None" "scan_number ''false'' = None"
  by code_simp+

interpretation bool_conv: converter "\<lambda>v. ToStr_bool default_names v BUF_SIZE" ToBool
  by unfold_locales
    (simp add: ToStr_bool_def default_names_def TIXML_SNPRINTF_def BUF_SIZE_def ToBool_def ToInt_def sscanf_int_def no_number)

lemma bool_spelling_unread:
  assumes "scan_number s = None" and "s \<notin> {''true'', ''false''}"
  shows "ToBool s val = Some (False, val)"
  using assms by (simp add: ToBool_def ToInt_def sscanf_int_def)

end
