(* ===== verification/Xml_Attributes.thy ===== *)
theory Xml_Attributes
  imports Xml_Value Xml_Tree "HOL-Library.AList"
begin

text \<open>
  Changing an element (\<^verbatim>\<open>server/tinyxml2.cpp\<close>, \<^verbatim>\<open>server/tinyxml2.h\<close>): the list of its attributes and the text it
  starts with.  The pool an attribute is taken from is not part of the model here.  The attributes are
  shown to be a map of the HOL library, and the typed accessors to give back what was set.
\<close>

section \<open>Attributes\<close>

type_synonym attribute = "str_pair \<times> str_pair"

definition attr_Name :: "attribute \<Rightarrow> string" where
  "attr_Name a = GetStr (fst a)"

definition attr_Value :: "attribute \<Rightarrow> string" where
  "attr_Value a = GetStr (snd a)"

definition SetName :: "string \<Rightarrow> attribute \<Rightarrow> attribute" where
  "SetName n a = (SetStr n, snd a)"

definition attr_SetAttribute :: "string \<Rightarrow> attribute \<Rightarrow> attribute" where
  "attr_SetAttribute v a = (fst a, SetStr v)"

text \<open>A new attribute has a name and a value that are not set.\<close>

definition CreateAttribute :: attribute where
  "CreateAttribute = (SetStr [], SetStr [])"

text \<open>\<open>FindOrCreateAttribute\<close>: the position of the attribute in the list, and the list.\<close>

definition FindOrCreateAttribute :: "string \<Rightarrow> attribute list \<Rightarrow> nat \<times> attribute list" where
  "FindOrCreateAttribute name attrs =
     (let i = length (takeWhile (\<lambda>a. attr_Name a \<noteq> name) attrs)
      in if i < length attrs then (i, attrs) else (i, attrs @ [SetName name CreateAttribute]))"

definition SetAttribute :: "string \<Rightarrow> string \<Rightarrow> attribute list \<Rightarrow> attribute list" where
  "SetAttribute name val attrs =
     (let (i, attrs) = FindOrCreateAttribute name attrs in attrs[i := attr_SetAttribute val (attrs ! i)])"

fun DeleteAttribute :: "string \<Rightarrow> attribute list \<Rightarrow> attribute list" where
  "DeleteAttribute name [] = []"
| "DeleteAttribute name (a # attrs) = (if name = attr_Name a then attrs else a # DeleteAttribute name attrs)"

section \<open>The text of an element\<close>

fun SetValue :: "string \<Rightarrow> xml_node \<Rightarrow> xml_node" where
  "SetValue s (XMLElement name closing attrs children) = XMLElement (SetStr s) closing attrs children"
| "SetValue s (XMLText v cdata) = XMLText (SetStr s) cdata"
| "SetValue s (XMLComment v) = XMLComment (SetStr s)"
| "SetValue s (XMLDeclaration v) = XMLDeclaration (SetStr s)"
| "SetValue s (XMLUnknown v) = XMLUnknown (SetStr s)"

definition ToText :: "xml_node \<Rightarrow> bool" where
  "ToText n = (case n of XMLText _ _ \<Rightarrow> True | _ \<Rightarrow> False)"

definition SetText :: "string \<Rightarrow> xml_node list \<Rightarrow> xml_node list" where
  "SetText inText children =
     (if children \<noteq> [] \<and> ToText (hd children) then SetValue inText (hd children) # tl children
      else XMLText (SetStr inText) False # children)"

section \<open>Maps\<close>

text \<open>What a client of the attributes may rely on.\<close>

locale attr_map =
  fixes lookup :: "'m \<Rightarrow> string \<Rightarrow> string option" and put :: "string \<Rightarrow> string \<Rightarrow> 'm \<Rightarrow> 'm"
    and del :: "string \<Rightarrow> 'm \<Rightarrow> 'm" and invar :: "'m \<Rightarrow> bool"
  assumes lookup_put: "lookup (put n v m) = (lookup m)(n \<mapsto> v)"
    and lookup_del: "invar m \<Longrightarrow> lookup (del n m) = (lookup m)(n := None)"
    and invar_put: "invar m \<Longrightarrow> invar (put n v m)"
    and invar_del: "invar m \<Longrightarrow> invar (del n m)"
begin

lemma put_twice: "lookup (put n v (put n w m)) = lookup (put n v m)"
  by (simp add: lookup_put)

lemma put_swap: "n \<noteq> n' \<Longrightarrow> lookup (put n v (put n' v' m)) = lookup (put n' v' (put n v m))"
  by (simp add: lookup_put fun_upd_twist)

lemma del_put: "invar m \<Longrightarrow> lookup (del n (put n v m)) = lookup (del n m)"
  by (simp add: lookup_put lookup_del invar_put)

lemma put_all: "lookup (fold (\<lambda>(n, v). put n v) kvs m) = lookup m ++ map_of (rev kvs)"
  by (induction kvs arbitrary: m) (auto simp: lookup_put map_add_upd_left)

lemma invar_all: "invar m \<Longrightarrow> invar (fold (\<lambda>(n, v). put n v) kvs m)"
  by (induction kvs arbitrary: m) (auto simp: invar_put)

end

text \<open>The attributes as their user reads them.\<close>

definition attrs_view :: "attribute list \<Rightarrow> (string \<times> string) list" where
  "attrs_view attrs = map (map_prod GetStr GetStr) attrs"

definition names_distinct :: "attribute list \<Rightarrow> bool" where
  "names_distinct attrs \<longleftrightarrow> distinct (map attr_Name attrs)"

lemma GetStr_SetStr [simp]: "GetStr (SetStr s) = s"
  by (simp add: SetStr_def)

lemma attrs_view_simps [simp]:
  "attrs_view [] = []" "attrs_view (a # attrs) = (attr_Name a, attr_Value a) # attrs_view attrs"
  "map fst (attrs_view attrs) = map attr_Name attrs"
  by (simp_all add: attrs_view_def attr_Name_def attr_Value_def map_prod_def case_prod_beta)

lemma SetAttribute_Nil: "SetAttribute name val [] = [(SetStr name, SetStr val)]"
  by (simp add: SetAttribute_def FindOrCreateAttribute_def SetName_def attr_SetAttribute_def)

lemma SetAttribute_Cons:
  "SetAttribute name val (a # attrs) =
     (if attr_Name a = name then attr_SetAttribute val a # attrs else a # SetAttribute name val attrs)"
  by (simp add: SetAttribute_def FindOrCreateAttribute_def Let_def nth_append)

lemma SetAttribute_view: "attrs_view (SetAttribute name val attrs) = AList.update name val (attrs_view attrs)"
  by (induction attrs) (auto simp: SetAttribute_Nil SetAttribute_Cons attr_SetAttribute_def attr_Name_def attr_Value_def)

lemma delete_absent: "n \<notin> set (map fst kvs) \<Longrightarrow> AList.delete n kvs = kvs"
  by (induction kvs) auto

lemma DeleteAttribute_view:
  "names_distinct attrs \<Longrightarrow> attrs_view (DeleteAttribute name attrs) = AList.delete name (attrs_view attrs)"
proof (induction attrs)
  case (Cons a attrs)
  then show ?case using delete_absent [of name "attrs_view attrs"] by (auto simp: names_distinct_def)
qed simp

lemma FindAttribute_view: "map_option attr_Value (FindAttribute name attrs) = map_of (attrs_view attrs) name"
  by (induction attrs) (auto simp: FindAttribute_def attr_Name_def case_prod_beta)

lemma Attribute_view: "Attribute name None attrs = map_of (attrs_view attrs) name"
  unfolding FindAttribute_view [symmetric]
  by (auto simp: Attribute_def attr_Value_def split: option.splits)

lemma SetAttribute_names: "map attr_Name (SetAttribute name val attrs) = map fst (AList.update name val (attrs_view attrs))"
  using SetAttribute_view [of name val attrs] by (metis attrs_view_simps(3))

interpretation attributes: attr_map "\<lambda>attrs n. Attribute n None attrs" SetAttribute DeleteAttribute names_distinct
proof
  fix n v attrs
  show "(\<lambda>k. Attribute k None (SetAttribute n v attrs)) = (\<lambda>k. Attribute k None attrs)(n \<mapsto> v)"
    by (simp add: fun_eq_iff Attribute_view SetAttribute_view update_conv')
  assume d: "names_distinct attrs"
  then show "(\<lambda>k. Attribute k None (DeleteAttribute n attrs)) = (\<lambda>k. Attribute k None attrs)(n := None)"
    by (simp add: fun_eq_iff Attribute_view DeleteAttribute_view delete_conv')
  show "names_distinct (SetAttribute n v attrs)"
    using d distinct_update [of "attrs_view attrs" n v] by (simp add: names_distinct_def SetAttribute_names)
  show "names_distinct (DeleteAttribute n attrs)"
    using d distinct_delete [of "attrs_view attrs" n] DeleteAttribute_view [OF d, of n]
    by (metis attrs_view_simps(3) names_distinct_def)
qed

text \<open>The attributes of a parsed element have distinct names.\<close>

lemma attrs_ok_distinct:
  assumes "attrs_ok attrs"
  shows "names_distinct attrs"
proof -
  have "map attr_Name attrs = map (sp_text \<circ> fst) attrs"
    using assms by (auto simp: attrs_ok_def attr_Name_def valid_name_def list_all_iff)
  with assms show ?thesis by (metis attrs_ok_def names_distinct_def)
qed

text \<open>
  C10: The attributes of an element are an association list with distinct names: setting one replaces the value
  where it stands or appends, deleting one removes it, looking one up finds the only value, and the order
  of the others never changes.
\<close>

theorem attributes_refine_alist:
  assumes "names_distinct attrs"
  shows "attrs_view (SetAttribute name val attrs) = AList.update name val (attrs_view attrs) \<and>
    attrs_view (DeleteAttribute name attrs) = AList.delete name (attrs_view attrs) \<and>
    Attribute name None attrs = map_of (attrs_view attrs) name \<and>
    names_distinct (SetAttribute name val attrs) \<and> names_distinct (DeleteAttribute name attrs)"
  using assms SetAttribute_view DeleteAttribute_view Attribute_view attributes.invar_put attributes.invar_del by simp

theorem attributes_refine_alist_witness:
  "attrs_view (DeleteAttribute ''a'' (SetAttribute ''b'' ''2'' [(SetStr ''a'', SetStr ''1''), (SetStr ''b'', SetStr ''0'')])) =
     [(''b'', ''2'')]"
  using attributes_refine_alist [of "[(SetStr ''a'', SetStr ''1''), (SetStr ''b'', SetStr ''0'')]" "''b''" "''2''"]
    attributes_refine_alist [of "SetAttribute ''b'' ''2'' [(SetStr ''a'', SetStr ''1''), (SetStr ''b'', SetStr ''0'')]" "''a''"]
  by (simp add: names_distinct_def attr_Name_def attr_Value_def)

section \<open>Setting the text\<close>

lemma GetText_SetText: "GetText (SetText s children) = Some s"
  by (cases children; cases "hd children") (auto simp: SetText_def GetText_def ToText_def)

text \<open>Elements among the children are still found.\<close>

lemma FirstChildElement_SetText: "FirstChildElement name (SetText s children) = FirstChildElement name children"
  by (cases children; cases "hd children")
    (auto simp: SetText_def FirstChildElement_def ToText_def ToElementWithName_def)

lemma SetText_SetText: "SetText s (SetText t children) = SetText s children"
  by (cases children; cases "hd children") (auto simp: SetText_def ToText_def)

end
