(* ===== verification/Xml_Typed.thy ===== *)
theory Xml_Typed
  imports Xml_Attributes Xml_Print
begin

text \<open>
  The typed accessors of \<open>XMLAttribute\<close>, \<open>XMLElement\<close> and \<open>XMLPrinter\<close> (\<^verbatim>\<open>server/tinyxml2.cpp\<close>,
  \<^verbatim>\<open>server/tinyxml2.h\<close>), one definition for each method of each type.  A query returns the error code and
  what the caller's variable holds then; \<open>None\<close> is undefined behaviour of the C library.
\<close>

type_synonym 'a query = "(xml_error \<times> 'a) option"

text \<open>What the methods have in common: the code for a value that cannot be converted, the one for none.\<close>

definition converted :: "xml_error \<Rightarrow> (bool \<times> 'a) option \<Rightarrow> 'a query" where
  "converted err r = map_option (\<lambda>(ok, val). (if ok then XML_SUCCESS else err, val)) r"

definition query_attribute :: "(attribute \<Rightarrow> 'a \<Rightarrow> 'a query) \<Rightarrow> string \<Rightarrow> attribute list \<Rightarrow> 'a \<Rightarrow> 'a query" where
  "query_attribute query name attrs val =
     (case FindAttribute name attrs of None \<Rightarrow> Some (XML_NO_ATTRIBUTE, val) | Some a \<Rightarrow> query a val)"

definition query_text :: "'a conversion \<Rightarrow> xml_node list \<Rightarrow> 'a \<Rightarrow> 'a query" where
  "query_text conv children val =
     (case children of
        XMLText t cdata # _ \<Rightarrow> converted XML_CAN_NOT_CONVERT_TEXT (conv (GetStr t) val)
      | _ \<Rightarrow> Some (XML_NO_TEXT_NODE, val))"

definition set_with :: "(attribute \<Rightarrow> attribute) \<Rightarrow> string \<Rightarrow> attribute list \<Rightarrow> attribute list" where
  "set_with set_value name attrs =
     (let (i, attrs) = FindOrCreateAttribute name attrs in attrs[i := set_value (attrs ! i)])"

section \<open>XMLAttribute\<close>

definition QueryIntValue :: "attribute \<Rightarrow> i32 \<Rightarrow> i32 query" where
  "QueryIntValue a val = converted XML_WRONG_ATTRIBUTE_TYPE (ToInt (attr_Value a) val)"

definition QueryUnsignedValue :: "attribute \<Rightarrow> u32 \<Rightarrow> u32 query" where
  "QueryUnsignedValue a val = converted XML_WRONG_ATTRIBUTE_TYPE (ToUnsigned (attr_Value a) val)"

definition QueryInt64Value :: "attribute \<Rightarrow> i64 \<Rightarrow> i64 query" where
  "QueryInt64Value a val = converted XML_WRONG_ATTRIBUTE_TYPE (ToInt64 (attr_Value a) val)"

definition QueryBoolValue :: "attribute \<Rightarrow> bool \<Rightarrow> bool query" where
  "QueryBoolValue a val = converted XML_WRONG_ATTRIBUTE_TYPE (ToBool (attr_Value a) val)"

definition QueryDoubleValue :: "'f float_lib \<Rightarrow> attribute \<Rightarrow> 'f \<Rightarrow> 'f query" where
  "QueryDoubleValue lib a val = converted XML_WRONG_ATTRIBUTE_TYPE (ToDouble lib (attr_Value a) val)"

definition QueryFloatValue :: "'f float_lib \<Rightarrow> attribute \<Rightarrow> 'f \<Rightarrow> 'f query" where
  "QueryFloatValue lib a val = converted XML_WRONG_ATTRIBUTE_TYPE (ToFloat lib (attr_Value a) val)"

text \<open>The value, or zero if there is an error.\<close>

definition IntValue :: "attribute \<Rightarrow> i32 option" where
  "IntValue a = map_option snd (QueryIntValue a 0)"

definition UnsignedValue :: "attribute \<Rightarrow> u32 option" where
  "UnsignedValue a = map_option snd (QueryUnsignedValue a 0)"

definition Int64Value :: "attribute \<Rightarrow> i64 option" where
  "Int64Value a = map_option snd (QueryInt64Value a 0)"

definition BoolValue :: "attribute \<Rightarrow> bool option" where
  "BoolValue a = map_option snd (QueryBoolValue a False)"

definition DoubleValue :: "'f float_lib \<Rightarrow> 'f \<Rightarrow> attribute \<Rightarrow> 'f option" where
  "DoubleValue lib zero a = map_option snd (QueryDoubleValue lib a zero)"

definition FloatValue :: "'f float_lib \<Rightarrow> 'f \<Rightarrow> attribute \<Rightarrow> 'f option" where
  "FloatValue lib zero a = map_option snd (QueryFloatValue lib a zero)"

definition attr_SetAttribute_int :: "i32 \<Rightarrow> attribute \<Rightarrow> attribute" where
  "attr_SetAttribute_int v a = attr_SetAttribute (ToStr_int v BUF_SIZE) a"

definition attr_SetAttribute_unsigned :: "u32 \<Rightarrow> attribute \<Rightarrow> attribute" where
  "attr_SetAttribute_unsigned v a = attr_SetAttribute (ToStr_unsigned v BUF_SIZE) a"

definition attr_SetAttribute_int64 :: "i64 \<Rightarrow> attribute \<Rightarrow> attribute" where
  "attr_SetAttribute_int64 v a = attr_SetAttribute (ToStr_int64 v BUF_SIZE) a"

definition attr_SetAttribute_bool :: "bool_names \<Rightarrow> bool \<Rightarrow> attribute \<Rightarrow> attribute" where
  "attr_SetAttribute_bool names v a = attr_SetAttribute (ToStr_bool names v BUF_SIZE) a"

definition attr_SetAttribute_double :: "'f float_lib \<Rightarrow> 'f \<Rightarrow> attribute \<Rightarrow> attribute" where
  "attr_SetAttribute_double lib v a = attr_SetAttribute (ToStr_double lib v BUF_SIZE) a"

definition attr_SetAttribute_float :: "'f float_lib \<Rightarrow> 'f \<Rightarrow> attribute \<Rightarrow> attribute" where
  "attr_SetAttribute_float lib v a = attr_SetAttribute (ToStr_float lib v BUF_SIZE) a"

section \<open>Attributes of an element\<close>

definition QueryIntAttribute :: "string \<Rightarrow> attribute list \<Rightarrow> i32 \<Rightarrow> i32 query" where
  "QueryIntAttribute = query_attribute (QueryIntValue)"

definition QueryUnsignedAttribute :: "string \<Rightarrow> attribute list \<Rightarrow> u32 \<Rightarrow> u32 query" where
  "QueryUnsignedAttribute = query_attribute (QueryUnsignedValue)"

definition QueryInt64Attribute :: "string \<Rightarrow> attribute list \<Rightarrow> i64 \<Rightarrow> i64 query" where
  "QueryInt64Attribute = query_attribute (QueryInt64Value)"

definition QueryBoolAttribute :: "string \<Rightarrow> attribute list \<Rightarrow> bool \<Rightarrow> bool query" where
  "QueryBoolAttribute = query_attribute (QueryBoolValue)"

definition QueryDoubleAttribute :: "'f float_lib \<Rightarrow> string \<Rightarrow> attribute list \<Rightarrow> 'f \<Rightarrow> 'f query" where
  "QueryDoubleAttribute lib = query_attribute (QueryDoubleValue lib)"

definition QueryFloatAttribute :: "'f float_lib \<Rightarrow> string \<Rightarrow> attribute list \<Rightarrow> 'f \<Rightarrow> 'f query" where
  "QueryFloatAttribute lib = query_attribute (QueryFloatValue lib)"

definition QueryStringAttribute :: "string \<Rightarrow> attribute list \<Rightarrow> string \<Rightarrow> string query" where
  "QueryStringAttribute = query_attribute (\<lambda>a val. Some (XML_SUCCESS, attr_Value a))"

text \<open>The attribute, or the default if there is an error.\<close>

definition IntAttribute :: "string \<Rightarrow> i32 \<Rightarrow> attribute list \<Rightarrow> i32 option" where
  "IntAttribute name defaultValue attrs = map_option snd (QueryIntAttribute name attrs defaultValue)"

definition UnsignedAttribute :: "string \<Rightarrow> u32 \<Rightarrow> attribute list \<Rightarrow> u32 option" where
  "UnsignedAttribute name defaultValue attrs = map_option snd (QueryUnsignedAttribute name attrs defaultValue)"

definition Int64Attribute :: "string \<Rightarrow> i64 \<Rightarrow> attribute list \<Rightarrow> i64 option" where
  "Int64Attribute name defaultValue attrs = map_option snd (QueryInt64Attribute name attrs defaultValue)"

definition BoolAttribute :: "string \<Rightarrow> bool \<Rightarrow> attribute list \<Rightarrow> bool option" where
  "BoolAttribute name defaultValue attrs = map_option snd (QueryBoolAttribute name attrs defaultValue)"

definition DoubleAttribute :: "'f float_lib \<Rightarrow> string \<Rightarrow> 'f \<Rightarrow> attribute list \<Rightarrow> 'f option" where
  "DoubleAttribute lib name defaultValue attrs = map_option snd (QueryDoubleAttribute lib name attrs defaultValue)"

definition FloatAttribute :: "'f float_lib \<Rightarrow> string \<Rightarrow> 'f \<Rightarrow> attribute list \<Rightarrow> 'f option" where
  "FloatAttribute lib name defaultValue attrs = map_option snd (QueryFloatAttribute lib name attrs defaultValue)"

definition SetAttribute_int :: "string \<Rightarrow> i32 \<Rightarrow> attribute list \<Rightarrow> attribute list" where
  "SetAttribute_int name v = set_with (attr_SetAttribute_int v) name"

definition SetAttribute_unsigned :: "string \<Rightarrow> u32 \<Rightarrow> attribute list \<Rightarrow> attribute list" where
  "SetAttribute_unsigned name v = set_with (attr_SetAttribute_unsigned v) name"

definition SetAttribute_int64 :: "string \<Rightarrow> i64 \<Rightarrow> attribute list \<Rightarrow> attribute list" where
  "SetAttribute_int64 name v = set_with (attr_SetAttribute_int64 v) name"

definition SetAttribute_bool :: "bool_names \<Rightarrow> string \<Rightarrow> bool \<Rightarrow> attribute list \<Rightarrow> attribute list" where
  "SetAttribute_bool names name v = set_with (attr_SetAttribute_bool names v) name"

definition SetAttribute_double :: "'f float_lib \<Rightarrow> string \<Rightarrow> 'f \<Rightarrow> attribute list \<Rightarrow> attribute list" where
  "SetAttribute_double lib name v = set_with (attr_SetAttribute_double lib v) name"

definition SetAttribute_float :: "'f float_lib \<Rightarrow> string \<Rightarrow> 'f \<Rightarrow> attribute list \<Rightarrow> attribute list" where
  "SetAttribute_float lib name v = set_with (attr_SetAttribute_float lib v) name"

section \<open>Text of an element\<close>

definition SetText_int :: "i32 \<Rightarrow> xml_node list \<Rightarrow> xml_node list" where
  "SetText_int v = SetText (ToStr_int v BUF_SIZE)"

definition SetText_unsigned :: "u32 \<Rightarrow> xml_node list \<Rightarrow> xml_node list" where
  "SetText_unsigned v = SetText (ToStr_unsigned v BUF_SIZE)"

definition SetText_int64 :: "i64 \<Rightarrow> xml_node list \<Rightarrow> xml_node list" where
  "SetText_int64 v = SetText (ToStr_int64 v BUF_SIZE)"

definition SetText_bool :: "bool_names \<Rightarrow> bool \<Rightarrow> xml_node list \<Rightarrow> xml_node list" where
  "SetText_bool names v = SetText (ToStr_bool names v BUF_SIZE)"

definition SetText_double :: "'f float_lib \<Rightarrow> 'f \<Rightarrow> xml_node list \<Rightarrow> xml_node list" where
  "SetText_double lib v = SetText (ToStr_double lib v BUF_SIZE)"

definition SetText_float :: "'f float_lib \<Rightarrow> 'f \<Rightarrow> xml_node list \<Rightarrow> xml_node list" where
  "SetText_float lib v = SetText (ToStr_float lib v BUF_SIZE)"

definition QueryIntText :: "xml_node list \<Rightarrow> i32 \<Rightarrow> i32 query" where
  "QueryIntText = query_text (ToInt)"

definition QueryUnsignedText :: "xml_node list \<Rightarrow> u32 \<Rightarrow> u32 query" where
  "QueryUnsignedText = query_text (ToUnsigned)"

definition QueryInt64Text :: "xml_node list \<Rightarrow> i64 \<Rightarrow> i64 query" where
  "QueryInt64Text = query_text (ToInt64)"

definition QueryBoolText :: "xml_node list \<Rightarrow> bool \<Rightarrow> bool query" where
  "QueryBoolText = query_text (ToBool)"

definition QueryDoubleText :: "'f float_lib \<Rightarrow> xml_node list \<Rightarrow> 'f \<Rightarrow> 'f query" where
  "QueryDoubleText lib = query_text (ToDouble lib)"

definition QueryFloatText :: "'f float_lib \<Rightarrow> xml_node list \<Rightarrow> 'f \<Rightarrow> 'f query" where
  "QueryFloatText lib = query_text (ToFloat lib)"

definition IntText :: "i32 \<Rightarrow> xml_node list \<Rightarrow> i32 option" where
  "IntText defaultValue children = map_option snd (QueryIntText children defaultValue)"

definition UnsignedText :: "u32 \<Rightarrow> xml_node list \<Rightarrow> u32 option" where
  "UnsignedText defaultValue children = map_option snd (QueryUnsignedText children defaultValue)"

definition Int64Text :: "i64 \<Rightarrow> xml_node list \<Rightarrow> i64 option" where
  "Int64Text defaultValue children = map_option snd (QueryInt64Text children defaultValue)"

definition BoolText :: "bool \<Rightarrow> xml_node list \<Rightarrow> bool option" where
  "BoolText defaultValue children = map_option snd (QueryBoolText children defaultValue)"

definition DoubleText :: "'f float_lib \<Rightarrow> 'f \<Rightarrow> xml_node list \<Rightarrow> 'f option" where
  "DoubleText lib defaultValue children = map_option snd (QueryDoubleText lib children defaultValue)"

definition FloatText :: "'f float_lib \<Rightarrow> 'f \<Rightarrow> xml_node list \<Rightarrow> 'f option" where
  "FloatText lib defaultValue children = map_option snd (QueryFloatText lib children defaultValue)"

section \<open>The printer without a document\<close>

definition PushAttribute_int :: "string \<Rightarrow> i32 \<Rightarrow> xml_printer \<Rightarrow> xml_printer" where
  "PushAttribute_int name v = PushAttribute name (ToStr_int v BUF_SIZE)"

definition PushAttribute_unsigned :: "string \<Rightarrow> u32 \<Rightarrow> xml_printer \<Rightarrow> xml_printer" where
  "PushAttribute_unsigned name v = PushAttribute name (ToStr_unsigned v BUF_SIZE)"

definition PushAttribute_int64 :: "string \<Rightarrow> i64 \<Rightarrow> xml_printer \<Rightarrow> xml_printer" where
  "PushAttribute_int64 name v = PushAttribute name (ToStr_int64 v BUF_SIZE)"

definition PushAttribute_bool :: "bool_names \<Rightarrow> string \<Rightarrow> bool \<Rightarrow> xml_printer \<Rightarrow> xml_printer" where
  "PushAttribute_bool names name v = PushAttribute name (ToStr_bool names v BUF_SIZE)"

definition PushAttribute_double :: "'f float_lib \<Rightarrow> string \<Rightarrow> 'f \<Rightarrow> xml_printer \<Rightarrow> xml_printer" where
  "PushAttribute_double lib name v = PushAttribute name (ToStr_double lib v BUF_SIZE)"

definition PushText_int :: "i32 \<Rightarrow> xml_printer \<Rightarrow> xml_printer" where
  "PushText_int v = PushText (ToStr_int v BUF_SIZE) False"

definition PushText_unsigned :: "u32 \<Rightarrow> xml_printer \<Rightarrow> xml_printer" where
  "PushText_unsigned v = PushText (ToStr_unsigned v BUF_SIZE) False"

definition PushText_int64 :: "i64 \<Rightarrow> xml_printer \<Rightarrow> xml_printer" where
  "PushText_int64 v = PushText (ToStr_int64 v BUF_SIZE) False"

definition PushText_bool :: "bool_names \<Rightarrow> bool \<Rightarrow> xml_printer \<Rightarrow> xml_printer" where
  "PushText_bool names v = PushText (ToStr_bool names v BUF_SIZE) False"

definition PushText_double :: "'f float_lib \<Rightarrow> 'f \<Rightarrow> xml_printer \<Rightarrow> xml_printer" where
  "PushText_double lib v = PushText (ToStr_double lib v BUF_SIZE) False"

definition PushText_float :: "'f float_lib \<Rightarrow> 'f \<Rightarrow> xml_printer \<Rightarrow> xml_printer" where
  "PushText_float lib v = PushText (ToStr_float lib v BUF_SIZE) False"

lemmas query_value_defs = QueryIntValue_def QueryUnsignedValue_def QueryInt64Value_def QueryBoolValue_def
  QueryDoubleValue_def QueryFloatValue_def converted_def

lemmas query_attribute_defs = QueryIntAttribute_def QueryUnsignedAttribute_def QueryInt64Attribute_def
  QueryBoolAttribute_def QueryDoubleAttribute_def QueryFloatAttribute_def

lemmas set_attribute_defs = SetAttribute_int_def SetAttribute_unsigned_def SetAttribute_int64_def SetAttribute_bool_def
  attr_SetAttribute_int_def [abs_def] attr_SetAttribute_unsigned_def [abs_def] attr_SetAttribute_int64_def [abs_def]
  attr_SetAttribute_bool_def [abs_def]

lemmas text_defs = SetText_int_def SetText_unsigned_def SetText_int64_def SetText_bool_def QueryIntText_def
  QueryUnsignedText_def QueryInt64Text_def QueryBoolText_def

section \<open>What was set is read\<close>

lemma set_with_SetAttribute: "set_with (\<lambda>a. attr_SetAttribute s a) name attrs = SetAttribute name s attrs"
  by (simp add: set_with_def SetAttribute_def)

lemma FindAttribute_set: "\<exists>a. FindAttribute name (SetAttribute name s attrs) = Some a \<and> attr_Value a = s"
proof -
  have "map_option attr_Value (FindAttribute name (SetAttribute name s attrs)) = Some s"
    by (simp add: FindAttribute_view SetAttribute_view update_conv')
  then show ?thesis by (auto simp: map_option_eq_Some)
qed

lemma FindAttribute_other:
  "n \<noteq> name \<Longrightarrow> map_option attr_Value (FindAttribute n (SetAttribute name s attrs)) = map_option attr_Value (FindAttribute n attrs)"
  by (simp add: FindAttribute_view SetAttribute_view update_conv')

context converter
begin

lemma attribute_read:
  "query_attribute (\<lambda>a val. converted XML_WRONG_ATTRIBUTE_TYPE (of_str (attr_Value a) val)) name
     (SetAttribute name (to_str v) attrs) val = Some (XML_SUCCESS, v)"
  using FindAttribute_set [of name "to_str v" attrs]
  by (auto simp: query_attribute_def converted_def reads_back)

lemma text_read: "query_text of_str (SetText (to_str v) children) val = Some (XML_SUCCESS, v)"
proof -
  obtain t cdata rest where "SetText (to_str v) children = XMLText t cdata # rest" "GetStr t = to_str v"
    by (cases children; cases "hd children") (auto simp: SetText_def ToText_def)
  then show ?thesis by (simp add: query_text_def converted_def reads_back)
qed

end

text \<open>A query reads nothing of an attribute but its value, so the others are as before.\<close>

lemma query_other:
  assumes "n \<noteq> name"
  shows "query_attribute (\<lambda>a val. f (attr_Value a) val) n (SetAttribute name s attrs) val =
    query_attribute (\<lambda>a val. f (attr_Value a) val) n attrs val"
  using FindAttribute_other [OF assms, of s attrs]
  by (cases "FindAttribute n attrs"; cases "FindAttribute n (SetAttribute name s attrs)") (auto simp: query_attribute_def)

lemmas query_values = QueryIntValue_def [abs_def] QueryUnsignedValue_def [abs_def] QueryInt64Value_def [abs_def]
  QueryBoolValue_def [abs_def]

text \<open>
  C11: A typed attribute that is set is read back with success and the same value, for every value of the type:
  32 and 64 bit integers, unsigned ones, and booleans in the default spelling; and so is the text of
  an element.
\<close>

theorem typed_roundtrip:
  "QueryIntAttribute name (SetAttribute_int name i attrs) i0 = Some (XML_SUCCESS, i) \<and>
   QueryUnsignedAttribute name (SetAttribute_unsigned name u attrs) u0 = Some (XML_SUCCESS, u) \<and>
   QueryInt64Attribute name (SetAttribute_int64 name l attrs) l0 = Some (XML_SUCCESS, l) \<and>
   QueryBoolAttribute name (SetAttribute_bool default_names name b attrs) b0 = Some (XML_SUCCESS, b) \<and>
   QueryIntText (SetText_int i children) i0 = Some (XML_SUCCESS, i) \<and>
   QueryUnsignedText (SetText_unsigned u children) u0 = Some (XML_SUCCESS, u) \<and>
   QueryInt64Text (SetText_int64 l children) l0 = Some (XML_SUCCESS, l) \<and>
   QueryBoolText (SetText_bool default_names b children) b0 = Some (XML_SUCCESS, b)"
  by (simp add: query_attribute_defs(1-4) set_attribute_defs set_with_SetAttribute text_defs query_values
      int_conv.attribute_read unsigned_conv.attribute_read int64_conv.attribute_read bool_conv.attribute_read
      int_conv.text_read unsigned_conv.text_read int64_conv.text_read bool_conv.text_read)

text \<open>
  The integer readers take what \<open>sscanf\<close> takes: leading blanks, a sign also for an unsigned variable, and
  anything behind the digits.
\<close>

lemma QueryInt_prefix:
  assumes "rest = [] \<or> \<not> isdigit (hd rest)" and "- (2 ^ 31) \<le> z" and "z < 2 ^ 31"
  shows "QueryIntValue (n, SetStr (show_dec z @ rest)) val = Some (XML_SUCCESS, word_of_int z)"
  using scan_number_show [OF assms(1), of z] assms(2,3)
  by (simp add: QueryIntValue_def converted_def ToInt_def sscanf_int_def attr_Value_def)

lemma QueryUnsigned_minus_one: "QueryUnsignedValue (n, SetStr ''-1'') val = Some (XML_SUCCESS, - 1)"
proof -
  have "scan_number ''-1'' = Some (- 1)" by code_simp
  then show ?thesis by (simp add: QueryUnsignedValue_def converted_def ToUnsigned_def sscanf_int_def attr_Value_def)
qed

text \<open>A boolean in another spelling is written and cannot be read.\<close>

lemma other_spelling_unread:
  assumes "scan_number s = None" and "s \<notin> {''true'', ''false''}" and "length s < BUF_SIZE"
  shows "QueryBoolAttribute name (SetAttribute_bool (SetBoolSerialization (Some s) f) name True attrs) b0 =
    Some (XML_WRONG_ATTRIBUTE_TYPE, b0)"
proof -
  have "ToStr_bool (SetBoolSerialization (Some s) f) True BUF_SIZE = s"
    using assms(3) by (simp add: ToStr_bool_def SetBoolSerialization_def TIXML_SNPRINTF_def)
  moreover obtain a where "FindAttribute name (SetAttribute name s attrs) = Some a" "attr_Value a = s"
    using FindAttribute_set by blast
  ultimately show ?thesis
    using bool_spelling_unread [OF assms(1,2), of b0]
    by (simp add: set_attribute_defs set_with_SetAttribute query_attribute_defs(4) query_attribute_def query_value_defs)
qed

text \<open>Without the attribute, or with a value that is no number, the variable keeps the default.\<close>

lemma IntAttribute_default:
  "FindAttribute name attrs = None \<Longrightarrow> IntAttribute name d attrs = Some d"
  "FindAttribute name attrs = Some a \<Longrightarrow> scan_number (attr_Value a) = None \<Longrightarrow> IntAttribute name d attrs = Some d"
  by (simp_all add: IntAttribute_def query_attribute_defs(1) query_attribute_def query_value_defs ToInt_def sscanf_int_def)

end
