(* ===== verification/Xml_Clone.thy ===== *)
theory Xml_Clone
  imports Xml_Attributes Xml_Render
begin

text \<open>
  New nodes, copies and comparison (\<^verbatim>\<open>server/tinyxml2.cpp\<close>): what a copy of a document shares with it, and what
  two nodes that compare as equal have in common.
\<close>

section \<open>New nodes\<close>

definition NewElement :: "string \<Rightarrow> xml_node" where
  "NewElement name = XMLElement (SetStr name) OPEN [] []"

definition NewComment :: "string \<Rightarrow> xml_node" where
  "NewComment str = XMLComment (SetStr str)"

definition NewText :: "string \<Rightarrow> xml_node" where
  "NewText str = XMLText (SetStr str) False"

definition default_declaration :: string where
  "default_declaration =
     ''xml version='' @ [CHR 0x22] @ ''1.0'' @ [CHR 0x22] @ '' encoding='' @ [CHR 0x22] @ ''UTF-8'' @ [CHR 0x22]"

definition NewDeclaration :: "string option \<Rightarrow> xml_node" where
  "NewDeclaration str = XMLDeclaration (SetStr (case str of None \<Rightarrow> default_declaration | Some s \<Rightarrow> s))"

definition NewUnknown :: "string \<Rightarrow> xml_node" where
  "NewUnknown str = XMLUnknown (SetStr str)"

definition SetCData :: "bool \<Rightarrow> xml_node \<Rightarrow> xml_node" where
  "SetCData isCData n = (case n of XMLText v _ \<Rightarrow> XMLText v isCData | _ \<Rightarrow> n)"

section \<open>Copies\<close>

definition clone_attributes :: "attribute list \<Rightarrow> attribute list" where
  "clone_attributes attrs = fold (\<lambda>a. SetAttribute (attr_Name a) (attr_Value a)) attrs []"

definition XMLText_ShallowClone :: "str_pair \<Rightarrow> bool \<Rightarrow> xml_node" where
  "XMLText_ShallowClone v cdata = SetCData cdata (NewText (GetStr v))"

definition XMLComment_ShallowClone :: "str_pair \<Rightarrow> xml_node" where
  "XMLComment_ShallowClone v = NewComment (GetStr v)"

definition XMLDeclaration_ShallowClone :: "str_pair \<Rightarrow> xml_node" where
  "XMLDeclaration_ShallowClone v = NewDeclaration (Some (GetStr v))"

definition XMLUnknown_ShallowClone :: "str_pair \<Rightarrow> xml_node" where
  "XMLUnknown_ShallowClone v = NewUnknown (GetStr v)"

lemmas leaf_clones [simp] = XMLText_ShallowClone_def XMLComment_ShallowClone_def XMLDeclaration_ShallowClone_def
  XMLUnknown_ShallowClone_def

fun ShallowClone :: "xml_node \<Rightarrow> xml_node" where
  "ShallowClone (XMLElement v closing attrs children) =
     (case NewElement (GetStr v) of
        XMLElement v' closing' _ children' \<Rightarrow> XMLElement v' closing' (clone_attributes attrs) children'
      | n \<Rightarrow> n)"
| "ShallowClone (XMLText v cdata) = XMLText_ShallowClone v cdata"
| "ShallowClone (XMLComment v) = XMLComment_ShallowClone v"
| "ShallowClone (XMLDeclaration v) = XMLDeclaration_ShallowClone v"
| "ShallowClone (XMLUnknown v) = XMLUnknown_ShallowClone v"

text \<open>\<open>InsertEndChild\<close> of a new node, which is not linked anywhere.\<close>

definition append_child :: "xml_node \<Rightarrow> xml_node \<Rightarrow> xml_node" where
  "append_child child n =
     (case n of XMLElement v closing attrs children \<Rightarrow> XMLElement v closing attrs (children @ [child]) | _ \<Rightarrow> n)"

fun DeepClone :: "xml_node \<Rightarrow> xml_node" where
  "DeepClone (XMLElement v closing attrs children) =
     fold append_child (map DeepClone children) (ShallowClone (XMLElement v closing attrs children))"
| "DeepClone n = ShallowClone n"

text \<open>\<open>DeepCopy\<close> to another document: its nodes, and what becomes of its state.\<close>

definition DeepCopy :: "xml_node list \<Rightarrow> xml_doc \<Rightarrow> xml_node list \<times> xml_doc" where
  "DeepCopy ns target = (map DeepClone ns, Clear_doc target)"

section \<open>Comparison\<close>

text \<open>The loop over the two attribute lists.\<close>

fun equal_values :: "attribute list \<Rightarrow> attribute list \<Rightarrow> bool" where
  "equal_values (a # as) (b # bs) \<longleftrightarrow> attr_Value a = attr_Value b \<and> equal_values as bs"
| "equal_values [] [] \<longleftrightarrow> True"
| "equal_values _ _ \<longleftrightarrow> False"

definition XMLText_ShallowEqual :: "str_pair \<Rightarrow> xml_node \<Rightarrow> bool" where
  "XMLText_ShallowEqual str compare \<longleftrightarrow> (case compare of XMLText v _ \<Rightarrow> GetStr v = GetStr str | _ \<Rightarrow> False)"

definition XMLComment_ShallowEqual :: "str_pair \<Rightarrow> xml_node \<Rightarrow> bool" where
  "XMLComment_ShallowEqual str compare \<longleftrightarrow> (case compare of XMLComment v \<Rightarrow> GetStr v = GetStr str | _ \<Rightarrow> False)"

definition XMLDeclaration_ShallowEqual :: "str_pair \<Rightarrow> xml_node \<Rightarrow> bool" where
  "XMLDeclaration_ShallowEqual str compare \<longleftrightarrow> (case compare of XMLDeclaration v \<Rightarrow> GetStr v = GetStr str | _ \<Rightarrow> False)"

definition XMLUnknown_ShallowEqual :: "str_pair \<Rightarrow> xml_node \<Rightarrow> bool" where
  "XMLUnknown_ShallowEqual str compare \<longleftrightarrow> (case compare of XMLUnknown v \<Rightarrow> GetStr v = GetStr str | _ \<Rightarrow> False)"

lemmas leaf_equal [simp] = XMLText_ShallowEqual_def XMLComment_ShallowEqual_def XMLDeclaration_ShallowEqual_def
  XMLUnknown_ShallowEqual_def

fun ShallowEqual :: "xml_node \<Rightarrow> xml_node \<Rightarrow> bool" where
  "ShallowEqual (XMLElement v _ attrs _) compare \<longleftrightarrow>
     (case compare of
        XMLElement v' _ attrs' _ \<Rightarrow> GetStr v' = GetStr v \<and> equal_values attrs attrs'
      | _ \<Rightarrow> False)"
| "ShallowEqual (XMLText v _) compare \<longleftrightarrow> XMLText_ShallowEqual v compare"
| "ShallowEqual (XMLComment v) compare \<longleftrightarrow> XMLComment_ShallowEqual v compare"
| "ShallowEqual (XMLDeclaration v) compare \<longleftrightarrow> XMLDeclaration_ShallowEqual v compare"
| "ShallowEqual (XMLUnknown v) compare \<longleftrightarrow> XMLUnknown_ShallowEqual v compare"

lemma equal_values_map: "equal_values as bs \<longleftrightarrow> map attr_Value as = map attr_Value bs"
  by (induction as bs rule: equal_values.induct) auto

text \<open>What the comparison looks at: the kind, the value, and the values of the attributes.\<close>

fun shallow_key :: "tree \<Rightarrow> nat \<times> string \<times> string list" where
  "shallow_key (Elem name attrs children) = (0, name, map snd attrs)"
| "shallow_key (Txt s cdata) = (1, s, [])"
| "shallow_key (Comm s) = (2, s, [])"
| "shallow_key (Decl s) = (3, s, [])"
| "shallow_key (Unk s) = (4, s, [])"

lemma attr_Value_fun: "attr_Value = GetStr \<circ> snd"
  by (simp add: fun_eq_iff attr_Value_def)

lemma ShallowEqual_key: "ShallowEqual n m \<longleftrightarrow> shallow_key (view n) = shallow_key (view m)"
  by (cases n; cases m) (auto simp: equal_values_map attr_Value_fun)

text \<open>
  Two nodes compare as equal if they have the same kind and value and, for elements, the same attribute
  values in the same order.  So the comparison is an equivalence; the names of the attributes, and whether
  a text is a CDATA section, do not matter to it.
\<close>

theorem ShallowEqual_exact:
  "(ShallowEqual n m \<longleftrightarrow> shallow_key (view n) = shallow_key (view m)) \<and> equivp ShallowEqual \<and>
   ShallowEqual (XMLElement v closing [(SetStr a, SetStr x)] children) (XMLElement v closing [(SetStr b, SetStr x)] children) \<and>
   ShallowEqual (XMLText v True) (XMLText v False)"
  by (auto simp: ShallowEqual_key attr_Value_def equivp_def fun_eq_iff)

section \<open>A copy is the same document\<close>

fun clonable :: "xml_node \<Rightarrow> bool" where
  "clonable (XMLElement v closing attrs children) \<longleftrightarrow> names_distinct attrs \<and> list_all clonable children"
| "clonable n \<longleftrightarrow> True"

lemma node_ok_clonable: "node_ok k n \<Longrightarrow> clonable n"
proof (induction n arbitrary: k)
  case (XMLElement v closing attrs children)
  then show ?case
    by (cases closing) (auto simp: attrs_ok_distinct list_all_iff)
qed simp_all

lemma clone_attributes_view:
  assumes "names_distinct attrs"
  shows "attrs_view (clone_attributes attrs) = attrs_view attrs"
proof -
  have "attrs_view (fold (\<lambda>a. SetAttribute (attr_Name a) (attr_Value a)) attrs before) = attrs_view before @ attrs_view attrs"
    if "distinct (map attr_Name (before @ attrs))" for before
    using that
  proof (induction attrs arbitrary: before)
    case (Cons a attrs)
    have new: "AList.update n v kvs = kvs @ [(n, v)]" if "n \<notin> set (map fst kvs)" for n :: string and v :: string and kvs
      using that by (induction kvs) auto
    let ?before = "SetAttribute (attr_Name a) (attr_Value a) before"
    have view: "attrs_view ?before = attrs_view before @ [(attr_Name a, attr_Value a)]"
      using Cons.prems by (simp add: SetAttribute_view new)
    then have "map attr_Name ?before = map attr_Name before @ [attr_Name a]"
      by (metis attrs_view_simps(3) list.simps(8,9) map_append fst_conv)
    with Cons.IH [of ?before] Cons.prems view show ?case by simp
  qed simp
  from this [of "[]"] assms show ?thesis by (simp add: clone_attributes_def names_distinct_def)
qed

lemma fold_append_child:
  "fold append_child cs (XMLElement v closing attrs children) = XMLElement v closing attrs (children @ cs)"
  by (induction cs arbitrary: children) (auto simp: append_child_def)

lemma DeepClone_element:
  "DeepClone (XMLElement v closing attrs children) =
     XMLElement (SetStr (GetStr v)) OPEN (clone_attributes attrs) (map DeepClone children)"
  by (simp add: NewElement_def fold_append_child)

lemma DeepClone_view: "clonable n \<Longrightarrow> view (DeepClone n) = view n"
proof (induction n)
  case (XMLElement v closing attrs children)
  then show ?case
    using clone_attributes_view [of attrs]
    by (auto simp: DeepClone_element attrs_view_def list_all_iff simp del: DeepClone.simps)
qed (simp_all add: NewText_def SetCData_def NewComment_def NewDeclaration_def NewUnknown_def)

lemma ShallowClone_equal: "clonable n \<Longrightarrow> ShallowEqual n (ShallowClone n)"
proof (cases n)
  case (XMLElement v closing attrs children)
  moreover assume "clonable n"
  ultimately have "map snd (attrs_view (clone_attributes attrs)) = map snd (attrs_view attrs)"
    by (simp add: clone_attributes_view)
  with XMLElement show ?thesis
    by (simp add: NewElement_def equal_values_map attrs_view_def attr_Value_fun comp_def)
qed (simp_all add: NewText_def SetCData_def NewComment_def NewDeclaration_def NewUnknown_def)

text \<open>What the printer writes depends on what the user of a node reads, in every mode.\<close>

definition prints_alike :: "xml_node \<Rightarrow> xml_node \<Rightarrow> bool" where
  "prints_alike n m \<longleftrightarrow> (\<forall>pr. snd (Accept printer n pr) = snd (Accept printer m pr))"

lemma fold_alike: "list_all2 prints_alike ns ms \<Longrightarrow>
  fold (\<lambda>n pr. snd (Accept printer n pr)) ns pr = fold (\<lambda>n pr. snd (Accept printer n pr)) ms pr"
  by (induction ns ms arbitrary: pr rule: list_all2_induct) (auto simp: prints_alike_def)

lemma enter_alike:
  assumes "GetStr v = GetStr v'" and "map (map_prod GetStr GetStr) attrs = map (map_prod GetStr GetStr) attrs'"
  shows "printer_enter_element v attrs pr = printer_enter_element v' attrs' pr"
proof -
  have fold_view: "fold (\<lambda>(n, v). PushAttribute (GetStr n) (GetStr v)) as pr =
      fold (\<lambda>(n, v). PushAttribute n v) (map (map_prod GetStr GetStr) as) pr" for as pr
    by (induction as arbitrary: pr) (auto simp: case_prod_beta)
  show ?thesis unfolding printer_enter_element_def fold_view using assms by simp
qed

lemma printer_exit: "VisitExit_element printer v = VisitExit_element printer v'"
  and printer_enter: "VisitEnter_element printer = printer_enter_element"
  by (simp_all add: printer_def printer_exit_element_def [abs_def])

lemma same_view_prints: "view n = view m \<Longrightarrow> prints_alike n m"
proof (induction n arbitrary: m)
  case (XMLElement v closing attrs children)
  then obtain v' closing' attrs' children' where m: "m = XMLElement v' closing' attrs' children'"
    "GetStr v = GetStr v'" "map (map_prod GetStr GetStr) attrs = map (map_prod GetStr GetStr) attrs'"
    "map view children = map view children'"
    by (cases m) auto
  have "list_all2 prints_alike children children'"
    using XMLElement.IH m(4) by (auto simp: list_all2_conv_all_nth list_eq_iff_nth_eq)
  then have "fold (\<lambda>n pr. snd (Accept printer n pr)) children pr = fold (\<lambda>n pr. snd (Accept printer n pr)) children' pr" for pr
    by (rule fold_alike)
  then show ?case
    unfolding prints_alike_def m(1) pv.visits_element
    by (simp add: printer_exit [of v v'] printer_enter enter_alike [OF m(2,3)])
next
  case (XMLText v cdata)
  then show ?case by (cases m) (auto simp: prints_alike_def printer_def)
next
  case (XMLComment v)
  then show ?case by (cases m) (auto simp: prints_alike_def printer_def)
next
  case (XMLDeclaration v)
  then show ?case by (cases m) (auto simp: prints_alike_def printer_def)
next
  case (XMLUnknown v)
  then show ?case by (cases m) (auto simp: prints_alike_def printer_def)
qed

lemma SaveFile_view:
  assumes "map view ns = map view ms"
  shows "SaveFile filename can_open compact ns d = SaveFile filename can_open compact ms d"
proof -
  have "list_all2 prints_alike ns ms"
    using assms same_view_prints by (auto simp: list_all2_conv_all_nth list_eq_iff_nth_eq)
  then show ?thesis by (simp add: SaveFile_def Print_doc_def pv.visits_document fold_alike)
qed

lemma DeepCopy_view: "list_all clonable ns \<Longrightarrow> map view (fst (DeepCopy ns target)) = map view ns"
  using DeepClone_view by (auto simp: DeepCopy_def list_all_iff)

text \<open>What is written of a document depends on two flags of its state.\<close>

lemma SaveFile_flags:
  assumes "writeBOM d = writeBOM e" and "processEntities d = processEntities e"
  shows "fst (SaveFile filename can_open compact ns d) = fst (SaveFile filename can_open compact ns e)"
proof -
  have "VisitEnter_doc printer d pr = VisitEnter_doc printer e pr" for pr
    using assms by (simp add: printer_def printer_enter_doc_def)
  moreover have "VisitExit_doc printer d pr = VisitExit_doc printer e pr" for pr
    by (simp add: printer_def XMLVisitor_def)
  ultimately show ?thesis by (simp add: SaveFile_def Print_doc_def pv.visits_document)
qed

text \<open>
  C34: A copy of a document that was loaded, in another document, has the same tree, as its user reads it, and no error.
  The flags for the byte order mark and for the handling of entities are not copied but stay those of the target: saved
  from the target, in either mode, the copy is what the original would be with these flags of the target, so the same
  bytes exactly as far as these settings are the same.
\<close>

theorem DeepCopy_same_document:
  assumes "LoadFile filename file_data d = Some (ns, d')" and "DeepCopy ns target = (copy, target')"
  shows "map view copy = map view ns \<and>
    fst (SaveFile f can_open compact copy target') =
      fst (SaveFile f can_open compact ns
        (d'\<lparr>writeBOM := writeBOM target, processEntities := processEntities target\<rparr>)) \<and>
    writeBOM target' = writeBOM target \<and> processEntities target' = processEntities target \<and> \<not> Error target'"
proof -
  have "list_all (node_ok 98) ns"
    using LoadFile_ok [of d filename file_data] assms by (simp add: document_ok_def)
  then have "list_all clonable ns" using node_ok_clonable by (auto simp: list_all_iff)
  from DeepCopy_view [OF this, of target] have v: "map view copy = map view ns" by (simp add: assms(2))
  have t: "writeBOM target' = writeBOM target" "processEntities target' = processEntities target" "\<not> Error target'"
    using assms(2) by (auto simp: DeepCopy_def Clear_doc_def ClearError_def SetError_def Error_def)
  have "fst (SaveFile f can_open compact ns target') = fst (SaveFile f can_open compact ns
        (d'\<lparr>writeBOM := writeBOM target, processEntities := processEntities target\<rparr>))"
    by (rule SaveFile_flags) (simp_all add: t)
  with v t SaveFile_view [OF v, of f can_open compact target'] show ?thesis by simp
qed

theorem DeepCopy_same_document_witness:
  "\<exists>ns d copy d''. LoadFile ''f'' (Contents (''<a b='' @ [CHR 0x22] @ ''1'' @ [CHR 0x22] @ ''>2</a>'')) (XMLDocument True False) = Some (ns, d) \<and>
     DeepCopy ns (XMLDocument True False) = (copy, d'') \<and> map view copy = map view ns \<and>
     fst (SaveFile ''g'' True True copy d'') = fst (SaveFile ''g'' True True ns (d\<lparr>writeBOM := False, processEntities := True\<rparr>))"
proof -
  obtain ns d where l:
    "LoadFile ''f'' (Contents (''<a b='' @ [CHR 0x22] @ ''1'' @ [CHR 0x22] @ ''>2</a>'')) (XMLDocument True False) = Some (ns, d)"
    using LoadFile_returns by blast
  obtain copy d'' where c: "DeepCopy ns (XMLDocument True False) = (copy, d'')"
    by (cases "DeepCopy ns (XMLDocument True False)")
  have flags: "writeBOM (XMLDocument True False) = False" "processEntities (XMLDocument True False) = True"
    by (simp_all add: XMLDocument_def)
  from DeepCopy_same_document [OF l c, of "''g''" True True] l c show ?thesis
    unfolding flags by blast
qed

end
