(* ===== verification/Xml_Memory.thy ===== *)
theory Xml_Memory
  imports Stack_Interface "HOL-Library.Multiset"
begin

text \<open>
  The memory of the XML library (\<^verbatim>\<open>server/tinyxml2.h\<close>): the dynamic array \<open>DynArray\<close>, the pools \<open>MemPoolT\<close> of
  items of one size, and the array of the nodes of a document that are in no tree.  Memory that was
  never stored to is \<open>None\<close>.
\<close>

section \<open>DynArray\<close>

text \<open>\<open>_allocated\<close> is the length of the memory; \<open>da_pool\<close> is \<open>INITIAL_SIZE\<close>.\<close>

record 'a dyn_array =
  da_mem :: "'a option list"
  da_size :: nat

definition DynArray :: "nat \<Rightarrow> 'a dyn_array" where
  "DynArray initial = \<lparr>da_mem = replicate initial None, da_size = 0\<rparr>"

definition da_Clear :: "'a dyn_array \<Rightarrow> 'a dyn_array" where
  "da_Clear d = d\<lparr>da_size := 0\<rparr>"

text \<open>The doubled capacity of a request for more than half of \<open>INT_MAX\<close> overflows to a negative number.\<close>

definition EnsureCapacity :: "nat \<Rightarrow> 'a dyn_array \<Rightarrow> fault + 'a dyn_array" where
  "EnsureCapacity cap d =
     (if length (da_mem d) < cap then
        if INT_MAX < cap * 2 then Inl Bad_array_length
        else Inr (d\<lparr>da_mem := take (da_size d) (da_mem d) @ replicate (cap * 2 - da_size d) None\<rparr>)
      else Inr d)"

definition Push :: "'a \<Rightarrow> 'a dyn_array \<Rightarrow> fault + 'a dyn_array" where
  "Push t d =
     sbind (EnsureCapacity (da_size d + 1) d) (\<lambda>d.
       Inr (d\<lparr>da_mem := (da_mem d)[da_size d := Some t], da_size := da_size d + 1\<rparr>))"

text \<open>The result of \<open>PushArr\<close> is the index of the first new element.\<close>

definition PushArr :: "nat \<Rightarrow> 'a dyn_array \<Rightarrow> fault + nat \<times> 'a dyn_array" where
  "PushArr cnt d =
     sbind (EnsureCapacity (da_size d + cnt) d) (\<lambda>d. Inr (da_size d, d\<lparr>da_size := da_size d + cnt\<rparr>))"

definition da_at :: "nat \<Rightarrow> 'a dyn_array \<Rightarrow> fault + 'a" where
  "da_at i d =
     (if i < length (da_mem d) then (case da_mem d ! i of None \<Rightarrow> Inl Uninitialised | Some t \<Rightarrow> Inr t) else Inl Overread)"

definition Pop :: "'a dyn_array \<Rightarrow> fault + 'a \<times> 'a dyn_array" where
  "Pop d =
     (if da_size d = 0 then Inl Overread
      else sbind (da_at (da_size d - 1) d) (\<lambda>t. Inr (t, d\<lparr>da_size := da_size d - 1\<rparr>)))"

definition PopArr :: "nat \<Rightarrow> 'a dyn_array \<Rightarrow> 'a dyn_array" where
  "PopArr cnt d = d\<lparr>da_size := da_size d - cnt\<rparr>"

definition da_Empty :: "'a dyn_array \<Rightarrow> bool" where
  "da_Empty d \<longleftrightarrow> da_size d = 0"

definition PeekTop :: "'a dyn_array \<Rightarrow> fault + 'a" where
  "PeekTop d = (if da_size d = 0 then Inl Overread else da_at (da_size d - 1) d)"

definition da_Capacity :: "'a dyn_array \<Rightarrow> nat" where
  "da_Capacity d = length (da_mem d)"

definition SwapRemove :: "nat \<Rightarrow> 'a dyn_array \<Rightarrow> 'a dyn_array" where
  "SwapRemove i d = d\<lparr>da_mem := (da_mem d)[i := da_mem d ! (da_size d - 1)], da_size := da_size d - 1\<rparr>"

text \<open>The elements, and that the array is well formed.\<close>

definition da_list :: "'a dyn_array \<Rightarrow> 'a option list" where
  "da_list d = take (da_size d) (da_mem d)"

definition da_ok :: "'a dyn_array \<Rightarrow> bool" where
  "da_ok d \<longleftrightarrow> da_size d \<le> length (da_mem d)"

lemma length_da_list [simp]: "da_ok d \<Longrightarrow> length (da_list d) = da_size d"
  by (simp add: da_ok_def da_list_def)

lemma EnsureCapacity_ok:
  assumes "da_ok d" and "cap * 2 \<le> INT_MAX" and "da_size d \<le> cap"
  shows "\<exists>d'. EnsureCapacity cap d = Inr d' \<and> da_list d' = da_list d \<and> da_size d' = da_size d \<and>
    cap \<le> da_Capacity d' \<and> da_Capacity d' = (if da_Capacity d < cap then cap * 2 else da_Capacity d)"
proof (cases "length (da_mem d) < cap")
  case True
  with assms show ?thesis by (simp add: EnsureCapacity_def da_ok_def da_list_def da_Capacity_def)
qed (simp add: EnsureCapacity_def da_Capacity_def)

lemma Push_ok:
  assumes "da_ok d" and "(da_size d + 1) * 2 \<le> INT_MAX"
  shows "\<exists>d'. Push t d = Inr d' \<and> da_ok d' \<and> da_list d' = da_list d @ [Some t] \<and>
    da_Capacity d' = (if da_Capacity d < da_size d + 1 then (da_size d + 1) * 2 else da_Capacity d)"
proof -
  obtain d1 where d1: "EnsureCapacity (da_size d + 1) d = Inr d1" "da_list d1 = da_list d" "da_size d1 = da_size d"
    "da_size d + 1 \<le> da_Capacity d1"
    "da_Capacity d1 = (if da_Capacity d < da_size d + 1 then (da_size d + 1) * 2 else da_Capacity d)"
    using EnsureCapacity_ok [OF assms] by auto
  let ?d = "d1\<lparr>da_mem := (da_mem d1)[da_size d1 := Some t], da_size := da_size d1 + 1\<rparr>"
  have "da_list ?d = da_list d1 @ [Some t]"
    using d1(3,4) by (simp add: da_list_def da_Capacity_def take_Suc_conv_app_nth)
  with d1 show ?thesis by (intro exI [of _ ?d]) (simp add: Push_def da_ok_def da_Capacity_def)
qed

lemma Pop_ok:
  assumes "da_ok d" and "da_list d = xs @ [Some t]"
  shows "\<exists>d'. Pop d = Inr (t, d') \<and> da_ok d' \<and> da_list d' = xs"
proof -
  have n: "da_size d = Suc (length xs)" using assms length_da_list [OF assms(1)] by simp
  then have "da_mem d ! length xs = Some t" "take (length xs) (da_mem d) = xs"
    using assms(2) nth_take [of "length xs" "Suc (length xs)" "da_mem d"] take_take [of "length xs" "Suc (length xs)" "da_mem d"]
    by (auto simp: da_list_def min_def)
  with n assms(1) show ?thesis by (auto simp: Pop_def da_at_def da_ok_def da_list_def)
qed

lemma SwapRemove_ok:
  assumes "da_ok d" and "i < da_size d"
  shows "da_ok (SwapRemove i d) \<and> da_list (SwapRemove i d) = butlast ((da_list d)[i := last (da_list d)])"
proof -
  have ne: "da_list d \<noteq> []" using assms length_da_list [OF assms(1)] by (cases "da_list d") simp_all
  have "last (da_list d) = da_mem d ! (da_size d - 1)"
    using assms ne by (simp add: last_conv_nth) (simp add: da_list_def)
  with assms show ?thesis
    by (auto simp: SwapRemove_def da_ok_def da_list_def butlast_conv_take take_update_swap min_def)
qed

section \<open>MemPoolT\<close>

text \<open>
  An item is a block and an index in it.  \<open>item_next\<close> is the union of the pointer and the user's data, read as
  a pointer; \<open>fresh_block\<close> numbers the blocks \<open>new\<close> returns.
\<close>

type_synonym item = "nat \<times> nat"

record mem_pool =
  blockPtrs :: "nat dyn_array"
  item_next :: "item \<Rightarrow> item option"
  root :: "item option"
  currentAllocs :: int
  nAllocs :: int
  maxAllocs :: int
  nUntracked :: int
  fresh_block :: nat

definition MemPoolT :: mem_pool where
  "MemPoolT =
     \<lparr>blockPtrs = DynArray 10, item_next = Map.empty, root = None, currentAllocs = 0, nAllocs = 0, maxAllocs = 0,
      nUntracked = 0, fresh_block = 0\<rparr>"

definition ITEMS_PER_BLOCK :: "nat \<Rightarrow> nat" where
  "ITEMS_PER_BLOCK itemSize = (4 * 1024) div itemSize"

text \<open>The loop that links the items of a new block; \<open>n\<close> is the number of items in a block.\<close>

definition link_block :: "nat \<Rightarrow> nat \<Rightarrow> (item \<Rightarrow> item option) \<Rightarrow> item \<Rightarrow> item option" where
  "link_block n b h = (\<lambda>(c, i). if c = b \<and> i < n then (if i < n - 1 then Some (b, i + 1) else None) else h (c, i))"

definition new_block :: "nat \<Rightarrow> mem_pool \<Rightarrow> fault + mem_pool" where
  "new_block n p =
     sbind (Push (fresh_block p) (blockPtrs p)) (\<lambda>blocks.
       Inr (p\<lparr>blockPtrs := blocks, item_next := link_block n (fresh_block p) (item_next p),
              root := Some (fresh_block p, 0), fresh_block := fresh_block p + 1\<rparr>))"

definition Alloc :: "nat \<Rightarrow> mem_pool \<Rightarrow> fault + item \<times> mem_pool" where
  "Alloc n p =
     sbind (if root p = None then new_block n p else Inr p) (\<lambda>p.
       case root p of
         None \<Rightarrow> Inl Null_deref
       | Some result \<Rightarrow>
           Inr (result,
             p\<lparr>root := item_next p result, currentAllocs := currentAllocs p + 1,
               maxAllocs := max (maxAllocs p) (currentAllocs p + 1), nAllocs := nAllocs p + 1,
               nUntracked := nUntracked p + 1\<rparr>))"

definition Free :: "item option \<Rightarrow> mem_pool \<Rightarrow> mem_pool" where
  "Free mem p =
     (case mem of
        None \<Rightarrow> p
      | Some item \<Rightarrow>
          p\<lparr>currentAllocs := currentAllocs p - 1, item_next := (item_next p)(item := root p), root := Some item\<rparr>)"

definition SetTracked :: "mem_pool \<Rightarrow> mem_pool" where
  "SetTracked p = p\<lparr>nUntracked := nUntracked p - 1\<rparr>"

text \<open>\<open>Clear\<close>: the result is the blocks that were deleted, in order.\<close>

function delete_blocks :: "nat dyn_array \<Rightarrow> fault + nat list \<times> nat dyn_array" where
  "delete_blocks d =
     (if da_Empty d then Inr ([], d)
      else
        (case Pop d of
           Inl f \<Rightarrow> Inl f
         | Inr (b, d) \<Rightarrow> sbind (delete_blocks d) (\<lambda>(bs, d). Inr (b # bs, d))))"
  by pat_completeness auto
termination
proof (relation "measure da_size", simp, goal_cases)
  case (1 d r b d')
  then show ?case by (cases "da_at (da_size d - 1) d") (auto simp: Pop_def da_Empty_def)
qed

declare delete_blocks.simps [simp del]

definition mp_Clear :: "mem_pool \<Rightarrow> fault + nat list \<times> mem_pool" where
  "mp_Clear p =
     sbind (delete_blocks (blockPtrs p)) (\<lambda>(bs, blocks).
       Inr (bs, p\<lparr>blockPtrs := blocks, root := None, currentAllocs := 0, nAllocs := 0, maxAllocs := 0, nUntracked := 0\<rparr>))"

section \<open>The free list\<close>

fun chain :: "(item \<Rightarrow> item option) \<Rightarrow> item option \<Rightarrow> item list \<Rightarrow> bool" where
  "chain h r [] \<longleftrightarrow> r = None"
| "chain h r (x # xs) \<longleftrightarrow> r = Some x \<and> chain h (h x) xs"

text \<open>\<open>bs\<close> are the blocks, \<open>free\<close> the items on the list of the pool, \<open>used\<close> those handed out.\<close>

definition mem_shape :: "nat \<Rightarrow> mem_pool \<Rightarrow> nat list \<Rightarrow> item list \<Rightarrow> item list \<Rightarrow> bool" where
  "mem_shape n p bs free used \<longleftrightarrow>
     0 < n \<and> da_ok (blockPtrs p) \<and> da_list (blockPtrs p) = map Some bs \<and> distinct bs \<and>
     list_all (\<lambda>b. b < fresh_block p) bs \<and> chain (item_next p) (root p) free \<and> distinct (free @ used) \<and>
     set (free @ used) = set bs \<times> {..<n} \<and> currentAllocs p = int (length used) \<and> currentAllocs p \<le> maxAllocs p"

text \<open>A block was only taken when all items were in use.\<close>

definition watermark :: "nat \<Rightarrow> mem_pool \<Rightarrow> nat list \<Rightarrow> bool" where
  "watermark n p bs \<longleftrightarrow> int (n * length bs) < maxAllocs p + int n"

lemma chain_cong: "(\<And>x. x \<in> set xs \<Longrightarrow> h x = h' x) \<Longrightarrow> chain h r xs \<longleftrightarrow> chain h' r xs"
  by (induction xs arbitrary: r) auto

lemma chain_link_block: "i < n \<Longrightarrow> chain (link_block n b h) (Some (b, i)) (map (Pair b) [i..<n])"
proof (induction "n - i" arbitrary: i)
  case (Suc k)
  then have "map (Pair b) [i..<n] = (b, i) # map (Pair b) [Suc i..<n]" by (simp add: upt_conv_Cons)
  moreover have "chain (link_block n b h) (link_block n b h (b, i)) (map (Pair b) [Suc i..<n])"
    using Suc by (cases "Suc i < n") (auto simp: link_block_def)
  ultimately show ?case by simp
qed simp

lemma shape_count: "mem_shape n p bs free used \<Longrightarrow> length free + length used = length bs * n"
  using distinct_card [of "free @ used"] distinct_card [of bs] by (auto simp: mem_shape_def card_cartesian_product)

lemma new_block_shape:
  assumes "mem_shape n p bs [] used" and "(length bs + 1) * 2 \<le> INT_MAX"
  shows "\<exists>p'. new_block n p = Inr p' \<and>
    mem_shape n p' (bs @ [fresh_block p]) (map (Pair (fresh_block p)) [0..<n]) used \<and>
    maxAllocs p' = maxAllocs p \<and> currentAllocs p' = currentAllocs p"
proof -
  let ?b = "fresh_block p" and ?items = "map (Pair (fresh_block p)) [0..<n]"
  have "da_size (blockPtrs p) = length bs"
    using assms(1) length_da_list [of "blockPtrs p"] by (simp add: mem_shape_def)
  then obtain d where d: "Push ?b (blockPtrs p) = Inr d" "da_ok d" "da_list d = map Some (bs @ [?b])"
    using Push_ok [of "blockPtrs p" ?b] assms by (auto simp: mem_shape_def)
  have new: "?b \<notin> set bs" using assms(1) by (auto simp: mem_shape_def list_all_iff)
  have u: "set used = set bs \<times> {..<n}" "distinct used" using assms(1) by (simp_all add: mem_shape_def)
  have items: "set ?items = {?b} \<times> {..<n}" by auto
  have "distinct (?items @ used)"
    using new u by (simp add: distinct_map inj_on_def) auto
  moreover have "set (?items @ used) = set (bs @ [?b]) \<times> {..<n}"
    unfolding set_append items u(1) by auto
  ultimately show ?thesis
    using d assms(1) new chain_link_block [of 0 n ?b "item_next p"]
    by (intro exI [of _ "p\<lparr>blockPtrs := d, item_next := link_block n ?b (item_next p), root := Some (?b, 0),
          fresh_block := ?b + 1\<rparr>"])
      (simp add: new_block_def mem_shape_def list_all_iff less_Suc_eq)
qed

text \<open>An item that is handed out was not in use, and stays out of the list.\<close>

lemma take_item:
  assumes "mem_shape n p bs (a # free) used"
  shows "\<exists>p'. Alloc n p = Inr (a, p') \<and> mem_shape n p' bs free (a # used) \<and>
    maxAllocs p' = max (maxAllocs p) (currentAllocs p + 1)"
proof -
  have "root p = Some a" using assms by (simp add: mem_shape_def)
  with assms show ?thesis by (auto simp: Alloc_def mem_shape_def)
qed

lemma Alloc_shape:
  assumes "mem_shape n p bs free used" and "watermark n p bs" and "(length bs + 1) * 2 \<le> INT_MAX"
  shows "\<exists>a p' bs' free'. Alloc n p = Inr (a, p') \<and> mem_shape n p' bs' free' (a # used) \<and> watermark n p' bs' \<and>
    length bs' \<le> length bs + 1 \<and> maxAllocs p' = max (maxAllocs p) (currentAllocs p + 1) \<and>
    (free \<noteq> [] \<longrightarrow> a = hd free \<and> bs' = bs \<and> free' = tl free)"
proof (cases free)
  case (Cons a xs)
  with take_item [of n p bs a xs used] assms show ?thesis by (fastforce simp: watermark_def)
next
  case Nil
  obtain p1 where p1: "new_block n p = Inr p1" "maxAllocs p1 = maxAllocs p" "currentAllocs p1 = currentAllocs p"
    "mem_shape n p1 (bs @ [fresh_block p]) (map (Pair (fresh_block p)) [0..<n]) used"
    using new_block_shape [of n p bs used] assms Nil by auto
  have n: "0 < n" using assms(1) by (simp add: mem_shape_def)
  then have "map (Pair (fresh_block p)) [0..<n] = (fresh_block p, 0) # map (Pair (fresh_block p)) [1..<n]"
    by (simp add: upt_conv_Cons)
  then obtain p2 where p2: "Alloc n p1 = Inr ((fresh_block p, 0), p2)"
    "mem_shape n p2 (bs @ [fresh_block p]) (map (Pair (fresh_block p)) [1..<n]) ((fresh_block p, 0) # used)"
    "maxAllocs p2 = max (maxAllocs p) (currentAllocs p + 1)"
    using take_item [of n p1 "bs @ [fresh_block p]"] p1 by fastforce
  have roots: "root p = None" "root p1 \<noteq> None" using assms(1) Nil p1(1) by (auto simp: mem_shape_def new_block_def sbind_eq_Inr)
  have "currentAllocs p = int (n * length bs)"
    using shape_count [OF assms(1)] assms(1) Nil by (simp add: mem_shape_def mult.commute)
  then have "watermark n p2 (bs @ [fresh_block p])" using p2(3) n by (simp add: watermark_def algebra_simps)
  moreover have "Alloc n p = Inr ((fresh_block p, 0), p2)" using p2(1) roots p1(1) by (auto simp: Alloc_def)
  ultimately show ?thesis using p2 Nil by fastforce
qed

lemma Free_shape:
  assumes "mem_shape n p bs free used" and "a \<in> set used"
  shows "mem_shape n (Free (Some a) p) bs (a # free) (remove1 a used) \<and> maxAllocs (Free (Some a) p) = maxAllocs p"
proof -
  have a: "a \<notin> set free" using assms by (auto simp: mem_shape_def)
  then have "chain ((item_next p)(a := root p)) (root p) free"
    using assms(1) chain_cong [of free "(item_next p)(a := root p)" "item_next p"] by (auto simp: mem_shape_def simp del: fun_upd_apply) (metis fun_upd_other)
  moreover have "set (remove1 a used) = set used - {a}" using assms(1) by (simp add: mem_shape_def)
  moreover have "int (length (remove1 a used)) = int (length used) - 1"
    using assms(2) length_pos_if_in_set [OF assms(2)] by (simp add: length_remove1 of_nat_diff del: length_greater_0_conv)
  moreover have "insert a (set free \<union> (set used - {a})) = set free \<union> set used" using assms(2) by auto
  ultimately show ?thesis using assms a by (auto simp: Free_def mem_shape_def)
qed

lemma free_hd_root: "mem_shape n p bs free used \<Longrightarrow> free = [] \<longleftrightarrow> root p = None"
  by (cases free) (auto simp: mem_shape_def)

text \<open>\<open>Free\<close> and \<open>Alloc\<close> are the stack of the free items.\<close>

definition free_items :: "nat \<Rightarrow> mem_pool \<Rightarrow> item list \<Rightarrow> bool" where
  "free_items n p free \<longleftrightarrow> (\<exists>bs used. mem_shape n p bs free used)"

definition item_of :: "nat \<Rightarrow> item \<Rightarrow> mem_pool \<Rightarrow> bool" where
  "item_of n a p \<longleftrightarrow> (Some (fst a) \<in> set (da_list (blockPtrs p)) \<and> snd a < n)"

lemma item_of_shape: "mem_shape n p bs free used \<Longrightarrow> item_of n a p \<longleftrightarrow> a \<in> set free \<or> a \<in> set used"
  by (cases a) (auto simp: mem_shape_def item_of_def)

interpretation mem_stack: lifo_stack "\<lambda>a p. Inr (Free (Some a) p)" "\<lambda>u :: unit. Alloc n" "free_items n" "item_of n"
  for n
proof
  fix p xs a
  assume "free_items n p xs" "item_of n a p" "a \<notin> set xs"
  moreover from this obtain bs used where p: "mem_shape n p bs xs used" by (auto simp: free_items_def)
  ultimately have "a \<in> set used" using item_of_shape by blast
  from Free_shape [OF p this] show "\<exists>p'. Inr (Free (Some a) p) = (Inr p' :: fault + mem_pool) \<and> free_items n p' (a # xs) \<and>
      (\<forall>b. item_of n b p' = item_of n b p)"
    by (auto simp: free_items_def item_of_def Free_def)
next
  fix p xs a and c :: unit
  assume "free_items n p (a # xs)"
  then obtain bs used where "mem_shape n p bs (a # xs) used" by (auto simp: free_items_def)
  moreover from take_item [OF this] obtain p' where p': "Alloc n p = Inr (a, p')" "mem_shape n p' bs xs (a # used)" by blast
  ultimately have "item_of n b p' = item_of n b p" for b using item_of_shape [of n _ bs] by auto
  with p' show "\<exists>p'. Alloc n p = Inr (a, p') \<and> free_items n p' xs \<and> (\<forall>b. item_of n b p' = item_of n b p)"
    by (auto simp: free_items_def)
qed

section \<open>A pool and its users\<close>

text \<open>
  What the document does with a pool: it takes an item, gives one back that is in use, stores into one.
  \<open>live\<close> are the items in use.
\<close>

datatype pool_op = Take | Give_back nat | Store nat "item option" | Track

fun use_pool :: "nat \<Rightarrow> pool_op \<Rightarrow> mem_pool \<times> item list \<Rightarrow> fault + mem_pool \<times> item list" where
  "use_pool n Take (p, live) = sbind (Alloc n p) (\<lambda>(a, p). Inr (p, a # live))"
| "use_pool n (Give_back i) (p, live) =
     Inr (if i < length live then (Free (Some (live ! i)) p, remove1 (live ! i) live) else (Free None p, live))"
| "use_pool n (Store i v) (p, live) =
     Inr (if i < length live then (p\<lparr>item_next := (item_next p)(live ! i := v)\<rparr>, live) else (p, live))"
| "use_pool n Track (p, live) = Inr (SetTracked p, live)"

fun use_all :: "nat \<Rightarrow> pool_op list \<Rightarrow> mem_pool \<times> item list \<Rightarrow> fault + mem_pool \<times> item list" where
  "use_all n [] s = Inr s"
| "use_all n (c # cs) s = sbind (use_pool n c s) (use_all n cs)"

lemma use_pool_ok:
  assumes "mem_shape n p bs free live" and "watermark n p bs" and "(length bs + 1) * 2 \<le> INT_MAX"
  shows "\<exists>p' bs' free' live'. use_pool n c (p, live) = Inr (p', live') \<and> mem_shape n p' bs' free' live' \<and>
    watermark n p' bs' \<and> length bs' \<le> length bs + 1"
proof (cases c)
  case Take
  with Alloc_shape [OF assms] show ?thesis by fastforce
next
  case (Give_back i)
  have free: "mem_shape n (Free (Some (live ! i)) p) bs (live ! i # free) (remove1 (live ! i) live)"
    "watermark n (Free (Some (live ! i)) p) bs" if "i < length live"
    using Free_shape [OF assms(1), of "live ! i"] assms(2) that by (auto simp: watermark_def)
  show ?thesis
  proof (cases "i < length live")
    case True
    with free Give_back show ?thesis
      by (intro exI [of _ "Free (Some (live ! i)) p"] exI [of _ bs] exI [of _ "live ! i # free"]
          exI [of _ "remove1 (live ! i) live"]) simp
  qed (use Give_back assms in \<open>auto simp: Free_def\<close>)
next
  case (Store i v)
  have "mem_shape n (p\<lparr>item_next := (item_next p)(live ! i := v)\<rparr>) bs free live" if "i < length live"
  proof -
    have "live ! i \<notin> set free" using assms(1) that nth_mem [OF that] by (auto simp: mem_shape_def)
    then have "chain ((item_next p)(live ! i := v)) (root p) free"
      using assms(1) chain_cong [of free "(item_next p)(live ! i := v)" "item_next p"]
      by (metis fun_upd_other mem_shape_def)
    with assms(1) show ?thesis by (simp add: mem_shape_def)
  qed
  with Store assms(2) show ?thesis
  proof (cases "i < length live")
    case True
    with Store assms(2) \<open>i < length live \<Longrightarrow> mem_shape n (p\<lparr>item_next := (item_next p)(live ! i := v)\<rparr>) bs free live\<close>
    show ?thesis
      by (intro exI [of _ "p\<lparr>item_next := (item_next p)(live ! i := v)\<rparr>"] exI [of _ bs] exI [of _ free] exI [of _ live])
        (simp add: watermark_def)
  qed (use assms in auto)
next
  case Track
  have "mem_shape n (SetTracked p) bs free live" "watermark n (SetTracked p) bs"
    using assms by (simp_all add: SetTracked_def mem_shape_def watermark_def)
  with Track show ?thesis by auto
qed

lemma use_all_ok:
  assumes "mem_shape n p bs free live" and "watermark n p bs" and "(length bs + length cs) * 2 \<le> INT_MAX"
  shows "\<exists>p' bs' free' live'. use_all n cs (p, live) = Inr (p', live') \<and> mem_shape n p' bs' free' live' \<and> watermark n p' bs'"
  using assms
proof (induction cs arbitrary: p bs free live)
  case (Cons c cs)
  obtain p1 bs1 free1 live1 where 1: "use_pool n c (p, live) = Inr (p1, live1)" "mem_shape n p1 bs1 free1 live1"
    "watermark n p1 bs1" "length bs1 \<le> length bs + 1"
    using use_pool_ok [OF Cons.prems(1,2), of c] Cons.prems(3) by auto
  then have "(length bs1 + length cs) * 2 \<le> INT_MAX" using Cons.prems(3) by simp
  from Cons.IH [OF 1(2,3) this] 1(1) show ?case by simp
qed auto

text \<open>
  C12: Whatever the sequence of operations on a pool, and whatever is stored into the items in use: nothing is
  read or written outside the blocks, no item is handed out while it is in use, the pool counts the items
  in use, and it has no block more than the largest number ever in use at once asks for.
\<close>

theorem pool_never_shares:
  assumes "0 < n" and "length cs * 2 \<le> INT_MAX"
  shows "\<exists>p live. use_all n cs (MemPoolT, []) = Inr (p, live) \<and> distinct live \<and>
    currentAllocs p = int (length live) \<and> list_all (\<lambda>a. item_of n a p) live \<and>
    int (n * da_size (blockPtrs p)) < maxAllocs p + int n"
proof -
  have "mem_shape n MemPoolT [] [] []" "watermark n MemPoolT []"
    using assms(1) by (simp_all add: mem_shape_def MemPoolT_def DynArray_def da_ok_def da_list_def watermark_def)
  from use_all_ok [OF this, of cs] assms(2) obtain p bs free live where r: "use_all n cs (MemPoolT, []) = Inr (p, live)"
    "mem_shape n p bs free live" "watermark n p bs"
    by auto
  moreover have "da_size (blockPtrs p) = length bs"
    using r(2) length_da_list [of "blockPtrs p"] by (simp add: mem_shape_def)
  ultimately show ?thesis
    using item_of_shape [OF r(2)] by (auto simp: mem_shape_def watermark_def list_all_iff)
qed

theorem pool_never_shares_witness:
  "\<exists>p live. use_all 2 [Take, Take, Give_back 0, Take, Take] (MemPoolT, []) = Inr (p, live) \<and> distinct live"
  using pool_never_shares [of 2 "[Take, Take, Give_back 0, Take, Take]"] by (auto simp: INT_MAX_def)

text \<open>An item given back twice is handed out twice.\<close>

lemma double_free_shared:
  "\<exists>p' p''. Alloc n (Free (Some a) (Free (Some a) p)) = Inr (a, p') \<and> Alloc n p' = Inr (a, p'')"
  by (simp add: Free_def Alloc_def)

section \<open>Nodes in no tree\<close>

text \<open>
  \<open>CreateUnlinkedNode\<close> and \<open>MarkInUse\<close> on the array \<open>_unlinked\<close>; the loop of \<open>Clear\<close> deletes the first of its
  nodes, which takes it from the array, until there is none.
\<close>

definition CreateUnlinkedNode ::
  "nat \<Rightarrow> mem_pool \<Rightarrow> item dyn_array \<Rightarrow> fault + item \<times> mem_pool \<times> item dyn_array"
where
  "CreateUnlinkedNode n p unlinked =
     sbind (Alloc n p) (\<lambda>(node, p). sbind (Push node unlinked) (\<lambda>unlinked. Inr (node, p, unlinked)))"

function mark_loop :: "'a \<Rightarrow> nat \<Rightarrow> 'a dyn_array \<Rightarrow> 'a dyn_array" where
  "mark_loop node i d =
     (if i < da_size d then (if da_mem d ! i = Some node then SwapRemove i d else mark_loop node (i + 1) d) else d)"
  by pat_completeness auto
termination by (relation "measure (\<lambda>(node, i, d). da_size d - i)") auto

declare mark_loop.simps [simp del]

definition MarkInUse :: "'a \<Rightarrow> 'a dyn_array \<Rightarrow> 'a dyn_array" where
  "MarkInUse node d = mark_loop node 0 d"

lemma mset_SwapRemove:
  assumes "da_ok d" and "i < da_size d" and "da_mem d ! i = Some node"
  shows "mset (da_list (SwapRemove i d)) = mset (da_list d) - {#Some node#}"
proof -
  let ?l = "da_list d"
  have len: "length ?l = da_size d" using assms(1) by simp
  have i: "i < length ?l" "?l ! i = Some node" using assms len by (simp_all add: da_list_def)
  then have ne: "?l \<noteq> []" by auto
  have "mset (butlast (?l[i := last ?l])) = mset (?l[i := last ?l]) - {#last (?l[i := last ?l])#}"
    using ne by (metis append_butlast_last_id diff_union_cancelR list_update_nonempty mset_append mset_single_iff_right mset.simps(1,2) add_mset_add_single)
  moreover have "last (?l[i := last ?l]) = last ?l" using ne i by (simp add: last_list_update)
  moreover have "mset (?l[i := last ?l]) = add_mset (last ?l) (mset ?l - {#?l ! i#})" using i by (simp add: mset_update)
  ultimately show ?thesis using SwapRemove_ok [OF assms(1,2)] i by simp
qed

lemma mark_loop_ok:
  assumes "da_ok d" and "i < da_size d" and "Some node \<in> set (drop i (da_list d))"
  shows "da_ok (mark_loop node i d) \<and> mset (da_list (mark_loop node i d)) = mset (da_list d) - {#Some node#}"
  using assms
proof (induction "da_size d - i" arbitrary: i)
  case (Suc k)
  have len: "length (da_list d) = da_size d" using Suc.prems(1) by simp
  have at: "da_list d ! i = da_mem d ! i" using Suc.prems(2) by (simp add: da_list_def)
  show ?case
  proof (cases "da_mem d ! i = Some node")
    case True
    with Suc.prems mset_SwapRemove [of d i node] SwapRemove_ok [of d i] show ?thesis
      by (simp add: mark_loop.simps [of node i])
  next
    case False
    have "drop i (da_list d) = da_list d ! i # drop (Suc i) (da_list d)"
      using Suc.prems(2) len by (simp add: Cons_nth_drop_Suc)
    then have rest: "Some node \<in> set (drop (Suc i) (da_list d))" using Suc.prems(3) False at by simp
    then have "Suc i < da_size d" using len by (metis drop_all empty_iff list.set(1) not_less)
    with Suc.hyps(1) [of "Suc i"] Suc.hyps(2) Suc.prems(1) rest False show ?thesis
      by (simp add: mark_loop.simps [of node i] Suc.prems(2))
  qed
qed simp

text \<open>\<open>Clear\<close>: the loop over \<open>_unlinked\<close>; \<open>DeleteNode\<close> of a node in no tree gives its item back to the pool.\<close>

function clear_unlinked :: "item dyn_array \<Rightarrow> mem_pool \<Rightarrow> fault + item dyn_array \<times> mem_pool" where
  "clear_unlinked d p =
     (if da_size d = 0 then Inr (d, p)
      else
        (case da_at 0 d of
           Inl f \<Rightarrow> Inl f
         | Inr node \<Rightarrow> clear_unlinked (MarkInUse node d) (Free (Some node) (SetTracked p))))"
  by pat_completeness auto
termination
proof (relation "measure (\<lambda>(d, p). da_size d)", simp, goal_cases)
  case (1 d p node)
  then have "da_mem d ! 0 = Some node" by (auto simp: da_at_def split: if_splits option.splits)
  with 1 show ?case by (simp add: MarkInUse_def mark_loop.simps [of node 0] SwapRemove_def)
qed

declare clear_unlinked.simps [simp del]

text \<open>Each node that is marked is taken out of the array; the order of the others is not kept.\<close>

lemma MarkInUse_ok:
  assumes "da_ok d" and "Some node \<in> set (da_list d)"
  shows "da_ok (MarkInUse node d) \<and> mset (da_list (MarkInUse node d)) = mset (da_list d) - {#Some node#}"
proof -
  have "0 < da_size d" using assms by (cases "da_size d") (auto simp: da_list_def)
  with mark_loop_ok [of d 0 node] assms show ?thesis by (simp add: MarkInUse_def)
qed

lemma clear_unlinked_ok:
  assumes "da_ok d" and "mset (da_list d) = mset (map Some nodes)" and "distinct nodes" and "set nodes \<subseteq> set used"
    and "mem_shape n p bs free used"
  shows "\<exists>d' p' free' used'. clear_unlinked d p = Inr (d', p') \<and> da_size d' = 0 \<and> mem_shape n p' bs free' used' \<and>
    set used' = set used - set nodes"
  using assms
proof (induction nodes arbitrary: d p free used rule: length_induct)
  case (1 nodes)
  have size: "da_size d = length nodes"
    using "1.prems"(1,2) length_da_list [of d] by (metis length_map size_mset)
  show ?case
  proof (cases nodes)
    case Nil
    with size "1.prems" show ?thesis by (auto simp: clear_unlinked.simps [of d])
  next
    case (Cons x xs)
    have pos: "0 < da_size d" using size Cons by simp
    then have hd: "da_list d ! 0 \<in> set (da_list d)" using "1.prems"(1) length_da_list [of d] by (metis nth_mem)
    then obtain node where node: "da_list d ! 0 = Some node" "node \<in> set nodes"
      using "1.prems"(2) by (metis image_iff list.set_map set_mset_mset)
    then have at: "da_at 0 d = Inr node"
      using pos "1.prems"(1) by (cases "da_mem d") (auto simp: da_at_def da_ok_def da_list_def)
    have "image_mset Some (mset nodes - {#node#}) = image_mset Some (mset nodes) - {#Some node#}"
      using node(2) by (simp add: image_mset_Diff)
    then have m: "da_ok (MarkInUse node d)" "mset (da_list (MarkInUse node d)) = mset (map Some (remove1 node nodes))"
      using MarkInUse_ok [of d node] "1.prems"(1,2) hd node by simp_all
    have p: "mem_shape n (Free (Some node) (SetTracked p)) bs (node # free) (remove1 node used)"
      using "1.prems"(4,5) node(2) by (intro conjunct1 [OF Free_shape]) (auto simp: mem_shape_def SetTracked_def)
    have d: "distinct used" using "1.prems"(5) by (simp add: mem_shape_def)
    have sub: "set (remove1 node nodes) \<subseteq> set (remove1 node used)"
      using "1.prems"(3,4) d by auto
    have len: "length (remove1 node nodes) < length nodes" using node(2) length_pos_if_in_set [OF node(2)] by (simp add: length_remove1 del: length_greater_0_conv)
    from "1.IH" [rule_format, OF len m(1,2) _ sub p] "1.prems"(3) obtain d' p' free' used' where
      "clear_unlinked (MarkInUse node d) (Free (Some node) (SetTracked p)) = Inr (d', p')" "da_size d' = 0"
      "mem_shape n p' bs free' used'" "set used' = set (remove1 node used) - set (remove1 node nodes)"
      by auto
    moreover have "set (remove1 node used) - set (remove1 node nodes) = set used - set nodes"
      using "1.prems"(3) d node(2) by auto
    moreover have "clear_unlinked d p = clear_unlinked (MarkInUse node d) (Free (Some node) (SetTracked p))"
      using pos at by (simp add: clear_unlinked.simps [of d])
    ultimately show ?thesis by metis
  qed
qed

text \<open>
  The loop of \<open>Clear\<close> over the nodes that are in no tree ends, for every order the array is in: the array is
  empty then, and exactly their items are back in the pool.
\<close>

theorem clear_unlinked_ends:
  assumes "da_ok d" and "da_list d = map Some nodes" and "distinct nodes" and "set nodes \<subseteq> set used"
    and "mem_shape n p bs free used"
  shows "\<exists>d' p' free' used'. clear_unlinked d p = Inr (d', p') \<and> da_size d' = 0 \<and> mem_shape n p' bs free' used' \<and>
    set used' = set used - set nodes"
  using clear_unlinked_ok [OF assms(1) _ assms(3-5)] assms(2) by simp

theorem clear_unlinked_ends_witness:
  "\<exists>a p d' p'. Alloc 2 MemPoolT = Inr (a, p) \<and> clear_unlinked \<lparr>da_mem = [Some a], da_size = 1\<rparr> p = Inr (d', p') \<and> da_size d' = 0"
proof -
  have "mem_shape 2 MemPoolT [] [] []" "watermark 2 MemPoolT []"
    by (simp_all add: mem_shape_def MemPoolT_def DynArray_def da_ok_def da_list_def watermark_def)
  from Alloc_shape [OF this] obtain a p bs free where a: "Alloc 2 MemPoolT = Inr (a, p)" "mem_shape 2 p bs free [a]"
    by (auto simp: INT_MAX_def)
  with clear_unlinked_ends [of "\<lparr>da_mem = [Some a], da_size = 1\<rparr>" "[a]" "[a]" 2 p bs free] show ?thesis
    by (auto simp: da_ok_def da_list_def)
qed

end
