(* ===== verification/Xml_Navigate.thy ===== *)
theory Xml_Navigate
  imports Xml_Attributes
begin

text \<open>
  Walking through a tree: the sibling and child methods of \<open>XMLNode\<close> and the null-safe \<open>XMLHandle\<close>
  (\<^verbatim>\<open>server/tinyxml2.h\<close>, \<^verbatim>\<open>server/tinyxml2.cpp\<close>).  A pointer to a node is the node with its siblings on both
  sides, the nearest first; a document has children and no siblings.
\<close>

section \<open>Places in a tree\<close>

record cursor =
  siblings_before :: "xml_node list"
  here :: xml_node
  siblings_after :: "xml_node list"

datatype place = Document "xml_node list" | At cursor

definition child_list :: "place \<Rightarrow> xml_node list" where
  "child_list p = (case p of Document ns \<Rightarrow> ns | At c \<Rightarrow> (case here c of XMLElement _ _ _ children \<Rightarrow> children | _ \<Rightarrow> []))"

definition NoChildren :: "place \<Rightarrow> bool" where
  "NoChildren p \<longleftrightarrow> child_list p = []"

definition FirstChild :: "place \<Rightarrow> cursor option" where
  "FirstChild p =
     (case child_list p of [] \<Rightarrow> None | n # ns \<Rightarrow> Some \<lparr>siblings_before = [], here = n, siblings_after = ns\<rparr>)"

definition LastChild :: "place \<Rightarrow> cursor option" where
  "LastChild p =
     (case rev (child_list p) of [] \<Rightarrow> None | n # ns \<Rightarrow> Some \<lparr>siblings_before = ns, here = n, siblings_after = []\<rparr>)"

definition NextSibling :: "cursor \<Rightarrow> cursor option" where
  "NextSibling c =
     (case siblings_after c of
        [] \<Rightarrow> None
      | n # ns \<Rightarrow> Some \<lparr>siblings_before = here c # siblings_before c, here = n, siblings_after = ns\<rparr>)"

definition PreviousSibling :: "cursor \<Rightarrow> cursor option" where
  "PreviousSibling c =
     (case siblings_before c of
        [] \<Rightarrow> None
      | n # ns \<Rightarrow> Some \<lparr>siblings_before = ns, here = n, siblings_after = here c # siblings_after c\<rparr>)"

text \<open>The loops over \<open>_next\<close> and over \<open>_prev\<close>.\<close>

fun next_loop :: "string option \<Rightarrow> xml_node list \<Rightarrow> xml_node list \<Rightarrow> cursor option" where
  "next_loop name bs [] = None"
| "next_loop name bs (n # ns) =
     (if ToElementWithName name n then Some \<lparr>siblings_before = bs, here = n, siblings_after = ns\<rparr>
      else next_loop name (n # bs) ns)"

fun previous_loop :: "string option \<Rightarrow> xml_node list \<Rightarrow> xml_node list \<Rightarrow> cursor option" where
  "previous_loop name [] ns = None"
| "previous_loop name (n # bs) ns =
     (if ToElementWithName name n then Some \<lparr>siblings_before = bs, here = n, siblings_after = ns\<rparr>
      else previous_loop name bs (n # ns))"

definition NextSiblingElement :: "string option \<Rightarrow> cursor \<Rightarrow> cursor option" where
  "NextSiblingElement name c = next_loop name (here c # siblings_before c) (siblings_after c)"

definition PreviousSiblingElement :: "string option \<Rightarrow> cursor \<Rightarrow> cursor option" where
  "PreviousSiblingElement name c = previous_loop name (siblings_before c) (here c # siblings_after c)"

definition FirstChildElement_at :: "string option \<Rightarrow> place \<Rightarrow> cursor option" where
  "FirstChildElement_at name p = next_loop name [] (child_list p)"

definition LastChildElement_at :: "string option \<Rightarrow> place \<Rightarrow> cursor option" where
  "LastChildElement_at name p = previous_loop name (rev (child_list p)) []"

definition RootElement :: "xml_node list \<Rightarrow> cursor option" where
  "RootElement ns = FirstChildElement_at None (Document ns)"

section \<open>XMLHandle\<close>

text \<open>A handle is a pointer that may be null.\<close>

type_synonym handle = "place option"

definition XMLHandle :: "place option \<Rightarrow> handle" where
  "XMLHandle p = p"

definition h_FirstChild :: "handle \<Rightarrow> handle" where
  "h_FirstChild h = XMLHandle (case h of None \<Rightarrow> None | Some p \<Rightarrow> map_option At (FirstChild p))"

definition h_FirstChildElement :: "string option \<Rightarrow> handle \<Rightarrow> handle" where
  "h_FirstChildElement name h =
     XMLHandle (case h of None \<Rightarrow> None | Some p \<Rightarrow> map_option At (FirstChildElement_at name p))"

definition h_LastChild :: "handle \<Rightarrow> handle" where
  "h_LastChild h = XMLHandle (case h of None \<Rightarrow> None | Some p \<Rightarrow> map_option At (LastChild p))"

definition h_LastChildElement :: "string option \<Rightarrow> handle \<Rightarrow> handle" where
  "h_LastChildElement name h =
     XMLHandle (case h of None \<Rightarrow> None | Some p \<Rightarrow> map_option At (LastChildElement_at name p))"

definition sibling_of :: "(cursor \<Rightarrow> cursor option) \<Rightarrow> handle \<Rightarrow> handle" where
  "sibling_of f h = (case h of Some (At c) \<Rightarrow> map_option At (f c) | _ \<Rightarrow> None)"

definition h_PreviousSibling :: "handle \<Rightarrow> handle" where
  "h_PreviousSibling h = XMLHandle (sibling_of PreviousSibling h)"

definition h_PreviousSiblingElement :: "string option \<Rightarrow> handle \<Rightarrow> handle" where
  "h_PreviousSiblingElement name h = XMLHandle (sibling_of (PreviousSiblingElement name) h)"

definition h_NextSibling :: "handle \<Rightarrow> handle" where
  "h_NextSibling h = XMLHandle (sibling_of NextSibling h)"

definition h_NextSiblingElement :: "string option \<Rightarrow> handle \<Rightarrow> handle" where
  "h_NextSiblingElement name h = XMLHandle (sibling_of (NextSiblingElement name) h)"

definition h_node_if :: "(xml_node \<Rightarrow> bool) \<Rightarrow> handle \<Rightarrow> xml_node option" where
  "h_node_if P h = (case h of Some (At c) \<Rightarrow> if P (here c) then Some (here c) else None | _ \<Rightarrow> None)"

definition h_ToElement :: "handle \<Rightarrow> xml_node option" where
  "h_ToElement = h_node_if (ToElementWithName None)"

definition h_ToText :: "handle \<Rightarrow> xml_node option" where
  "h_ToText = h_node_if ToText"

definition h_ToUnknown :: "handle \<Rightarrow> xml_node option" where
  "h_ToUnknown = h_node_if (\<lambda>n. case n of XMLUnknown _ \<Rightarrow> True | _ \<Rightarrow> False)"

definition h_ToDeclaration :: "handle \<Rightarrow> xml_node option" where
  "h_ToDeclaration = h_node_if is_declaration"

section \<open>What a walk visits\<close>

text \<open>The siblings around a place, in the order of the document.\<close>

definition row :: "cursor \<Rightarrow> xml_node list" where
  "row c = rev (siblings_before c) @ here c # siblings_after c"

lemma next_loop_row: "next_loop name bs ns = Some c \<Longrightarrow>
  row c = rev bs @ ns \<and> ToElementWithName name (here c) \<and> length (siblings_after c) < length ns"
  by (induction name bs ns rule: next_loop.induct) (auto simp: row_def split: if_splits)

lemma previous_loop_row: "previous_loop name bs ns = Some c \<Longrightarrow>
  row c = rev bs @ ns \<and> ToElementWithName name (here c) \<and> length (siblings_before c) < length bs"
  by (induction name bs ns rule: previous_loop.induct) (auto simp: row_def split: if_splits)

lemma FirstChildElement_at_find: "map_option here (FirstChildElement_at name p) = FirstChildElement name (child_list p)"
proof -
  have "map_option here (next_loop name bs ns) = find (ToElementWithName name) ns" for bs ns
    by (induction name bs ns rule: next_loop.induct) auto
  then show ?thesis by (simp add: FirstChildElement_at_def FirstChildElement_def)
qed

lemma LastChildElement_at_find: "map_option here (LastChildElement_at name p) = LastChildElement name (child_list p)"
proof -
  have "map_option here (previous_loop name bs ns) = find (ToElementWithName name) bs" for bs ns
    by (induction name bs ns rule: previous_loop.induct) auto
  then show ?thesis by (simp add: LastChildElement_at_def LastChildElement_def)
qed

text \<open>\<open>for (e = p->FirstChildElement(name); e; e = e->NextSiblingElement(name))\<close>, and the same from the end.\<close>

function walk :: "string option \<Rightarrow> cursor option \<Rightarrow> xml_node list" where
  "walk name None = []"
| "walk name (Some c) = here c # walk name (NextSiblingElement name c)"
  by pat_completeness auto
termination
proof (relation "measure (\<lambda>(name, c). case c of None \<Rightarrow> 0 | Some c \<Rightarrow> Suc (length (siblings_after c)))", simp, goal_cases)
  case (1 name c)
  then show ?case
    using next_loop_row [of name "here c # siblings_before c" "siblings_after c"]
    by (auto simp: NextSiblingElement_def split: option.splits)
qed

function walk_back :: "string option \<Rightarrow> cursor option \<Rightarrow> xml_node list" where
  "walk_back name None = []"
| "walk_back name (Some c) = here c # walk_back name (PreviousSiblingElement name c)"
  by pat_completeness auto
termination
proof (relation "measure (\<lambda>(name, c). case c of None \<Rightarrow> 0 | Some c \<Rightarrow> Suc (length (siblings_before c)))", simp, goal_cases)
  case (1 name c)
  then show ?case
    using previous_loop_row [of name "siblings_before c" "here c # siblings_after c"]
    by (auto simp: PreviousSiblingElement_def split: option.splits)
qed

lemma walk_next_loop: "walk name (next_loop name bs ns) = filter (ToElementWithName name) ns"
  by (induction ns arbitrary: bs) (auto simp: NextSiblingElement_def)

lemma walk_previous_loop: "walk_back name (previous_loop name bs ns) = filter (ToElementWithName name) bs"
  by (induction bs arbitrary: ns) (auto simp: PreviousSiblingElement_def)

text \<open>
  The loop from \<open>FirstChildElement\<close> over \<open>NextSiblingElement\<close> ends and visits exactly the children that are
  elements with the name, in the order of the document; the loop from the last over the previous ones
  visits the same in reverse; and going to the next sibling and back leads to where it started.
\<close>

theorem walk_visits:
  "walk name (FirstChildElement_at name p) = filter (ToElementWithName name) (child_list p) \<and>
   walk_back name (LastChildElement_at name p) = rev (walk name (FirstChildElement_at name p)) \<and>
   Option.bind (NextSibling c) PreviousSibling = (if siblings_after c = [] then None else Some c)"
  unfolding FirstChildElement_at_def LastChildElement_at_def walk_next_loop walk_previous_loop
  by (simp add: rev_filter NextSibling_def PreviousSibling_def split: list.splits)

text \<open>A handle follows the same paths, and a null handle stays null whatever is asked of it.\<close>

lemma null_handle:
  "h_FirstChild None = None" "h_FirstChildElement name None = None" "h_LastChild None = None"
  "h_LastChildElement name None = None" "h_PreviousSibling None = None" "h_PreviousSiblingElement name None = None"
  "h_NextSibling None = None" "h_NextSiblingElement name None = None" "h_ToElement None = None" "h_ToText None = None"
  "h_ToUnknown None = None" "h_ToDeclaration None = None"
  by (simp_all add: h_FirstChild_def h_FirstChildElement_def h_LastChild_def h_LastChildElement_def h_PreviousSibling_def
      h_PreviousSiblingElement_def h_NextSibling_def h_NextSiblingElement_def h_ToElement_def h_ToText_def h_ToUnknown_def
      h_ToDeclaration_def XMLHandle_def sibling_of_def h_node_if_def)

lemma handle_child_element:
  "h_ToElement (h_FirstChildElement name (Some p)) = FirstChildElement name (child_list p)"
proof (cases "FirstChildElement_at name p")
  case None
  with FirstChildElement_at_find [of name p] show ?thesis by (simp add: h_FirstChildElement_def h_ToElement_def h_node_if_def XMLHandle_def)
next
  case (Some c)
  then have "ToElementWithName name (here c)" using next_loop_row by (simp add: FirstChildElement_at_def)
  then have "ToElementWithName None (here c)" by (simp add: ToElementWithName_def split: xml_node.splits)
  with Some FirstChildElement_at_find [of name p] show ?thesis
    by (simp add: h_FirstChildElement_def h_ToElement_def h_node_if_def XMLHandle_def)
qed

end
