(* ===== verification/Xml_Delete.thy ===== *)
theory Xml_Delete
  imports Xml_Links Xml_Memory
begin

text \<open>
  Deleting nodes and clearing a document (\<^verbatim>\<open>server/tinyxml2.cpp\<close>): the destructors on the pointers of the
  nodes, with the memory they give back.  What is deleted twice, or used after it was deleted, is a fault.
\<close>

section \<open>Nodes with their memory\<close>

datatype block = Node_block nat | Attr_block nat

text \<open>
  \<open>dom_freed\<close> are the blocks given to \<open>Free\<close> of their pools, in order; \<open>dom_untracked\<close> is the number of nodes of all
  pools not marked as tracked.
\<close>

record dom =
  dom_links :: links
  dom_attrs :: "nat \<Rightarrow> nat list"
  dom_unlinked :: "nat dyn_array"
  dom_untracked :: int
  dom_freed :: "block list"

definition dangling :: "dom \<Rightarrow> nat \<Rightarrow> bool" where
  "dangling s a \<longleftrightarrow> Node_block a \<in> set (dom_freed s)"

text \<open>
  The destructor of \<open>XMLElement\<close>: its attributes, each through the static \<open>DeleteAttribute\<close>.  The other kinds of nodes
  have none.
\<close>

fun free_attrs :: "nat list \<Rightarrow> block list \<Rightarrow> fault + block list" where
  "free_attrs [] freed = Inr freed"
| "free_attrs (x # xs) freed =
     (if Attr_block x \<in> set freed then Inl Use_after_free else free_attrs xs (freed @ [Attr_block x]))"

definition destroy_element :: "nat \<Rightarrow> dom \<Rightarrow> fault + dom" where
  "destroy_element a s =
     sbind (free_attrs (dom_attrs s a) (dom_freed s)) (\<lambda>freed.
       Inr (s\<lparr>dom_freed := freed, dom_attrs := (dom_attrs s)(a := [])\<rparr>))"

text \<open>\<open>Unlink\<close> writes to the node, its parent and its neighbours.\<close>

definition neighbours :: "links \<Rightarrow> nat \<Rightarrow> nat list" where
  "neighbours h c =
     (case x_prev (h c) of None \<Rightarrow> [] | Some b \<Rightarrow> [b]) @ (case x_next (h c) of None \<Rightarrow> [] | Some b \<Rightarrow> [b])"

definition dom_Unlink :: "nat \<Rightarrow> nat \<Rightarrow> dom \<Rightarrow> fault + dom" where
  "dom_Unlink this child s =
     (if list_ex (dangling s) (this # child # neighbours (dom_links s) child) then Inl Use_after_free
      else Inr (s\<lparr>dom_links := Unlink this child (dom_links s)\<rparr>))"

definition dom_MarkInUse :: "nat \<Rightarrow> dom \<Rightarrow> dom" where
  "dom_MarkInUse a s = s\<lparr>dom_unlinked := MarkInUse a (dom_unlinked s)\<rparr>"

text \<open>The rest of the destructor of \<open>XMLNode\<close> behind \<open>DeleteChildren\<close>, and \<open>Free\<close>.\<close>

definition leave_parent :: "nat \<Rightarrow> dom \<Rightarrow> fault + dom" where
  "leave_parent a s = (case x_parent (dom_links s a) of None \<Rightarrow> Inr s | Some p \<Rightarrow> dom_Unlink p a s)"

definition free_node :: "nat \<Rightarrow> dom \<Rightarrow> fault + dom" where
  "free_node a s = (if dangling s a then Inl Use_after_free else Inr (s\<lparr>dom_freed := dom_freed s @ [Node_block a]\<rparr>))"

definition no_children :: "nat \<Rightarrow> dom \<Rightarrow> dom" where
  "no_children a s = s\<lparr>dom_links := upd a (\<lambda>l. l\<lparr>x_firstChild := None, x_lastChild := None\<rparr>) (dom_links s)\<rparr>"

text \<open>
  The static \<open>DeleteNode\<close>, of a node that is not null and not a document, and \<open>DeleteChildren\<close> with \<open>DeleteChild\<close>, which call each other; pointers that form a circle
  would not let them end, and then the value is \<open>None\<close>.
\<close>

datatype deletion = Delete_node nat | Delete_children nat

partial_function (option) delete :: "deletion \<Rightarrow> dom \<Rightarrow> (fault + dom) option" where
  "delete w s =
     (case w of
        Delete_node a \<Rightarrow>
          (if dangling s a then Some (Inl Use_after_free)
           else
             (case destroy_element a (dom_MarkInUse a s) of
                Inl f \<Rightarrow> Some (Inl f)
              | Inr s \<Rightarrow>
                  Option.bind (delete (Delete_children a) s) (\<lambda>r.
                    case r of Inl f \<Rightarrow> Some (Inl f) | Inr s \<Rightarrow> Some (sbind (leave_parent a s) (free_node a)))))
      | Delete_children a \<Rightarrow>
          (case x_firstChild (dom_links s a) of
             None \<Rightarrow> Some (Inr (no_children a s))
           | Some c \<Rightarrow>
               (case dom_Unlink a c s of
                  Inl f \<Rightarrow> Some (Inl f)
                | Inr s \<Rightarrow>
                    Option.bind (delete (Delete_node c) s) (\<lambda>r.
                      case r of Inl f \<Rightarrow> Some (Inl f) | Inr s \<Rightarrow> delete (Delete_children a) s))))"

definition DeleteChildren :: "nat \<Rightarrow> dom \<Rightarrow> (fault + dom) option" where
  "DeleteChildren a s = delete (Delete_children a) s"

definition DeleteChild :: "nat \<Rightarrow> nat \<Rightarrow> dom \<Rightarrow> (fault + dom) option" where
  "DeleteChild this node s =
     (case dom_Unlink this node s of Inl f \<Rightarrow> Some (Inl f) | Inr s \<Rightarrow> delete (Delete_node node) s)"

text \<open>\<open>XMLDocument::DeleteNode\<close>: a node in no tree is marked as tracked first.\<close>

definition DeleteNode :: "nat \<Rightarrow> dom \<Rightarrow> (fault + dom) option" where
  "DeleteNode node s =
     (if dangling s node then Some (Inl Use_after_free)
      else
        (case x_parent (dom_links s node) of
           Some p \<Rightarrow> DeleteChild p node s
         | None \<Rightarrow> delete (Delete_node node) (s\<lparr>dom_untracked := dom_untracked s - 1\<rparr>)))"

text \<open>\<open>XMLDocument::Clear\<close>: the children of the document, then the nodes in no tree.\<close>

partial_function (option) delete_unlinked :: "dom \<Rightarrow> (fault + dom) option" where
  "delete_unlinked s =
     (if da_size (dom_unlinked s) = 0 then Some (Inr s)
      else
        (case da_at 0 (dom_unlinked s) of
           Inl f \<Rightarrow> Some (Inl f)
         | Inr node \<Rightarrow>
             Option.bind (DeleteNode node s) (\<lambda>r. case r of Inl f \<Rightarrow> Some (Inl f) | Inr s \<Rightarrow> delete_unlinked s)))"

definition dom_Clear :: "nat \<Rightarrow> dom \<Rightarrow> (fault + dom) option" where
  "dom_Clear doc s =
     Option.bind (DeleteChildren doc s) (\<lambda>r. case r of Inl f \<Rightarrow> Some (Inl f) | Inr s \<Rightarrow> delete_unlinked s)"

section \<open>Trees of nodes\<close>

datatype node_tree = Node_tree (top: nat) (below: "node_tree list")

fun members :: "node_tree \<Rightarrow> nat list" where
  "members (Node_tree a ts) = a # concat (map members ts)"

fun shape :: "(nat \<Rightarrow> nat list) \<Rightarrow> node_tree \<Rightarrow> bool" where
  "shape C (Node_tree a ts) \<longleftrightarrow> C a = map top ts \<and> list_all (shape C) ts"

text \<open>The blocks of a tree, in the order they are given back.\<close>

fun blocks :: "(nat \<Rightarrow> nat list) \<Rightarrow> node_tree \<Rightarrow> block list" where
  "blocks A (Node_tree a ts) = map Attr_block (A a) @ concat (map (blocks A) ts) @ [Node_block a]"

abbreviation all_members :: "node_tree list \<Rightarrow> nat list" where
  "all_members ts \<equiv> concat (map members ts)"

abbreviation all_blocks :: "(nat \<Rightarrow> nat list) \<Rightarrow> node_tree list \<Rightarrow> block list" where
  "all_blocks A ts \<equiv> concat (map (blocks A) ts)"

lemma top_member [simp]: "top t \<in> set (members t)"
  by (cases t) simp

lemma members_blocks: "x \<in> set (members t) \<Longrightarrow> Node_block x \<in> set (blocks A t)"
  by (induction t) auto

lemma blocks_members: "Node_block x \<in> set (blocks A t) \<Longrightarrow> x \<in> set (members t)"
  by (induction t) auto

lemma blocks_cong: "(\<And>x. x \<in> set (members t) \<Longrightarrow> A x = B x) \<Longrightarrow> blocks A t = blocks B t"
proof (induction t)
  case (Node_tree a ts)
  then have "map (blocks A) ts = map (blocks B) ts" by (intro map_cong) auto
  then have "all_blocks A ts = all_blocks B ts" by (rule arg_cong)
  moreover have "A a = B a" using Node_tree.prems by simp
  ultimately show ?case by (simp only: blocks.simps)
qed

lemma shape_cong: "(\<And>x. x \<in> set (members t) \<Longrightarrow> C x = D x) \<Longrightarrow> shape C t \<longleftrightarrow> shape D t"
proof (induction t)
  case (Node_tree a ts)
  then have "list_all (shape C) ts \<longleftrightarrow> list_all (shape D) ts" by (intro list.pred_cong) auto
  with Node_tree.prems show ?case by simp
qed

section \<open>Deleting a tree\<close>

lemma free_attrs_ok:
  "distinct xs \<Longrightarrow> set (map Attr_block xs) \<inter> set freed = {} \<Longrightarrow> free_attrs xs freed = Inr (freed @ map Attr_block xs)"
proof (induction xs arbitrary: freed)
  case (Cons a xs)
  then have "set (map Attr_block xs) \<inter> set (freed @ [Attr_block a]) = {}" by auto
  with Cons show ?case by simp
qed simp

lemma MarkInUse_absent: "da_ok d \<Longrightarrow> Some x \<notin> set (da_list d) \<Longrightarrow> MarkInUse x d = d"
proof -
  assume d: "da_ok d" "Some x \<notin> set (da_list d)"
  have "mark_loop x i d = d" for i
  proof (induction "da_size d - i" arbitrary: i)
    case 0
    then show ?case by (simp add: mark_loop.simps [of x i])
  next
    case (Suc k)
    then have i: "i < da_size d" by simp
    then have "da_mem d ! i \<in> set (da_list d)"
      using d(1) by (auto simp: da_list_def da_ok_def in_set_conv_nth intro!: exI [of _ i])
    with d(2) have "da_mem d ! i \<noteq> Some x" by auto
    with Suc i show ?case by (simp add: mark_loop.simps [of x i])
  qed
  then show ?thesis by (simp add: MarkInUse_def)
qed

lemma MarkInUse_sub: "da_ok d \<Longrightarrow> da_ok (MarkInUse x d) \<and> set (da_list (MarkInUse x d)) \<subseteq> set (da_list d)"
proof (cases "Some x \<in> set (da_list d)")
  case True
  moreover assume "da_ok d"
  ultimately have "da_ok (MarkInUse x d)" "mset (da_list (MarkInUse x d)) \<subseteq># mset (da_list d)"
    using MarkInUse_ok [of d x] by simp_all
  then show ?thesis using set_mset_mono by fastforce
qed (simp add: MarkInUse_absent)

text \<open>
  A state in which the trees \<open>ts\<close> can be deleted: their blocks are all different and not freed, and their nodes
  are not in the array of the nodes in no tree.
\<close>

definition deletable :: "dom \<Rightarrow> (nat \<Rightarrow> nat list) \<Rightarrow> node_tree list \<Rightarrow> bool" where
  "deletable s C ts \<longleftrightarrow>
     forest (dom_links s) C \<and> list_all (shape C) ts \<and> distinct (all_blocks (dom_attrs s) ts) \<and>
     set (all_blocks (dom_attrs s) ts) \<inter> set (dom_freed s) = {} \<and> da_ok (dom_unlinked s)"

definition listed :: "dom \<Rightarrow> nat \<Rightarrow> bool" where
  "listed s x \<longleftrightarrow> Some x \<in> set (da_list (dom_unlinked s))"

text \<open>What deleting the nodes \<open>X\<close>, and their blocks \<open>bs\<close>, leaves.\<close>

definition gone :: "dom \<Rightarrow> (nat \<Rightarrow> nat list) \<Rightarrow> nat set \<Rightarrow> block list \<Rightarrow> dom \<Rightarrow> bool" where
  "gone s C X bs s' \<longleftrightarrow>
     forest (dom_links s') (\<lambda>q. if q \<in> X then [] else C q) \<and> dom_freed s' = dom_freed s @ bs \<and>
     (\<forall>x. x \<notin> X \<longrightarrow> dom_attrs s' x = dom_attrs s x) \<and> dom_untracked s' = dom_untracked s"

lemma deletable_alive: "deletable s C ts \<Longrightarrow> t \<in> set ts \<Longrightarrow> x \<in> set (members t) \<Longrightarrow> \<not> dangling s x"
  using members_blocks [of x t "dom_attrs s"] by (auto simp: deletable_def dangling_def)

lemma dom_Unlink_ok:
  assumes f: "forest (dom_links s) C" and C: "C p = c # vs" and alive: "\<not> dangling s p" "\<And>x. x \<in> set (c # vs) \<Longrightarrow> \<not> dangling s x"
  shows "\<exists>h. dom_Unlink p c s = Inr (s\<lparr>dom_links := h\<rparr>) \<and> forest h (C(p := vs))"
proof -
  have C': "C p = [] @ c # vs" using C by simp
  note n = child_neighbours [OF f C']
  have "set (neighbours (dom_links s) c) \<subseteq> set vs"
    using n(1,2) by (auto simp: neighbours_def hd_or_def split: list.splits)
  then have "\<not> list_ex (dangling s) (p # c # neighbours (dom_links s) c)"
    using alive by (auto simp: list_ex_iff)
  with Unlink_forest [OF f C'] show ?thesis by (auto simp: dom_Unlink_def)
qed

lemma no_children_forest: "forest (dom_links s) C \<Longrightarrow> C a = [] \<Longrightarrow> no_children a s = s"
proof -
  assume "forest (dom_links s) C" "C a = []"
  then have "x_firstChild (dom_links s a) = None" "x_lastChild (dom_links s a) = None" by (simp_all add: forest_def)
  then have "upd a (\<lambda>l. l\<lparr>x_firstChild := None, x_lastChild := None\<rparr>) (dom_links s) = dom_links s"
    by (auto simp: upd_def fun_eq_iff)
  then show ?thesis by (simp add: no_children_def)
qed

lemma all_members_blocks: "x \<in> set (all_members ts) \<Longrightarrow> Node_block x \<in> set (all_blocks A ts)"
  using members_blocks by fastforce

lemma members_disjoint:
  "distinct (all_blocks A (ts @ us)) \<Longrightarrow> set (all_members ts) \<inter> set (all_members us) = {}"
  using all_members_blocks [of _ ts A] all_members_blocks [of _ us A] by (force simp del: UN_iff set_concat)

lemma all_blocks_cong: "(\<And>x. x \<in> set (all_members ts) \<Longrightarrow> A x = B x) \<Longrightarrow> all_blocks A ts = all_blocks B ts"
  by (intro arg_cong [of _ _ concat] map_cong refl blocks_cong) auto

text \<open>What is asked of a tree for \<open>delete\<close> to give back all its blocks, each once.\<close>

definition deletes :: "node_tree \<Rightarrow> bool" where
  "deletes t \<longleftrightarrow>
     (\<forall>s C. deletable s C [t] \<longrightarrow> (\<forall>q. top t \<notin> set (C q)) \<longrightarrow> list_all (\<lambda>x. \<not> listed s x) (all_members (below t)) \<longrightarrow>
       (\<exists>s'. delete (Delete_node (top t)) s = Some (Inr s') \<and> gone s C (set (members t)) (blocks (dom_attrs s) t) s' \<and>
         dom_unlinked s' = MarkInUse (top t) (dom_unlinked s)))"

text \<open>The rest of the trees, after the first of them.\<close>

lemma deletable_rest:
  assumes "deletable s C (ts @ us)" and "gone s0 D X (all_blocks (dom_attrs s) ts) s1"
    and "dom_attrs s0 = dom_attrs s" and "dom_freed s0 = dom_freed s" and "\<And>x. x \<in> set (all_members us) \<Longrightarrow> D x = C x"
    and "da_ok (dom_unlinked s1)" and "set (all_members us) \<inter> X = {}"
  shows "deletable s1 (\<lambda>q. if q \<in> X then [] else D q) us"
    and "all_blocks (dom_attrs s1) us = all_blocks (dom_attrs s) us"
proof -
  let ?A = "dom_attrs s" and ?C = "\<lambda>q. if q \<in> X then [] else D q"
  have d: "distinct (all_blocks ?A (ts @ us))" using assms(1) by (simp add: deletable_def)
  have off: "x \<notin> X" if "x \<in> set (all_members us)" for x using assms(7) that by blast
  show A: "all_blocks (dom_attrs s1) us = all_blocks ?A us"
    using assms(2,3) off by (intro all_blocks_cong) (simp add: gone_def)
  have "shape ?C u \<longleftrightarrow> shape C u" if "u \<in> set us" for u
    using off assms(5) that by (intro shape_cong) auto
  then have "list_all (shape ?C) us" using assms(1) by (simp add: deletable_def list_all_iff)
  moreover have "set (all_blocks ?A us) \<inter> set (dom_freed s1) = {}"
    using assms(1,2,4) d by (auto simp: deletable_def gone_def simp del: set_concat)
  ultimately show "deletable s1 ?C us"
    using assms(2,4,6) d unfolding deletable_def A by (simp add: gone_def)
qed

lemma delete_children_ok:
  assumes "deletable s C ts" and "C a = map top ts" and "a \<notin> set (all_members ts)" and "\<not> dangling s a"
    and "list_all (\<lambda>x. \<not> listed s x) (all_members ts)" and "list_all deletes ts"
  shows "\<exists>s'. delete (Delete_children a) s = Some (Inr s') \<and>
    gone s C (insert a (set (all_members ts))) (all_blocks (dom_attrs s) ts) s' \<and> dom_unlinked s' = dom_unlinked s"
  using assms
proof (induction ts arbitrary: s C)
  case Nil
  then have f: "forest (dom_links s) C" "C a = []" by (simp_all add: deletable_def)
  then have "x_firstChild (dom_links s a) = None" by (simp add: forest_def)
  then have "delete (Delete_children a) s = Some (Inr s)"
    using no_children_forest [OF f] by (simp add: delete.simps [of "Delete_children a"])
  moreover have "(\<lambda>q. if q = a then [] else C q) = C" using f(2) by auto
  ultimately show ?case using f(1) by (simp add: gone_def)
next
  case (Cons t ts)
  let ?C = "C(a := map top ts)" and ?A = "dom_attrs s"
  have f: "forest (dom_links s) C" using Cons.prems(1) by (simp add: deletable_def)
  have d: "distinct (all_blocks ?A (t # ts))" using Cons.prems(1) by (simp add: deletable_def)
  have ok: "da_ok (dom_unlinked s)" using Cons.prems(1) by (simp add: deletable_def)
  have alive: "\<not> dangling s x" if "x \<in> set (top t # map top ts)" for x
  proof -
    obtain u where "u \<in> set (t # ts)" "x = top u" using \<open>x \<in> _\<close> by auto
    then show ?thesis using deletable_alive [OF Cons.prems(1)] top_member by simp
  qed
  have Ca: "C a = top t # map top ts" using Cons.prems(2) by simp
  obtain h where h: "dom_Unlink a (top t) s = Inr (s\<lparr>dom_links := h\<rparr>)" "forest h ?C"
    using dom_Unlink_ok [OF f Ca Cons.prems(4) alive] by auto
  let ?s = "s\<lparr>dom_links := h\<rparr>"
  have "shape ?C t \<longleftrightarrow> shape C t" using Cons.prems(3) by (intro shape_cong) auto
  then have "deletable ?s ?C [t]"
    using Cons.prems(1) h(2) by (auto simp: deletable_def)
  moreover have "top t \<notin> set (?C q)" for q
    using forest_disjoint [OF f, of "top t" a q] child_neighbours(7) [OF f, of a "[]"] Ca by auto
  moreover have "list_all (\<lambda>x. \<not> listed ?s x) (all_members (below t))"
    using Cons.prems(5) by (cases t) (simp add: listed_def list_all_iff)
  moreover have "MarkInUse (top t) (dom_unlinked s) = dom_unlinked s"
    using Cons.prems(5) top_member [of t] ok by (intro MarkInUse_absent) (auto simp: listed_def list_all_iff)
  ultimately obtain s1 where s1: "delete (Delete_node (top t)) ?s = Some (Inr s1)"
      "gone ?s ?C (set (members t)) (blocks ?A t) s1" "dom_unlinked s1 = dom_unlinked s"
    using Cons.prems(6) spec [OF spec [OF iffD1 [OF deletes_def]], of t ?s ?C] by auto
  let ?C1 = "\<lambda>q. if q \<in> set (members t) then [] else ?C q"
  have "?C x = C x" if "x \<in> set (all_members ts)" for x using Cons.prems(3) that by auto
  moreover have "set (all_members ts) \<inter> set (members t) = {}"
    using members_disjoint [of ?A "[t]" ts] d by auto
  ultimately have rest: "deletable s1 (\<lambda>q. if q \<in> set (members t) then [] else ?C q) ts"
      "all_blocks (dom_attrs s1) ts = all_blocks ?A ts"
    using deletable_rest [of s C "[t]" ts ?s ?C "set (members t)" s1] Cons.prems(1) s1(2,3) ok by simp_all
  have a: "a \<notin> set (members t)" using Cons.prems(3) by simp
  then have "\<not> dangling s1 a"
    using Cons.prems(4) s1(2) blocks_members [of a ?A t] by (auto simp: gone_def dangling_def)
  moreover have "?C1 a = map top ts" using a by simp
  ultimately obtain s' where s': "delete (Delete_children a) s1 = Some (Inr s')"
      "gone s1 ?C1 (insert a (set (all_members ts))) (all_blocks ?A ts) s'" "dom_unlinked s' = dom_unlinked s"
    using Cons.IH [OF rest(1)] Cons.prems(3,5,6) s1(3) unfolding rest(2) by (auto simp: listed_def)
  have "x_firstChild (dom_links s a) = Some (top t)" using f Ca by (simp add: forest_def)
  then have "delete (Delete_children a) s = Some (Inr s')"
    using h(1) s1(1) s'(1) by (simp add: delete.simps [of "Delete_children a" s])
  moreover have "(\<lambda>q. if q \<in> insert a (set (all_members ts)) then [] else ?C1 q) =
      (\<lambda>q. if q \<in> insert a (set (all_members (t # ts))) then [] else C q)"
    by auto
  then have "gone s C (insert a (set (all_members (t # ts)))) (all_blocks ?A (t # ts)) s'"
    using s1(2) s'(2) by (simp add: gone_def)
  ultimately show ?case using s'(3) by blast
qed

lemma delete_tree: "deletes t"
proof (induction t)
  case (Node_tree a ts)
  show ?case unfolding deletes_def
  proof (intro allI impI)
    fix s C
    assume d: "deletable s C [Node_tree a ts]" and root: "\<forall>q. top (Node_tree a ts) \<notin> set (C q)"
      and l: "list_all (\<lambda>x. \<not> listed s x) (all_members (below (Node_tree a ts)))"
    let ?A = "dom_attrs s" and ?u = "MarkInUse a (dom_unlinked s)"
    let ?freed = "dom_freed s @ map Attr_block (?A a)"
    let ?s = "s\<lparr>dom_unlinked := ?u, dom_freed := ?freed, dom_attrs := ?A(a := [])\<rparr>"
    have bs: "distinct (map Attr_block (?A a))" "set (map Attr_block (?A a)) \<inter> set (dom_freed s) = {}"
      "Node_block a \<notin> set (all_blocks ?A ts)" "a \<notin> set (all_members ts)"
      using d members_blocks by (fastforce simp: deletable_def)+
    have "free_attrs (?A a) (dom_freed s) = Inr ?freed" using bs(1,2) by (intro free_attrs_ok) (simp_all add: distinct_map)
    then have attrs: "destroy_element a (dom_MarkInUse a s) = Inr ?s"
      by (simp add: destroy_element_def dom_MarkInUse_def)
    have A: "all_blocks (?A(a := [])) ts = all_blocks ?A ts" using bs(4) by (intro all_blocks_cong) auto
    have alive: "\<not> dangling s a" using deletable_alive [OF d, of "Node_tree a ts" a] by simp
    have u: "da_ok ?u" "set (da_list ?u) \<subseteq> set (da_list (dom_unlinked s))"
      using d MarkInUse_sub [of "dom_unlinked s" a] by (simp_all add: deletable_def)
    have "deletable ?s C ts"
      using d u(1) unfolding deletable_def by (auto simp: A)
    moreover have "C a = map top ts" using d by (simp add: deletable_def)
    moreover have "\<not> dangling ?s a" using alive by (auto simp: dangling_def)
    moreover have "list_all (\<lambda>x. \<not> listed ?s x) (all_members ts)"
      using l u(2) by (auto simp: listed_def list_all_iff)
    moreover have "list_all deletes ts" using Node_tree.IH by (simp add: list_all_iff)
    ultimately obtain s1 where s1: "delete (Delete_children a) ?s = Some (Inr s1)"
      "gone ?s C (insert a (set (all_members ts))) (all_blocks ?A ts) s1" "dom_unlinked s1 = ?u"
      using delete_children_ok [of ?s C ts a] bs(4) by (auto simp: A)
    then have "x_parent (dom_links s1 a) = None" using root by (auto simp: gone_def forest_def)
    moreover have "\<not> dangling s1 a" using s1(2) alive bs(3) by (auto simp: gone_def dangling_def)
    ultimately show "\<exists>s'. delete (Delete_node (top (Node_tree a ts))) s = Some (Inr s') \<and>
        gone s C (set (members (Node_tree a ts))) (blocks (dom_attrs s) (Node_tree a ts)) s' \<and>
        dom_unlinked s' = MarkInUse (top (Node_tree a ts)) (dom_unlinked s)"
      using attrs alive s1
      by (auto simp: delete.simps [of "Delete_node a" s] leave_parent_def free_node_def gone_def)
  qed
qed

section \<open>Clearing the document\<close>

lemma shape_trans: "deletable s C (us @ u # vs) \<Longrightarrow> deletable s C (u # us @ vs)"
  by (auto simp: deletable_def)

lemma DeleteNode_root:
  assumes "deletable s C (u # us)" and "\<forall>q. top u \<notin> set (C q)" and "list_all (\<lambda>x. \<not> listed s x) (all_members (below u))"
  shows "\<exists>s'. DeleteNode (top u) s = Some (Inr s') \<and> gone (s\<lparr>dom_untracked := dom_untracked s - 1\<rparr>) C (set (members u)) (blocks (dom_attrs s) u) s' \<and>
    dom_unlinked s' = MarkInUse (top u) (dom_unlinked s)"
proof -
  let ?s = "s\<lparr>dom_untracked := dom_untracked s - 1\<rparr>"
  have "deletable ?s C [u]" "\<not> dangling s (top u)" "x_parent (dom_links s (top u)) = None"
    using assms(1,2) deletable_alive [OF assms(1), of u "top u"] by (auto simp: deletable_def forest_def)
  moreover from this(1) have "\<exists>s'. delete (Delete_node (top u)) ?s = Some (Inr s') \<and>
      gone ?s C (set (members u)) (blocks (dom_attrs ?s) u) s' \<and> dom_unlinked s' = MarkInUse (top u) (dom_unlinked ?s)"
    using spec [OF spec [OF iffD1 [OF deletes_def delete_tree [of u]]], of ?s C] assms(2,3) by (simp add: listed_def)
  ultimately show ?thesis by (auto simp: DeleteNode_def)
qed

lemma listed_tops:
  assumes "distinct (all_blocks A us)" and "set (da_list (dom_unlinked s)) = Some ` set (map top us)" and "u \<in> set us"
  shows "list_all (\<lambda>x. \<not> listed s x) (all_members (below u))"
proof -
  obtain vs ws where us: "us = vs @ u # ws" using assms(3) by (meson split_list)
  have "x \<noteq> top v" if x: "x \<in> set (all_members (below u))" and v: "v \<in> set us" for x v
  proof (cases "v = u")
    case True
    obtain a ts where u: "u = Node_tree a ts" by (cases u)
    have "Node_block a \<notin> set (all_blocks A ts)" using assms(1) by (auto simp: us u)
    moreover have "Node_block x \<in> set (all_blocks A ts)" using x u members_blocks by fastforce
    ultimately show ?thesis using True u by auto
  next
    case False
    then have v: "v \<in> set (vs @ ws)" using v us by auto
    have "distinct (all_blocks A ([u] @ vs @ ws))" using assms(1) us by auto
    from members_disjoint [OF this] have "x \<notin> set (all_members (vs @ ws))" using x by (cases u) auto
    moreover have "top v \<in> set (all_members (vs @ ws))" using v top_member [of v] by (auto simp del: top_member)
    ultimately show ?thesis by metis
  qed
  then show ?thesis using assms(2) by (auto simp: list_all_iff listed_def)
qed

lemma delete_unlinked_ok:
  assumes "deletable s C us" and "\<forall>u\<in>set us. \<forall>q. top u \<notin> set (C q)"
    and "mset (da_list (dom_unlinked s)) = mset (map (\<lambda>t. Some (top t)) us)"
  shows "\<exists>s'. delete_unlinked s = Some (Inr s') \<and> da_size (dom_unlinked s') = 0 \<and>
    mset (dom_freed s') = mset (dom_freed s) + mset (all_blocks (dom_attrs s) us) \<and>
    dom_untracked s' = dom_untracked s - int (length us)"
  using assms
proof (induction us arbitrary: s C rule: length_induct)
  case (1 us)
  let ?d = "dom_unlinked s" and ?A = "dom_attrs s"
  have ok: "da_ok ?d" using "1.prems"(1) by (simp add: deletable_def)
  have size: "da_size ?d = length us"
    using ok "1.prems"(3) length_da_list [of ?d] by (metis length_map size_mset)
  show ?case
  proof (cases "us = []")
    case True
    with size show ?thesis by (simp add: delete_unlinked.simps [of s])
  next
    case False
    then have pos: "0 < da_size ?d" using size by simp
    then have "da_list ?d ! 0 \<in> set (da_list ?d)" using ok length_da_list [of ?d] by (metis nth_mem)
    then obtain u where u: "da_list ?d ! 0 = Some (top u)" "u \<in> set us"
      using "1.prems"(3) by (metis (no_types, lifting) comp_apply image_iff list.set_map set_mset_mset)
    then have at: "da_at 0 ?d = Inr (top u)"
      using pos ok by (cases "da_mem ?d") (auto simp: da_at_def da_ok_def da_list_def)
    obtain vs ws where us: "us = vs @ u # ws" using u(2) by (meson split_list)
    have d: "deletable s C (u # vs @ ws)" using "1.prems"(1) shape_trans us by simp
    have "distinct (all_blocks ?A us)" using "1.prems"(1) by (simp add: deletable_def)
    moreover have "set (da_list ?d) = Some ` set (map top us)" using mset_eq_setD [OF "1.prems"(3)] by (simp add: image_comp)
    ultimately have "list_all (\<lambda>x. \<not> listed s x) (all_members (below u))" using u(2) by (rule listed_tops)
    then obtain s1 where s1: "DeleteNode (top u) s = Some (Inr s1)"
        "gone (s\<lparr>dom_untracked := dom_untracked s - 1\<rparr>) C (set (members u)) (blocks ?A u) s1"
        "dom_unlinked s1 = MarkInUse (top u) ?d"
      using DeleteNode_root [OF d] "1.prems"(2) u(2) by auto
    let ?C = "\<lambda>q. if q \<in> set (members u) then [] else C q"
    have "Some (top u) \<in> set (da_list ?d)" using u(1) \<open>da_list ?d ! 0 \<in> set (da_list ?d)\<close> by simp
    then have m: "da_ok (dom_unlinked s1)" "mset (da_list (dom_unlinked s1)) = mset (map (\<lambda>t. Some (top t)) (vs @ ws))"
      using MarkInUse_ok [of ?d "top u"] ok "1.prems"(3) s1(3) us by simp_all
    have "set (all_members (vs @ ws)) \<inter> set (members u) = {}"
      using members_disjoint [of ?A "[u]" "vs @ ws"] d by (auto simp: deletable_def)
    note rest = deletable_rest [of s C "[u]" "vs @ ws" "s\<lparr>dom_untracked := dom_untracked s - 1\<rparr>" C "set (members u)" s1,
        OF _ _ _ _ refl m(1) this]
    have rest: "deletable s1 ?C (vs @ ws)" "all_blocks (dom_attrs s1) (vs @ ws) = all_blocks ?A (vs @ ws)"
      by (rule rest; use d s1(2) in simp)+
    have roots: "top v \<notin> set (?C q)" if "v \<in> set (vs @ ws)" for v q using "1.prems"(2) that us by auto
    obtain s' where "delete_unlinked s1 = Some (Inr s')" "da_size (dom_unlinked s') = 0"
        "mset (dom_freed s') = mset (dom_freed s1) + mset (all_blocks (dom_attrs s1) (vs @ ws))"
        "dom_untracked s' = dom_untracked s1 - int (length (vs @ ws))"
      using "1.IH" [rule_format, OF _ rest(1) _ m(2)] roots us by auto
    with at pos s1 rest(2) show ?thesis
      by (simp add: delete_unlinked.simps [of s] gone_def us)
  qed
qed

text \<open>
  C35: Clearing a document ends, without touching anything that is already freed: every node and every attribute of its
  tree, and of the trees that were made and never inserted, is given back to its pool exactly once, and no
  node is left in the array of those in no tree.
\<close>

theorem Clear_frees_once:
  assumes "deletable s C (ts @ us)" and "C doc = map top ts" and "doc \<notin> set (all_members (ts @ us))" and "\<not> dangling s doc"
    and "\<forall>u\<in>set us. \<forall>q. top u \<notin> set (C q)" and "mset (da_list (dom_unlinked s)) = mset (map (\<lambda>t. Some (top t)) us)"
  shows "\<exists>s'. dom_Clear doc s = Some (Inr s') \<and> da_size (dom_unlinked s') = 0 \<and>
    mset (dom_freed s') = mset (dom_freed s) + mset (all_blocks (dom_attrs s) (ts @ us)) \<and>
    dom_untracked s' = dom_untracked s - int (length us)"
proof -
  let ?A = "dom_attrs s" and ?X = "insert doc (set (all_members ts))"
  have d: "deletable s C ts" and all: "distinct (all_blocks ?A (ts @ us))" and ok: "da_ok (dom_unlinked s)"
    using assms(1) by (auto simp: deletable_def)
  note disj = members_disjoint [OF all]
  have "Some x \<notin> set (da_list (dom_unlinked s))" if "x \<in> set (all_members ts)" for x
  proof -
    have "x \<notin> set (map top us)" using disj that top_member by (auto simp del: top_member)
    then show ?thesis using mset_eq_setD [OF assms(6)] by (auto simp: image_comp)
  qed
  then have "list_all (\<lambda>x. \<not> listed s x) (all_members ts)" by (simp add: listed_def list_all_iff)
  moreover have "doc \<notin> set (all_members ts)" using assms(3) by simp
  moreover have "list_all deletes ts" by (simp add: delete_tree list_all_iff)
  ultimately obtain s1 where s1: "delete (Delete_children doc) s = Some (Inr s1)" "gone s C ?X (all_blocks ?A ts) s1"
      "dom_unlinked s1 = dom_unlinked s"
    using delete_children_ok [OF d assms(2) _ assms(4)] by blast
  have roots: "\<forall>u\<in>set us. \<forall>q. top u \<notin> set (if q \<in> ?X then [] else C q)" using assms(5) by simp
  have "set (all_members us) \<inter> ?X = {}" using disj assms(3) by auto
  note rest = deletable_rest [OF assms(1) s1(2) refl refl refl _ this, unfolded s1(3), OF ok]
  obtain s' where "delete_unlinked s1 = Some (Inr s')" "da_size (dom_unlinked s') = 0"
      "mset (dom_freed s') = mset (dom_freed s1) + mset (all_blocks (dom_attrs s1) us)"
      "dom_untracked s' = dom_untracked s1 - int (length us)"
    using delete_unlinked_ok [OF rest(1) roots] assms(6) s1(3) by auto
  with s1 rest(2) show ?thesis by (simp add: dom_Clear_def DeleteChildren_def gone_def)
qed

text \<open>
  The document \<open>0\<close> with the element \<open>1\<close>, which has the attribute \<open>8\<close> and the text \<open>2\<close>, and the node \<open>3\<close> that was
  never inserted.
\<close>

definition dom_example :: dom where
  "dom_example =
     \<lparr>dom_links = snd (InsertEndChild 1 2 (snd (InsertEndChild 0 1 (\<lambda>x. XMLNode 0)))),
      dom_attrs = (\<lambda>x. [])(1 := [8]), dom_unlinked = \<lparr>da_mem = [Some 3], da_size = 1\<rparr>, dom_untracked = 1, dom_freed = []\<rparr>"

definition C_example :: "nat \<Rightarrow> nat list" where
  "C_example = (\<lambda>q. [])(0 := [1], 1 := [2])"

lemma deletable_example: "deletable dom_example C_example [Node_tree 1 [Node_tree 2 []], Node_tree 3 []]"
proof -
  let ?h = "snd (InsertEndChild 0 1 (\<lambda>x. XMLNode 0))"
  have "forest ?h ((\<lambda>q. [])(0 := [1]))"
    using InsertEndChild_forest [OF forest_new [of 0], where a = 1 and p = 0] by (cases "InsertEndChild 0 1 (\<lambda>x. XMLNode 0)") (auto simp: XMLNode_def)
  moreover have "x_document (?h x) = 0" for x
    by (simp add: InsertEndChild_def XMLNode_def InsertChildPreamble_def upd_def)
  moreover have "(\<lambda>q. removeAll 2 (((\<lambda>q. [])(0 := [1])) q))(1 := removeAll 2 (((\<lambda>q. [])(0 := [1])) (1::nat)) @ [2]) = C_example"
    by (auto simp: C_example_def fun_eq_iff)
  ultimately have "forest (dom_links dom_example) C_example"
    using InsertEndChild_forest [of ?h "(\<lambda>q. [])(0 := [1])", where a = 2 and p = 1]
    by (cases "InsertEndChild 1 2 ?h") (auto simp: dom_example_def)
  then show ?thesis by (simp add: deletable_def dom_example_def C_example_def da_ok_def)
qed

theorem Clear_frees_once_witness:
  "\<exists>s'. dom_Clear 0 dom_example = Some (Inr s') \<and> da_size (dom_unlinked s') = 0 \<and> dom_untracked s' = 0 \<and>
    mset (dom_freed s') = {#Attr_block 8, Node_block 1, Node_block 2, Node_block 3#}"
proof -
  have "C_example 0 = map top [Node_tree 1 [Node_tree 2 []]]" "\<forall>q. (3::nat) \<notin> set (C_example q)"
    by (simp_all add: C_example_def)
  moreover have "da_list (dom_unlinked dom_example) = [Some 3]" "\<not> dangling dom_example 0"
    by (simp_all add: dom_example_def da_list_def dangling_def)
  ultimately show ?thesis
    using Clear_frees_once [of dom_example C_example "[Node_tree 1 [Node_tree 2 []]]" "[Node_tree 3 []]" 0] deletable_example
    by (auto simp: dom_example_def add_mset_commute)
qed

end
