(* ===== verification/Xml_Buffer.thy ===== *)
theory Xml_Buffer
  imports Xml_Print Xml_Memory
begin

text \<open>
  Printing to memory (\<^verbatim>\<open>server/tinyxml2.cpp\<close>): without a file the printer keeps its text in the dynamic array
  \<open>_buffer\<close>, always with a zero character behind it that the next output overwrites.
\<close>

section \<open>The buffer\<close>

text \<open>Storing to the memory from an index on; what is not in the memory is written past its end.\<close>

definition da_store :: "nat \<Rightarrow> 'a list \<Rightarrow> 'a dyn_array \<Rightarrow> fault + 'a dyn_array" where
  "da_store i xs d =
     (if i + length xs \<le> length (da_mem d)
      then Inr (d\<lparr>da_mem := take i (da_mem d) @ map Some xs @ drop (i + length xs) (da_mem d)\<rparr>)
      else Inl Overwrite)"

definition new_buffer :: "fault + char dyn_array" where
  "new_buffer = Push NUL (DynArray 20)"

text \<open>The result of \<open>PushArr\<close>, less one: the place of the zero character.\<close>

definition back_up :: "nat \<Rightarrow> string \<Rightarrow> char dyn_array \<Rightarrow> fault + char dyn_array" where
  "back_up cnt s d = sbind (PushArr cnt d) (\<lambda>(p, d). if p = 0 then Inl Overwrite else da_store (p - 1) s d)"

text \<open>A size above \<open>INT_MAX\<close> is cast to a smaller number, but all of the data is copied.\<close>

definition buf_Write :: "string \<Rightarrow> char dyn_array \<Rightarrow> fault + char dyn_array" where
  "buf_Write s d = (if INT_MAX < length s then Inl Overwrite else back_up (length s) (s @ [NUL]) d)"

definition buf_Putc :: "char \<Rightarrow> char dyn_array \<Rightarrow> fault + char dyn_array" where
  "buf_Putc c d = back_up 1 [c, NUL] d"

text \<open>
  \<open>Print\<close>, with the formatted text: when it is longer than an \<open>int\<close> can say, \<open>vsnprintf\<close> returns \<open>-1\<close> and then
  writes nothing.
\<close>

definition buf_Print :: "string \<Rightarrow> char dyn_array \<Rightarrow> fault + char dyn_array" where
  "buf_Print s d =
     (if INT_MAX < length s then Inr (d\<lparr>da_size := da_size d - 1\<rparr>) else back_up (length s) (s @ [NUL]) d)"

fun buf_PrintSpace :: "nat \<Rightarrow> char dyn_array \<Rightarrow> fault + char dyn_array" where
  "buf_PrintSpace 0 d = Inr d"
| "buf_PrintSpace (Suc n) d = sbind (buf_Write ''    '' d) (buf_PrintSpace n)"

text \<open>The reader of \<open>CStr\<close> takes the characters up to the first zero.\<close>

fun read_cstr :: "char option list \<Rightarrow> fault + string" where
  "read_cstr [] = Inl Overread"
| "read_cstr (None # m) = Inl Uninitialised"
| "read_cstr (Some c # m) = (if c = NUL then Inr [] else sbind (read_cstr m) (\<lambda>s. Inr (c # s)))"

definition CStr :: "char dyn_array \<Rightarrow> fault + string" where
  "CStr d = read_cstr (da_mem d)"

definition CStrSize :: "char dyn_array \<Rightarrow> nat" where
  "CStrSize d = da_size d"

definition ClearBuffer :: "char dyn_array \<Rightarrow> fault + char dyn_array" where
  "ClearBuffer d = Push NUL (da_Clear d)"

section \<open>The buffer holds the text\<close>

definition holds :: "char dyn_array \<Rightarrow> string \<Rightarrow> bool" where
  "holds d s \<longleftrightarrow> da_ok d \<and> da_list d = map Some (s @ [NUL])"

lemma holds_size: "holds d s \<Longrightarrow> da_size d = length s + 1"
  using length_da_list [of d] by (simp add: holds_def)

lemma holds_new: "\<exists>d. new_buffer = Inr d \<and> holds d []"
  using Push_ok [of "DynArray 20" NUL]
  by (auto simp: new_buffer_def holds_def DynArray_def da_ok_def da_list_def INT_MAX_def)

lemma holds_clear: "\<exists>d'. ClearBuffer d = Inr d' \<and> holds d' []"
  using Push_ok [of "da_Clear d" NUL]
  by (auto simp: ClearBuffer_def holds_def da_Clear_def da_ok_def da_list_def INT_MAX_def)

lemma holds_back_up:
  assumes "holds d s" and "(length s + length t + 1) * 2 \<le> INT_MAX"
  shows "\<exists>d'. back_up (length t) (t @ [NUL]) d = Inr d' \<and> holds d' (s @ t)"
proof -
  have n: "da_size d = length s + 1" using holds_size [OF assms(1)] .
  obtain d1 where d1: "EnsureCapacity (da_size d + length t) d = Inr d1" "da_list d1 = da_list d" "da_size d1 = da_size d"
    "da_size d + length t \<le> length (da_mem d1)"
    using EnsureCapacity_ok [of d "da_size d + length t"] assms n by (auto simp: holds_def da_Capacity_def)
  have "take (length s) (da_mem d1) = take (length s) (da_list d1)"
    using d1(3) n by (simp add: da_list_def min_def)
  also have "\<dots> = map Some s" using assms(1) d1(2) by (simp add: holds_def)
  finally have s: "take (length s) (da_mem d1) = map Some s" .
  let ?m = "take (length s) (da_mem d1) @ map Some (t @ [NUL]) @ drop (length s + length (t @ [NUL])) (da_mem d1)"
  have "back_up (length t) (t @ [NUL]) d = Inr (d1\<lparr>da_size := da_size d + length t, da_mem := ?m\<rparr>)"
    using d1 n by (simp add: back_up_def PushArr_def da_store_def)
  moreover have "holds (d1\<lparr>da_size := da_size d + length t, da_mem := ?m\<rparr>) (s @ t)"
    using d1(4) n unfolding holds_def da_ok_def da_list_def s by simp
  ultimately show ?thesis by blast
qed

lemma holds_Write: "holds d s \<Longrightarrow> (length s + length t + 1) * 2 \<le> INT_MAX \<Longrightarrow> \<exists>d'. buf_Write t d = Inr d' \<and> holds d' (s @ t)"
  using holds_back_up [of d s t] by (simp add: buf_Write_def)

lemma holds_Print: "holds d s \<Longrightarrow> (length s + length t + 1) * 2 \<le> INT_MAX \<Longrightarrow> \<exists>d'. buf_Print t d = Inr d' \<and> holds d' (s @ t)"
  using holds_back_up [of d s t] by (simp add: buf_Print_def)

lemma holds_Putc: "holds d s \<Longrightarrow> (length s + 2) * 2 \<le> INT_MAX \<Longrightarrow> \<exists>d'. buf_Putc c d = Inr d' \<and> holds d' (s @ [c])"
  using holds_back_up [of d s "[c]"] by (simp add: buf_Putc_def)

lemma holds_PrintSpace:
  "holds d s \<Longrightarrow> (length s + 4 * n + 1) * 2 \<le> INT_MAX \<Longrightarrow>
   \<exists>d'. buf_PrintSpace n d = Inr d' \<and> holds d' (s @ replicate (4 * n) (CHR '' ''))"
proof (induction n arbitrary: d s)
  case (Suc n)
  obtain d1 where d1: "buf_Write ''    '' d = Inr d1" "holds d1 (s @ ''    '')"
    using holds_Write [OF Suc.prems(1), of "''    ''"] Suc.prems(2) by auto
  have "\<exists>d'. buf_PrintSpace n d1 = Inr d' \<and> holds d' ((s @ ''    '') @ replicate (4 * n) (CHR '' ''))"
    using Suc.prems(2) by (intro Suc.IH [OF d1(2)]) simp
  with d1(1) show ?case by (simp add: numeral_eq_Suc)
qed simp

lemma read_cstr_text: "NUL \<notin> set s \<Longrightarrow> read_cstr (map Some s @ Some NUL # m) = Inr s"
  by (induction s) auto

lemma holds_CStr: "holds d s \<Longrightarrow> NUL \<notin> set s \<Longrightarrow> CStr d = Inr s \<and> CStrSize d = length s + 1"
proof -
  assume h: "holds d s" "NUL \<notin> set s"
  then have "da_mem d = map Some s @ Some NUL # drop (da_size d) (da_mem d)"
    using append_take_drop_id [of "da_size d" "da_mem d"] by (simp add: holds_def da_list_def)
  from arg_cong [OF this, of read_cstr] show ?thesis
    using read_cstr_text [OF h(2)] holds_size [OF h(1)] by (simp add: CStr_def CStrSize_def)
qed

section \<open>The two outputs of the printer\<close>

text \<open>What the operations of the printer do to their output.\<close>

datatype print_op = Out_write string | Out_char char | Out_space int

fun to_file :: "print_op \<Rightarrow> xml_printer \<Rightarrow> xml_printer" where
  "to_file (Out_write s) = Write s"
| "to_file (Out_char c) = Putc c"
| "to_file (Out_space n) = PrintSpace n"

fun to_buffer :: "print_op \<Rightarrow> char dyn_array \<Rightarrow> fault + char dyn_array" where
  "to_buffer (Out_write s) = buf_Write s"
| "to_buffer (Out_char c) = buf_Putc c"
| "to_buffer (Out_space n) = buf_PrintSpace (nat n)"

fun all_to_buffer :: "print_op list \<Rightarrow> char dyn_array \<Rightarrow> fault + char dyn_array" where
  "all_to_buffer [] d = Inr d"
| "all_to_buffer (c # cs) d = sbind (to_buffer c d) (all_to_buffer cs)"

fun out_text :: "print_op \<Rightarrow> string" where
  "out_text (Out_write s) = s"
| "out_text (Out_char c) = [c]"
| "out_text (Out_space n) = replicate (4 * nat n) (CHR '' '')"

lemma PrintSpace_out: "pr_out (PrintSpace n pr) = pr_out pr @ replicate (4 * nat n) (CHR '' '')"
proof -
  have "pr_out ((Write ''    '' ^^ k) pr) = pr_out pr @ replicate (4 * k) (CHR '' '')" for k
    by (induction k) (simp_all add: Write_def replicate_append_same numeral_eq_Suc flip: replicate_append_same)
  then show ?thesis by (simp add: PrintSpace_def)
qed

lemma to_file_out: "pr_out (to_file c pr) = pr_out pr @ out_text c"
  by (cases c) (simp_all add: Write_def Putc_def PrintSpace_out)

lemma all_to_file_out: "pr_out (fold to_file cs pr) = pr_out pr @ concat (map out_text cs)"
  by (induction cs arbitrary: pr) (simp_all add: to_file_out)

lemma holds_to_buffer:
  "holds d s \<Longrightarrow> (length s + length (out_text c) + 1) * 2 \<le> INT_MAX \<Longrightarrow> \<exists>d'. to_buffer c d = Inr d' \<and> holds d' (s @ out_text c)"
  by (cases c) (simp_all add: holds_Write holds_Putc holds_PrintSpace)

lemma holds_all:
  "holds d s \<Longrightarrow> (length s + length (concat (map out_text cs)) + 1) * 2 \<le> INT_MAX \<Longrightarrow>
   \<exists>d'. all_to_buffer cs d = Inr d' \<and> holds d' (s @ concat (map out_text cs))"
proof (induction cs arbitrary: d s)
  case (Cons c cs)
  obtain d1 where d1: "to_buffer c d = Inr d1" "holds d1 (s @ out_text c)"
    using holds_to_buffer [OF Cons.prems(1), of c] Cons.prems(2) by auto
  have "\<exists>d'. all_to_buffer cs d1 = Inr d' \<and> holds d' ((s @ out_text c) @ concat (map out_text cs))"
    using Cons.prems(2) by (intro Cons.IH [OF d1(2)]) simp
  with d1(1) show ?case by simp
qed simp

text \<open>
  C37: Printing to memory is printing to a file: whatever a printer puts out, in a new buffer or in one that was cleared,
  \<open>CStr\<close> reads what the file would have got, \<open>CStrSize\<close> counts it and the zero character, and nothing is
  written outside of the array or read before it is written.
\<close>

theorem print_to_memory:
  assumes "pr_out (fold to_file cs (XMLPrinter compact depth)) = s" and "NUL \<notin> set s" and "(length s + 1) * 2 \<le> INT_MAX"
  shows "\<exists>d d'. sbind new_buffer (all_to_buffer cs) = Inr d \<and> CStr d = Inr s \<and> CStrSize d = length s + 1 \<and>
    sbind (ClearBuffer used) (all_to_buffer cs) = Inr d' \<and> CStr d' = Inr s \<and> CStrSize d' = length s + 1"
proof -
  have s: "concat (map out_text cs) = s" using assms(1) by (simp add: all_to_file_out XMLPrinter_def)
  have *: "\<exists>d. all_to_buffer cs d0 = Inr d \<and> CStr d = Inr s \<and> CStrSize d = length s + 1" if h: "holds d0 []" for d0
  proof -
    obtain d where "all_to_buffer cs d0 = Inr d" "holds d s"
      using holds_all [OF h, of cs] assms(3) unfolding s by auto
    with holds_CStr [of d s] assms(2) show ?thesis by blast
  qed
  obtain d0 d1 where new: "new_buffer = Inr d0" "holds d0 []" "ClearBuffer used = Inr d1" "holds d1 []"
    using holds_new holds_clear [of used] by blast
  from * [OF new(2)] * [OF new(4)] show ?thesis unfolding new(1,3) sbind_simps by blast
qed

theorem print_to_memory_witness:
  "\<exists>d. sbind new_buffer (all_to_buffer [Out_char (CHR ''<''), Out_write ''a'', Out_space 1, Out_write ''/>'']) = Inr d \<and>
    CStr d = Inr ''<a    />''"
proof -
  let ?cs = "[Out_char (CHR ''<''), Out_write ''a'', Out_space 1, Out_write ''/>'']"
  have "pr_out (fold to_file ?cs (XMLPrinter True 0)) = ''<a    />''"
    by (simp add: XMLPrinter_def Write_def Putc_def PrintSpace_out)
      (simp add: eval_nat_numeral)
  moreover have "NUL \<notin> set ''<a    />''" "(length ''<a    />'' + 1) * 2 \<le> INT_MAX" by (simp_all add: NUL_def INT_MAX_def)
  ultimately show ?thesis
    using print_to_memory [of ?cs True 0 "''<a    />''"] by blast
qed

end
