(* ===== verification/Xml_Strings.thy ===== *)
theory Xml_Strings
  imports Xml_Text
begin

text \<open>
  Who owns the characters of a \<open>StrPair\<close> (\<^verbatim>\<open>server/tinyxml2.cpp\<close>): its pointers are into a text that belongs to somebody
  else, or to an array of its own that it must delete.  The text between the pointers is modelled in \<open>Xml_Text\<close>.
\<close>

section \<open>Pairs and arrays\<close>

text \<open>
  A pointer is a block and an index in it.  A block has its characters until it is deleted; \<open>new\<close> returns the block
  \<open>sm_next\<close>.  The flags are \<open>NEEDS_FLUSH\<close>, \<open>NEEDS_DELETE\<close> and the others.
\<close>

type_synonym str_ptr = "nat \<times> nat"

record str_obj =
  so_flush :: bool
  so_delete :: bool
  so_mode :: str_flags
  so_start :: "str_ptr option"
  so_end :: "str_ptr option"

record str_mem =
  sm_heap :: "nat \<Rightarrow> string option"
  sm_next :: nat
  sm_obj :: "nat \<Rightarrow> str_obj"

definition StrPair :: str_obj where
  "StrPair = \<lparr>so_flush = False, so_delete = False, so_mode = ATTRIBUTE_NAME, so_start = None, so_end = None\<rparr>"

definition so_put :: "nat \<Rightarrow> str_obj \<Rightarrow> str_mem \<Rightarrow> str_mem" where
  "so_put i p s = s\<lparr>sm_obj := (sm_obj s)(i := p)\<rparr>"

text \<open>\<open>delete []\<close> takes a null pointer or the start of an array that is not deleted; \<open>strlen\<close> and \<open>memcpy\<close> read a string.\<close>

definition delete_array :: "str_ptr option \<Rightarrow> str_mem \<Rightarrow> fault + str_mem" where
  "delete_array p s =
     (case p of
        None \<Rightarrow> Inr s
      | Some (b, off) \<Rightarrow>
          if off \<noteq> 0 \<or> sm_heap s b = None then Inl Use_after_free else Inr (s\<lparr>sm_heap := (sm_heap s)(b := None)\<rparr>))"

definition read_string :: "str_ptr \<Rightarrow> str_mem \<Rightarrow> fault + string" where
  "read_string p s =
     (case sm_heap s (fst p) of
        None \<Rightarrow> Inl Use_after_free
      | Some t \<Rightarrow> if snd p \<le> length t then Inr (cstr (drop (snd p) t)) else Inl Overread)"

definition Reset :: "nat \<Rightarrow> str_mem \<Rightarrow> fault + str_mem" where
  "Reset i s =
     sbind (if so_delete (sm_obj s i) then delete_array (so_start (sm_obj s i)) s else Inr s) (\<lambda>s. Inr (so_put i StrPair s))"

definition Set_range :: "nat \<Rightarrow> str_ptr \<Rightarrow> str_ptr \<Rightarrow> str_flags \<Rightarrow> str_mem \<Rightarrow> fault + str_mem" where
  "Set_range i start ending flags s =
     sbind (Reset i s) (\<lambda>s.
       Inr (so_put i \<lparr>so_flush = True, so_delete = False, so_mode = flags, so_start = Some start, so_end = Some ending\<rparr> s))"

definition SetInternedStr :: "nat \<Rightarrow> str_ptr \<Rightarrow> str_mem \<Rightarrow> fault + str_mem" where
  "SetInternedStr i str s = sbind (Reset i s) (\<lambda>s. Inr (so_put i ((sm_obj s i)\<lparr>so_start := Some str\<rparr>) s))"

definition SetStr_mem :: "nat \<Rightarrow> str_ptr \<Rightarrow> str_flags \<Rightarrow> str_mem \<Rightarrow> fault + str_mem" where
  "SetStr_mem i str flags s =
     sbind (Reset i s) (\<lambda>s.
       sbind (read_string str s) (\<lambda>t.
         let b = sm_next s;
             s = s\<lparr>sm_heap := (sm_heap s)(b := Some t), sm_next := b + 1\<rparr>
         in Inr (so_put i
              \<lparr>so_flush = False, so_delete = True, so_mode = flags, so_start = Some (b, 0), so_end = Some (b, length t)\<rparr> s)))"

definition TransferTo :: "nat \<Rightarrow> nat \<Rightarrow> str_mem \<Rightarrow> fault + str_mem" where
  "TransferTo this other s =
     (if this = other then Inr s
      else sbind (Reset other s) (\<lambda>s. Inr (so_put this StrPair (so_put other (sm_obj s this) s))))"

definition so_Empty :: "str_obj \<Rightarrow> bool" where
  "so_Empty p \<longleftrightarrow> so_start p = so_end p"

text \<open>A new value for a node: as a static string, or copied.\<close>

definition SetValue_mem :: "nat \<Rightarrow> str_ptr \<Rightarrow> bool \<Rightarrow> str_mem \<Rightarrow> fault + str_mem" where
  "SetValue_mem i str staticMem s = (if staticMem then SetInternedStr i str s else SetStr_mem i str ATTRIBUTE_NAME s)"

section \<open>Every array has one owner\<close>

definition owner :: "str_mem \<Rightarrow> nat \<Rightarrow> nat \<Rightarrow> bool" where
  "owner s b i \<longleftrightarrow> so_delete (sm_obj s i) \<and> so_start (sm_obj s i) = Some (b, 0)"

text \<open>
  \<open>h\<close> is the memory of the callers, below the block \<open>n\<close>.  It does not change; the arrays from \<open>n\<close> on are those of the pairs.
\<close>

definition owned :: "(nat \<Rightarrow> string option) \<Rightarrow> nat \<Rightarrow> str_mem \<Rightarrow> bool" where
  "owned h n s \<longleftrightarrow>
     n \<le> sm_next s \<and> (\<forall>b<n. sm_heap s b = h b) \<and> (\<forall>b. sm_next s \<le> b \<longrightarrow> sm_heap s b = None) \<and>
     (\<forall>i. so_delete (sm_obj s i) \<longrightarrow> (\<exists>b. so_start (sm_obj s i) = Some (b, 0) \<and> n \<le> b \<and> sm_heap s b \<noteq> None)) \<and>
     (\<forall>b i j. owner s b i \<longrightarrow> owner s b j \<longrightarrow> i = j) \<and>
     (\<forall>b. n \<le> b \<longrightarrow> sm_heap s b \<noteq> None \<longrightarrow> (\<exists>i. owner s b i))"

lemma owned_pair:
  assumes "owned h n s" and "so_delete (sm_obj s i)"
  shows "\<exists>b. so_start (sm_obj s i) = Some (b, 0) \<and> owner s b i \<and> n \<le> b \<and> b < sm_next s \<and> sm_heap s b \<noteq> None"
proof -
  obtain b where "so_start (sm_obj s i) = Some (b, 0)" "n \<le> b" "sm_heap s b \<noteq> None"
    using assms unfolding owned_def by metis
  moreover from this(3) have "b < sm_next s" using assms(1) unfolding owned_def by (meson not_le)
  ultimately show ?thesis using assms(2) by (simp add: owner_def)
qed

lemma owned_unique: "owned h n s \<Longrightarrow> owner s b i \<Longrightarrow> owner s b j \<Longrightarrow> i = j"
  unfolding owned_def by blast

lemma owned_live: "owned h n s \<Longrightarrow> n \<le> b \<Longrightarrow> sm_heap s b \<noteq> None \<Longrightarrow> \<exists>i. owner s b i"
  unfolding owned_def by blast

lemma Reset_ok:
  assumes "owned h n s"
  shows "\<exists>s'. Reset i s = Inr s' \<and> owned h n s' \<and> sm_obj s' = (sm_obj s)(i := StrPair) \<and> sm_next s' = sm_next s"
proof (cases "so_delete (sm_obj s i)")
  case False
  have own: "owner (so_put i StrPair s) b j \<longleftrightarrow> owner s b j" for b j
    using False by (auto simp: owner_def so_put_def StrPair_def)
  have "owned h n (so_put i StrPair s)"
    using assms unfolding owned_def own by (auto simp: so_put_def StrPair_def)
  with False show ?thesis by (simp add: Reset_def so_put_def)
next
  case True
  then obtain b where b: "so_start (sm_obj s i) = Some (b, 0)" "owner s b i" "n \<le> b" "sm_heap s b \<noteq> None"
    using owned_pair [OF assms] by blast
  let ?s = "so_put i StrPair (s\<lparr>sm_heap := (sm_heap s)(b := None)\<rparr>)"
  have own: "owner ?s c j \<longleftrightarrow> owner s c j \<and> j \<noteq> i" for c j
    by (simp add: owner_def so_put_def StrPair_def)
  have 1: "\<exists>c. so_start (sm_obj ?s j) = Some (c, 0) \<and> n \<le> c \<and> sm_heap ?s c \<noteq> None" if "so_delete (sm_obj ?s j)" for j
  proof -
    have j: "j \<noteq> i" "so_delete (sm_obj s j)" using that by (auto simp: so_put_def StrPair_def split: if_splits)
    obtain c where c: "so_start (sm_obj s j) = Some (c, 0)" "owner s c j" "n \<le> c" "sm_heap s c \<noteq> None"
      using owned_pair [OF assms j(2)] by blast
    then have "c \<noteq> b" using owned_unique [OF assms b(2)] j(1) by blast
    with c j(1) show ?thesis by (simp add: so_put_def)
  qed
  have 2: "\<exists>j. owner ?s c j" if nc: "n \<le> c" "sm_heap ?s c \<noteq> None" for c
  proof -
    have c: "c \<noteq> b" "sm_heap s c \<noteq> None" using nc(2) by (auto simp: so_put_def split: if_splits)
    obtain j where "owner s c j" using owned_live [OF assms nc(1) c(2)] by blast
    moreover from this have "j \<noteq> i" using c(1) b(1) by (auto simp: owner_def)
    ultimately show ?thesis using own by blast
  qed
  have "owned h n ?s"
    using assms b(3) 1 2 unfolding owned_def own by (auto simp: so_put_def)
  with True b show ?thesis by (simp add: Reset_def delete_array_def so_put_def)
qed

lemma Reset_heap:
  assumes "owned h n s" and "Reset i s = Inr s'"
  shows "sm_heap s' b = (if owner s b i then None else sm_heap s b)"
proof (cases "so_delete (sm_obj s i)")
  case False
  then show ?thesis using assms(2) by (auto simp: Reset_def owner_def so_put_def)
next
  case True
  then obtain c where "so_start (sm_obj s i) = Some (c, 0)" "sm_heap s c \<noteq> None"
    using owned_pair [OF assms(1)] by blast
  with True show ?thesis using assms(2) by (auto simp: Reset_def delete_array_def owner_def so_put_def)
qed

text \<open>A pair that owns nothing takes what is not to be deleted.\<close>

lemma owned_put:
  assumes "owned h n s" and "\<not> so_delete (sm_obj s i)" and "\<not> so_delete p"
  shows "owned h n (so_put i p s)"
proof -
  have own: "owner (so_put i p s) b j \<longleftrightarrow> owner s b j" for b j
    using assms(2,3) by (auto simp: owner_def so_put_def)
  show ?thesis using assms unfolding owned_def own by (auto simp: so_put_def)
qed

lemma StrPair_owns [simp]: "\<not> so_delete StrPair"
  by (simp add: StrPair_def)

lemma Set_range_ok:
  assumes "owned h n s"
  shows "\<exists>s'. Set_range i p q flags s = Inr s' \<and> owned h n s' \<and> (\<forall>j. so_delete (sm_obj s' j) \<longleftrightarrow> so_delete (sm_obj s j) \<and> j \<noteq> i)"
proof -
  obtain s1 where s1: "Reset i s = Inr s1" "owned h n s1" "sm_obj s1 = (sm_obj s)(i := StrPair)"
    using Reset_ok [OF assms] by blast
  let ?p = "\<lparr>so_flush = True, so_delete = False, so_mode = flags, so_start = Some p, so_end = Some q\<rparr>"
  have "owned h n (so_put i ?p s1)" using s1(2,3) by (intro owned_put) simp_all
  with s1 show ?thesis by (simp add: Set_range_def so_put_def)
qed

lemma SetInternedStr_ok:
  assumes "owned h n s"
  shows "\<exists>s'. SetInternedStr i p s = Inr s' \<and> owned h n s' \<and> (\<forall>j. so_delete (sm_obj s' j) \<longleftrightarrow> so_delete (sm_obj s j) \<and> j \<noteq> i)"
proof -
  obtain s1 where s1: "Reset i s = Inr s1" "owned h n s1" "sm_obj s1 = (sm_obj s)(i := StrPair)"
    using Reset_ok [OF assms] by blast
  have "owned h n (so_put i ((sm_obj s1 i)\<lparr>so_start := Some p\<rparr>) s1)" using s1(2,3) by (intro owned_put) simp_all
  with s1 show ?thesis by (simp add: SetInternedStr_def so_put_def)
qed

text \<open>
  What can be copied to the pair \<open>i\<close>: a string in memory that is there, of the callers or of a pair, but not in the
  pair's own array.
\<close>

definition copyable :: "nat \<Rightarrow> str_ptr \<Rightarrow> str_mem \<Rightarrow> bool" where
  "copyable i p s \<longleftrightarrow>
     (case sm_heap s (fst p) of None \<Rightarrow> False | Some t \<Rightarrow> snd p \<le> length t) \<and> \<not> owner s (fst p) i"

lemma owned_new:
  assumes "owned h n s" and "\<not> so_delete (sm_obj s i)" and "so_delete p" and "so_start p = Some (sm_next s, 0)"
  shows "owned h n (so_put i p (s\<lparr>sm_heap := (sm_heap s)(sm_next s := Some t), sm_next := sm_next s + 1\<rparr>))"
    (is "owned h n ?s")
proof -
  have less: "b < sm_next s" if "owner s b j" for b j
    using owned_pair [OF assms(1), of j] that by (auto simp: owner_def)
  have own: "owner ?s b j \<longleftrightarrow> owner s b j \<or> j = i \<and> b = sm_next s" for b j
    using assms(2-4) by (auto simp: owner_def so_put_def)
  have 1: "\<exists>c. so_start (sm_obj ?s j) = Some (c, 0) \<and> n \<le> c \<and> sm_heap ?s c \<noteq> None" if j: "so_delete (sm_obj ?s j)" for j
  proof (cases "j = i")
    case True
    with assms(1,4) show ?thesis by (simp add: so_put_def owned_def)
  next
    case False
    then have "so_delete (sm_obj s j)" using j by (simp add: so_put_def)
    then obtain b where "so_start (sm_obj s j) = Some (b, 0)" "n \<le> b" "b < sm_next s" "sm_heap s b \<noteq> None"
      using owned_pair [OF assms(1)] by blast
    with False show ?thesis by (intro exI [of _ b]) (simp add: so_put_def)
  qed
  have 2: "\<exists>j. owner ?s c j" if "n \<le> c" "sm_heap ?s c \<noteq> None" for c
    using that owned_live [OF assms(1) that(1)] unfolding own by (cases "c = sm_next s") (auto simp: so_put_def)
  have 3: "j = k" if "owner ?s c j" "owner ?s c k" for c j k
    using that owned_unique [OF assms(1), of c j k] less unfolding own by blast
  show ?thesis
    unfolding owned_def
  proof (intro conjI allI impI)
    show "n \<le> sm_next ?s" using assms(1) by (simp add: so_put_def owned_def)
    show "sm_heap ?s b = h b" if "b < n" for b using assms(1) that by (simp add: so_put_def owned_def)
    show "sm_heap ?s b = None" if "sm_next ?s \<le> b" for b using assms(1) that by (simp add: so_put_def owned_def)
  qed (use 1 2 3 in blast)+
qed

lemma SetStr_mem_ok:
  assumes "owned h n s" and "copyable i p s"
  shows "\<exists>s'. SetStr_mem i p flags s = Inr s' \<and> owned h n s' \<and> (\<forall>j. so_delete (sm_obj s' j) \<longleftrightarrow> so_delete (sm_obj s j) \<or> j = i)"
proof -
  obtain s1 where s1: "Reset i s = Inr s1" "owned h n s1" "sm_obj s1 = (sm_obj s)(i := StrPair)"
    using Reset_ok [OF assms(1)] by blast
  have "sm_heap s1 (fst p) = sm_heap s (fst p)"
    using Reset_heap [OF assms(1) s1(1)] assms(2) by (simp add: copyable_def)
  then obtain t where t: "read_string p s1 = Inr t"
    using assms(2) by (auto simp: read_string_def copyable_def split: option.splits)
  let ?p = "\<lparr>so_flush = False, so_delete = True, so_mode = flags, so_start = Some (sm_next s1, 0), so_end = Some (sm_next s1, length t)\<rparr>"
  have "owned h n (so_put i ?p (s1\<lparr>sm_heap := (sm_heap s1)(sm_next s1 := Some t), sm_next := sm_next s1 + 1\<rparr>))"
    using s1(2,3) by (intro owned_new) simp_all
  with s1 t show ?thesis by (simp add: SetStr_mem_def so_put_def Let_def)
qed

lemma SetStr_mem_fault:
  assumes "owned h n s" and "\<not> copyable i p s"
  shows "SetStr_mem i p flags s \<in> {Inl Use_after_free, Inl Overread}"
proof -
  obtain s1 where s1: "Reset i s = Inr s1" using Reset_ok [OF assms(1)] by blast
  have "read_string p s1 \<in> {Inl Use_after_free, Inl Overread}"
    using Reset_heap [OF assms(1) s1, of "fst p"] assms(2)
    by (auto simp: read_string_def copyable_def split: option.splits if_splits)
  with s1 show ?thesis by (auto simp: SetStr_mem_def)
qed

lemma TransferTo_ok:
  assumes "owned h n s"
  shows "\<exists>s'. TransferTo i k s = Inr s' \<and> owned h n s' \<and>
    (\<forall>j. so_delete (sm_obj s' j) \<longrightarrow> so_delete (sm_obj s j) \<or> j = k) \<and> (i \<noteq> k \<longrightarrow> sm_obj s' k = sm_obj s i \<and> sm_obj s' i = StrPair)"
proof (cases "i = k")
  case False
  obtain s1 where s1: "Reset k s = Inr s1" "owned h n s1" "sm_obj s1 = (sm_obj s)(k := StrPair)"
    using Reset_ok [OF assms] by blast
  let ?s = "so_put i StrPair (so_put k (sm_obj s1 i) s1)"
  have own: "owner ?s b j \<longleftrightarrow> (if j = k then owner s1 b i else j \<noteq> i \<and> owner s1 b j)" for b j
    using False by (auto simp: owner_def so_put_def)
  have k: "\<not> owner s1 b k" for b using s1(3) by (simp add: owner_def)
  have 1: "\<exists>c. so_start (sm_obj ?s j) = Some (c, 0) \<and> n \<le> c \<and> sm_heap ?s c \<noteq> None" if j: "so_delete (sm_obj ?s j)" for j
    using j owned_pair [OF s1(2), of j] owned_pair [OF s1(2), of i] by (auto simp: so_put_def split: if_splits)
  have 2: "\<exists>j. owner ?s c j" if c: "n \<le> c" "sm_heap ?s c \<noteq> None" for c
  proof -
    obtain j where "owner s1 c j" using owned_live [OF s1(2), of c] c by (auto simp: so_put_def)
    then have "owner ?s c (if j = i then k else j)" using k [of c] unfolding own by (cases "j = k") auto
    then show ?thesis by blast
  qed
  have 3: "j = l" if "owner ?s c j" "owner ?s c l" for c j l
    using that owned_unique [OF s1(2), of c] unfolding own by (metis (full_types))
  have "owned h n ?s"
    unfolding owned_def
  proof (intro conjI allI impI)
    show "n \<le> sm_next ?s" using s1(2) by (simp add: so_put_def owned_def)
    show "sm_heap ?s b = h b" if "b < n" for b using s1(2) that by (simp add: so_put_def owned_def)
    show "sm_heap ?s b = None" if "sm_next ?s \<le> b" for b using s1(2) that by (simp add: so_put_def owned_def)
  qed (use 1 2 3 in blast)+
  with False s1 show ?thesis by (simp add: TransferTo_def so_put_def)
next
  case True
  with assms show ?thesis by (simp add: TransferTo_def)
qed

section \<open>Whole runs\<close>

text \<open>What the document does with its pairs; \<open>below\<close> is the number of pairs there are.\<close>

datatype str_op =
    Op_set nat str_ptr str_ptr str_flags
  | Op_interned nat str_ptr
  | Op_copy nat str_ptr str_flags
  | Op_transfer nat nat
  | Op_reset nat

fun do_str :: "str_op \<Rightarrow> str_mem \<Rightarrow> fault + str_mem" where
  "do_str (Op_set i p q flags) = Set_range i p q flags"
| "do_str (Op_interned i p) = SetInternedStr i p"
| "do_str (Op_copy i p flags) = SetStr_mem i p flags"
| "do_str (Op_transfer i j) = TransferTo i j"
| "do_str (Op_reset i) = Reset i"

fun do_strs :: "str_op list \<Rightarrow> str_mem \<Rightarrow> fault + str_mem" where
  "do_strs [] s = Inr s"
| "do_strs (c # cs) s = sbind (do_str c s) (do_strs cs)"

fun targets :: "str_op \<Rightarrow> nat list" where
  "targets (Op_set i p q flags) = [i]"
| "targets (Op_interned i p) = [i]"
| "targets (Op_copy i p flags) = [i]"
| "targets (Op_transfer i j) = [i, j]"
| "targets (Op_reset i) = [i]"

fun source_ok :: "str_op \<Rightarrow> str_mem \<Rightarrow> bool" where
  "source_ok (Op_copy i p flags) s = copyable i p s"
| "source_ok _ s = True"

text \<open>Whether every copy of a run finds what it copies, when its turn comes.\<close>

fun well_sourced :: "str_op list \<Rightarrow> str_mem \<Rightarrow> bool" where
  "well_sourced [] s = True"
| "well_sourced (c # cs) s = (source_ok c s \<and> (case do_str c s of Inl e \<Rightarrow> False | Inr s' \<Rightarrow> well_sourced cs s'))"

lemma do_str_ok:
  assumes "owned h n s" and "source_ok c s"
  shows "\<exists>s'. do_str c s = Inr s' \<and> owned h n s' \<and>
    (\<forall>j. so_delete (sm_obj s' j) \<longrightarrow> so_delete (sm_obj s j) \<or> j \<in> set (targets c))"
proof (cases c)
  case (Op_set i p q flags)
  with Set_range_ok [OF assms(1), of i p q flags] show ?thesis by auto
next
  case (Op_interned i p)
  with SetInternedStr_ok [OF assms(1), of i p] show ?thesis by auto
next
  case (Op_copy i p flags)
  with SetStr_mem_ok [OF assms(1), of i p flags] assms(2) show ?thesis by auto
next
  case (Op_transfer i j)
  with TransferTo_ok [OF assms(1), of i j] show ?thesis by auto
next
  case (Op_reset i)
  obtain s' where "Reset i s = Inr s'" "owned h n s'" "sm_obj s' = (sm_obj s)(i := StrPair)"
    using Reset_ok [OF assms(1)] by blast
  with Op_reset show ?thesis by auto
qed

lemma do_str_fault:
  assumes "owned h n s" and "\<not> source_ok c s"
  shows "do_str c s \<in> {Inl Use_after_free, Inl Overread}"
  using assms SetStr_mem_fault by (cases c) auto

lemma do_strs_ok:
  assumes "owned h n s" and "well_sourced cs s"
  shows "\<exists>s'. do_strs cs s = Inr s' \<and> owned h n s' \<and>
    (\<forall>j. so_delete (sm_obj s' j) \<longrightarrow> so_delete (sm_obj s j) \<or> (\<exists>c\<in>set cs. j \<in> set (targets c)))"
  using assms
proof (induction cs arbitrary: s)
  case (Cons c cs)
  obtain s1 where s1: "do_str c s = Inr s1" "owned h n s1"
      "\<forall>j. so_delete (sm_obj s1 j) \<longrightarrow> so_delete (sm_obj s j) \<or> j \<in> set (targets c)"
    using do_str_ok [OF Cons.prems(1), of c] Cons.prems(2) by auto
  obtain s2 where "do_strs cs s1 = Inr s2" "owned h n s2"
      "\<forall>j. so_delete (sm_obj s2 j) \<longrightarrow> so_delete (sm_obj s1 j) \<or> (\<exists>c\<in>set cs. j \<in> set (targets c))"
    using Cons.IH [OF s1(2)] Cons.prems(2) s1(1) by auto
  with s1(1,3) show ?case by auto
qed simp

lemma do_strs_fault:
  "owned h n s \<Longrightarrow> \<not> well_sourced cs s \<Longrightarrow> do_strs cs s \<in> {Inl Use_after_free, Inl Overread}"
proof (induction cs arbitrary: s)
  case (Cons c cs)
  show ?case
  proof (cases "source_ok c s")
    case False
    with do_str_fault [OF Cons.prems(1)] show ?thesis by force
  next
    case True
    obtain s1 where "do_str c s = Inr s1" "owned h n s1" using do_str_ok [OF Cons.prems(1) True] by blast
    with True Cons.IH [of s1] Cons.prems(2) show ?thesis by simp
  qed
qed simp

lemma reset_all_ok:
  "owned h n s \<Longrightarrow> \<exists>s'. do_strs (map Op_reset is) s = Inr s' \<and> owned h n s' \<and>
    (\<forall>j. so_delete (sm_obj s' j) \<longleftrightarrow> so_delete (sm_obj s j) \<and> j \<notin> set is)"
proof (induction "is" arbitrary: s)
  case (Cons i "is")
  obtain s1 where s1: "Reset i s = Inr s1" "owned h n s1" "sm_obj s1 = (sm_obj s)(i := StrPair)"
    using Reset_ok [OF Cons.prems] by blast
  from Cons.IH [OF s1(2)] s1(1,3) show ?case by auto
qed simp

lemma owned_start:
  "(\<And>b. n \<le> b \<Longrightarrow> h b = None) \<Longrightarrow> owned h n \<lparr>sm_heap = h, sm_next = n, sm_obj = \<lambda>i. StrPair\<rparr>"
  by (simp add: owned_def owner_def)

lemma do_strs_append: "do_strs (cs @ ds) s = sbind (do_strs cs s) (do_strs ds)"
  by (induction cs arbitrary: s) (auto simp: sbind_def split: sum.splits)

text \<open>
  C36: Over every sequence of sets, copies, transfers and resets of the \<open>k\<close> pairs of a document: exactly when each copy
  takes, at its turn, a string that is there, of the callers' memory or of another pair, and not from the own array of
  the pair it is copied to, no array is deleted twice or read behind its deletion, and when the pairs are reset all
  their arrays are gone and the memory of the callers is what it was; with any other copy the run comes to read an array
  that was deleted, or behind the end of one.
\<close>

theorem strings_never_leak:
  assumes "\<And>b. n \<le> b \<Longrightarrow> h b = None" and "list_all (\<lambda>c. list_all (\<lambda>i. i < k) (targets c)) cs"
    and "s0 = \<lparr>sm_heap = h, sm_next = n, sm_obj = \<lambda>i. StrPair\<rparr>"
  shows "if well_sourced cs s0 then \<exists>s. do_strs (cs @ map Op_reset [0..<k]) s0 = Inr s \<and> sm_heap s = h
    else do_strs (cs @ map Op_reset [0..<k]) s0 \<in> {Inl Use_after_free, Inl Overread}"
proof (cases "well_sourced cs s0")
  case False
  have "owned h n s0" using owned_start [of n h] assms(1,3) by simp
  with do_strs_fault [OF this False] False show ?thesis by (auto simp: do_strs_append)
next
  case True
  have "owned h n s0" using owned_start [of n h] assms(1,3) by simp
  then obtain s1 where s1: "do_strs cs s0 = Inr s1" "owned h n s1"
      "\<forall>j. so_delete (sm_obj s1 j) \<longrightarrow> so_delete (sm_obj s0 j) \<or> (\<exists>c\<in>set cs. j \<in> set (targets c))"
    using do_strs_ok [OF _ True] by blast
  obtain s2 where s2: "do_strs (map Op_reset [0..<k]) s1 = Inr s2" "owned h n s2"
      "\<forall>j. so_delete (sm_obj s2 j) \<longleftrightarrow> so_delete (sm_obj s1 j) \<and> j \<notin> set [0..<k]"
    using reset_all_ok [OF s1(2), of "[0..<k]"] by blast
  have "\<not> so_delete (sm_obj s2 j)" for j using s1(3) s2(3) assms(2,3) by (auto simp: list_all_iff)
  then have "\<not> owner s2 b j" for b j by (simp add: owner_def)
  then have "sm_heap s2 b = h b" for b
    using owned_live [OF s2(2), of b] s2(2) assms(1) [of b] by (cases "n \<le> b") (auto simp: owned_def)
  with True s1(1) s2(1) show ?thesis by (auto simp: do_strs_append)
qed

text \<open>Copies of a string of the caller and of another pair's array; and of an array that was given back.\<close>

definition copy_of_copy :: "str_op list" where
  "copy_of_copy = [Op_copy 0 (0, 1) ATTRIBUTE_NAME, Op_copy 1 (1, 0) ATTRIBUTE_NAME, Op_transfer 0 2, Op_interned 0 (0, 0)]"

theorem strings_never_leak_witness:
  "(\<exists>s. do_strs (copy_of_copy @ map Op_reset [0..<3]) \<lparr>sm_heap = [0 \<mapsto> ''name''], sm_next = 1, sm_obj = \<lambda>i. StrPair\<rparr> = Inr s \<and>
     sm_heap s = [0 \<mapsto> ''name'']) \<and>
   do_strs ((copy_of_copy @ [Op_reset 1, Op_copy 0 (2, 0) ATTRIBUTE_NAME]) @ map Op_reset [0..<3])
     \<lparr>sm_heap = [0 \<mapsto> ''name''], sm_next = 1, sm_obj = \<lambda>i. StrPair\<rparr> \<in> {Inl Use_after_free, Inl Overread}"
proof -
  let ?s = "\<lparr>sm_heap = [0 \<mapsto> ''name''], sm_next = 1, sm_obj = \<lambda>i. StrPair\<rparr>"
  let ?bad = "copy_of_copy @ [Op_reset 1, Op_copy 0 (2, 0) ATTRIBUTE_NAME]"
  note run = copy_of_copy_def copyable_def owner_def SetStr_mem_def Reset_def StrPair_def so_put_def read_string_def
    Let_def TransferTo_def SetInternedStr_def delete_array_def cstr_def
  have "well_sourced copy_of_copy ?s" "\<not> well_sourced ?bad ?s" by (simp_all add: run)
  then show ?thesis
    using strings_never_leak [of 1 "[0 \<mapsto> ''name'']" 3 copy_of_copy ?s]
      strings_never_leak [of 1 "[0 \<mapsto> ''name'']" 3 ?bad ?s]
    by (simp add: copy_of_copy_def)
qed

text \<open>
  \<open>SetStr\<close> deletes the old string before it reads the new one: giving a pair its own string, such as the value of
  an attribute that was read from it, reads what was just deleted.
\<close>

lemma own_string_read_after_delete:
  assumes "owned h n s" and "owner s b i"
  shows "SetStr_mem i (b, off) flags s = Inl Use_after_free"
proof -
  have "so_delete (sm_obj s i)" "so_start (sm_obj s i) = Some (b, 0)" "sm_heap s b \<noteq> None"
    using assms owned_pair [OF assms(1), of i] by (auto simp: owner_def)
  then show ?thesis by (auto simp: SetStr_mem_def Reset_def delete_array_def so_put_def read_string_def)
qed

end
