(* ===== verification/Xml_Access.thy ===== *)
theory Xml_Access
  imports Xml_Navigate Xml_Typed
begin

text \<open>
  Asking nodes and documents for what they are (\<^verbatim>\<open>server/tinyxml2.h\<close>): the virtual casts, the handle for constant nodes,
  the accessors of a document, and the overloaded queries of an attribute.
\<close>

section \<open>Casts\<close>

text \<open>The virtual methods \<open>ToElement\<close> and its siblings of a class: whether they return the node or null.\<close>

record casts =
  to_element :: bool
  to_text :: bool
  to_comment :: bool
  to_document :: bool
  to_declaration :: bool
  to_unknown :: bool

definition XMLNode_casts :: casts where
  "XMLNode_casts =
     \<lparr>to_element = False, to_text = False, to_comment = False, to_document = False, to_declaration = False, to_unknown = False\<rparr>"

definition XMLText_casts :: casts where "XMLText_casts = XMLNode_casts\<lparr>to_text := True\<rparr>"
definition XMLComment_casts :: casts where "XMLComment_casts = XMLNode_casts\<lparr>to_comment := True\<rparr>"
definition XMLDeclaration_casts :: casts where "XMLDeclaration_casts = XMLNode_casts\<lparr>to_declaration := True\<rparr>"
definition XMLUnknown_casts :: casts where "XMLUnknown_casts = XMLNode_casts\<lparr>to_unknown := True\<rparr>"
definition XMLElement_casts :: casts where "XMLElement_casts = XMLNode_casts\<lparr>to_element := True\<rparr>"
definition XMLDocument_casts :: casts where "XMLDocument_casts = XMLNode_casts\<lparr>to_document := True\<rparr>"

lemmas casts_defs = XMLNode_casts_def XMLText_casts_def XMLComment_casts_def XMLDeclaration_casts_def XMLUnknown_casts_def
  XMLElement_casts_def XMLDocument_casts_def

definition node_casts :: "xml_node \<Rightarrow> casts" where
  "node_casts n =
     (case n of
        XMLElement _ _ _ _ \<Rightarrow> XMLElement_casts
      | XMLText _ _ \<Rightarrow> XMLText_casts
      | XMLComment _ \<Rightarrow> XMLComment_casts
      | XMLDeclaration _ \<Rightarrow> XMLDeclaration_casts
      | XMLUnknown _ \<Rightarrow> XMLUnknown_casts)"

definition place_casts :: "place \<Rightarrow> casts" where
  "place_casts p = (case p of Document _ \<Rightarrow> XMLDocument_casts | At c \<Rightarrow> node_casts (here c))"

text \<open>A document has no value.\<close>

definition Value_at :: "place \<Rightarrow> string option" where
  "Value_at p = (if to_document (place_casts p) then None else (case p of Document _ \<Rightarrow> None | At c \<Rightarrow> Some (node_value (here c))))"

text \<open>
  Of the casts of a node exactly one is not null, and those the other operations of the library are modelled with are
  these.
\<close>

lemma one_cast:
  "length (filter (\<lambda>f. f (place_casts p)) [to_element, to_text, to_comment, to_document, to_declaration, to_unknown]) = 1"
  by (auto simp: place_casts_def node_casts_def casts_defs split: place.splits xml_node.splits)

lemma handle_casts:
  "h_ToElement h = h_node_if (\<lambda>n. to_element (node_casts n)) h" "h_ToText h = h_node_if (\<lambda>n. to_text (node_casts n)) h"
  "h_ToUnknown h = h_node_if (\<lambda>n. to_unknown (node_casts n)) h"
  "h_ToDeclaration h = h_node_if (\<lambda>n. to_declaration (node_casts n)) h"
  by (auto simp: h_ToElement_def h_ToText_def h_ToUnknown_def h_ToDeclaration_def h_node_if_def ToElementWithName_def ToText_def
      is_declaration_def node_casts_def casts_defs split: option.splits place.splits xml_node.splits)

text \<open>The pointer a user attaches to a node, null at first, which the library never follows.\<close>

definition SetUserData :: "nat \<Rightarrow> nat option \<Rightarrow> (nat \<Rightarrow> nat option) \<Rightarrow> nat \<Rightarrow> nat option" where
  "SetUserData node userData attached = attached(node := userData)"

definition GetUserData :: "nat \<Rightarrow> (nat \<Rightarrow> nat option) \<Rightarrow> nat option" where
  "GetUserData node attached = attached node"

section \<open>XMLConstHandle\<close>

definition XMLConstHandle :: "place option \<Rightarrow> handle" where
  "XMLConstHandle p = p"

definition c_FirstChild :: "handle \<Rightarrow> handle" where
  "c_FirstChild h = XMLConstHandle (case h of None \<Rightarrow> None | Some p \<Rightarrow> map_option At (FirstChild p))"

definition c_FirstChildElement :: "string option \<Rightarrow> handle \<Rightarrow> handle" where
  "c_FirstChildElement name h = XMLConstHandle (case h of None \<Rightarrow> None | Some p \<Rightarrow> map_option At (FirstChildElement_at name p))"

definition c_LastChild :: "handle \<Rightarrow> handle" where
  "c_LastChild h = XMLConstHandle (case h of None \<Rightarrow> None | Some p \<Rightarrow> map_option At (LastChild p))"

definition c_LastChildElement :: "string option \<Rightarrow> handle \<Rightarrow> handle" where
  "c_LastChildElement name h = XMLConstHandle (case h of None \<Rightarrow> None | Some p \<Rightarrow> map_option At (LastChildElement_at name p))"

definition c_PreviousSibling :: "handle \<Rightarrow> handle" where
  "c_PreviousSibling h = XMLConstHandle (sibling_of PreviousSibling h)"

definition c_PreviousSiblingElement :: "string option \<Rightarrow> handle \<Rightarrow> handle" where
  "c_PreviousSiblingElement name h = XMLConstHandle (sibling_of (PreviousSiblingElement name) h)"

definition c_NextSibling :: "handle \<Rightarrow> handle" where
  "c_NextSibling h = XMLConstHandle (sibling_of NextSibling h)"

definition c_NextSiblingElement :: "string option \<Rightarrow> handle \<Rightarrow> handle" where
  "c_NextSiblingElement name h = XMLConstHandle (sibling_of (NextSiblingElement name) h)"

definition c_cast :: "(casts \<Rightarrow> bool) \<Rightarrow> handle \<Rightarrow> xml_node option" where
  "c_cast f = h_node_if (\<lambda>n. f (node_casts n))"

definition c_ToElement :: "handle \<Rightarrow> xml_node option" where "c_ToElement = c_cast to_element"
definition c_ToText :: "handle \<Rightarrow> xml_node option" where "c_ToText = c_cast to_text"
definition c_ToUnknown :: "handle \<Rightarrow> xml_node option" where "c_ToUnknown = c_cast to_unknown"
definition c_ToDeclaration :: "handle \<Rightarrow> xml_node option" where "c_ToDeclaration = c_cast to_declaration"

text \<open>Both handles lead to the same nodes.\<close>

lemma const_handle_paths:
  "c_FirstChild = h_FirstChild" "c_FirstChildElement = h_FirstChildElement" "c_LastChild = h_LastChild"
  "c_LastChildElement = h_LastChildElement" "c_PreviousSibling = h_PreviousSibling"
  "c_PreviousSiblingElement = h_PreviousSiblingElement" "c_NextSibling = h_NextSibling"
  "c_NextSiblingElement = h_NextSiblingElement"
  by (auto simp: fun_eq_iff XMLHandle_def XMLConstHandle_def c_FirstChild_def c_FirstChildElement_def c_LastChild_def
      c_LastChildElement_def c_PreviousSibling_def c_PreviousSiblingElement_def c_NextSibling_def c_NextSiblingElement_def
      h_FirstChild_def h_FirstChildElement_def h_LastChild_def h_LastChildElement_def h_PreviousSibling_def
      h_PreviousSiblingElement_def h_NextSibling_def h_NextSiblingElement_def)

lemma const_handle_casts:
  "c_ToElement h = h_ToElement h" "c_ToText h = h_ToText h" "c_ToUnknown h = h_ToUnknown h" "c_ToDeclaration h = h_ToDeclaration h"
  by (simp_all add: c_ToElement_def c_ToText_def c_ToUnknown_def c_ToDeclaration_def c_cast_def handle_casts)

section \<open>Documents\<close>

definition HasBOM :: "xml_doc \<Rightarrow> bool" where "HasBOM d = writeBOM d"
definition SetBOM :: "bool \<Rightarrow> xml_doc \<Rightarrow> xml_doc" where "SetBOM useBOM d = d\<lparr>writeBOM := useBOM\<rparr>"
definition ProcessEntities :: "xml_doc \<Rightarrow> bool" where "ProcessEntities d = processEntities d"
definition WhitespaceMode :: "xml_doc \<Rightarrow> bool" where "WhitespaceMode d = collapseWhitespace d"
definition ErrorID :: "xml_doc \<Rightarrow> xml_error" where "ErrorID d = errorID d"
definition ErrorLineNum :: "xml_doc \<Rightarrow> nat" where "ErrorLineNum d = errorLineNum d"
definition ErrorName :: "xml_doc \<Rightarrow> string" where "ErrorName d = ErrorIDToName (errorID d)"

text \<open>The string \<open>_errorStr\<close> of a new document is empty; the model has no null pointers for it.\<close>

definition ErrorStr :: "xml_doc \<Rightarrow> string" where
  "ErrorStr d = (if errorStr d = [] then [] else errorStr d)"

definition PrintError :: "xml_doc \<Rightarrow> string" where
  "PrintError d = ErrorStr d @ [LF]"

text \<open>
  What is said of an error begins with its name; and a document that was cleared is not silent as a new one is, it
  says that there was none.
\<close>

lemma ErrorStr_errorStr [simp]: "ErrorStr d = errorStr d"
  by (simp add: ErrorStr_def)

lemma errors_are_named: "length (ErrorIDToName e) \<le> 60"
  by (cases e) (simp_all add: ErrorIDToName_def errorNames_def)

lemma ErrorStr_names_error:
  "\<exists>rest. ErrorStr (SetError e line detail d) = (''Error='' @ ErrorName (SetError e line detail d)) @ rest"
proof -
  have *: "length a \<le> k \<Longrightarrow> take k (a @ b) = a @ take (k - length a) b" for a b :: string and k by simp
  have n: "length (''Error='' @ ErrorIDToName e) \<le> 999" using errors_are_named [of e] by simp
  obtain rest where "errorStr (SetError e line detail d) = take 999 ((''Error='' @ ErrorIDToName e) @ rest)"
    by (simp add: SetError_def)
  moreover have "ErrorName (SetError e line detail d) = ErrorIDToName e" by (simp add: ErrorName_def SetError_def)
  ultimately show ?thesis unfolding ErrorStr_errorStr * [OF n] by simp
qed

lemma cleared_is_not_silent: "ErrorStr (ClearError d) = ''Error=XML_SUCCESS ErrorID=0 (0x0) Line number=0''"
proof -
  have "take 999 (''Error='' @ ErrorIDToName XML_SUCCESS @ '' ErrorID='' @ show_dec (int (error_number XML_SUCCESS)) @ '' (0x'' @
      show_base 16 (error_number XML_SUCCESS) @ '') Line number='' @ show_dec (int 0)) = ''Error=XML_SUCCESS ErrorID=0 (0x0) Line number=0''"
    by code_simp
  then show ?thesis by (simp add: ClearError_def SetError_def)
qed

section \<open>QueryAttribute\<close>

text \<open>The result is the number of the error.\<close>

definition numbered :: "'a query \<Rightarrow> (nat \<times> 'a) option" where
  "numbered q = map_option (\<lambda>(e, v). (error_number e, v)) q"

definition QueryAttribute_int :: "string \<Rightarrow> attribute list \<Rightarrow> i32 \<Rightarrow> (nat \<times> i32) option" where
  "QueryAttribute_int name attrs val = numbered (QueryIntAttribute name attrs val)"

definition QueryAttribute_unsigned :: "string \<Rightarrow> attribute list \<Rightarrow> u32 \<Rightarrow> (nat \<times> u32) option" where
  "QueryAttribute_unsigned name attrs val = numbered (QueryUnsignedAttribute name attrs val)"

definition QueryAttribute_int64 :: "string \<Rightarrow> attribute list \<Rightarrow> i64 \<Rightarrow> (nat \<times> i64) option" where
  "QueryAttribute_int64 name attrs val = numbered (QueryInt64Attribute name attrs val)"

definition QueryAttribute_bool :: "string \<Rightarrow> attribute list \<Rightarrow> bool \<Rightarrow> (nat \<times> bool) option" where
  "QueryAttribute_bool name attrs val = numbered (QueryBoolAttribute name attrs val)"

definition QueryAttribute_double :: "'f float_lib \<Rightarrow> string \<Rightarrow> attribute list \<Rightarrow> 'f \<Rightarrow> (nat \<times> 'f) option" where
  "QueryAttribute_double lib name attrs val = numbered (QueryDoubleAttribute lib name attrs val)"

definition QueryAttribute_float :: "'f float_lib \<Rightarrow> string \<Rightarrow> attribute list \<Rightarrow> 'f \<Rightarrow> (nat \<times> 'f) option" where
  "QueryAttribute_float lib name attrs val = numbered (QueryFloatAttribute lib name attrs val)"

text \<open>The number is zero exactly for \<open>XML_SUCCESS\<close>, so a caller may use it as a condition.\<close>

lemma error_number_zero: "error_number e = 0 \<longleftrightarrow> e = XML_SUCCESS"
  by (cases e) (simp_all add: error_number_def errorNames_def)

end
