(* ===== verification/Http_Session.thy ===== *)
theory Http_Session
  imports Http_Claims
begin

text \<open>
  A whole connection to the web server (\<^verbatim>\<open>server/http_srv.cpp\<close>), against what it should be: a function from the
  texts of the requests and the files of the site to the answers, which knows of no cache and no buffers.
\<close>

section \<open>The site\<close>

text \<open>The entry whose bytes answer a path: the file, or the index of what the server takes for a directory.\<close>

definition served_entry :: "file_system \<Rightarrow> string \<Rightarrow> stat_entry option" where
  "served_entry fs p =
     (case fs (root_dir @ p) of
        None \<Rightarrow> None
      | Some st \<Rightarrow>
          if st_mode st AND 1 = 0 then Some st
          else fs (root_dir @ p @ (if ends_with (root_dir @ p) ''/'' then index_html else ''/'' @ index_html)))"

definition loadable :: "stat_entry \<Rightarrow> bool" where
  "loadable st \<longleftrightarrow> st_mode st AND 1 = 0 \<and> (case st_data st of None \<Rightarrow> False | Some bs \<Rightarrow> st_size st = length bs \<and> length bs < 2 ^ 31)"

definition site_ok :: "file_system \<Rightarrow> bool" where
  "site_ok fs \<longleftrightarrow> (\<forall>p st. served_entry fs p = Some st \<longrightarrow> loadable st)"

definition site :: "file_system \<Rightarrow> string \<Rightarrow> byte list option" where
  "site fs p = Option.bind (served_entry fs p) st_data"

section \<open>What the answers should be\<close>

definition asks_keep :: "string \<Rightarrow> bool" where
  "asks_keep req \<longleftrightarrow> (\<exists>i. same_text ''Connection: Keep-Alive'' (drop i req))"

text \<open>The bytes of an answer, the statistics it counts in, and whether the connection stays.\<close>

definition answer :: "file_system \<Rightarrow> string \<Rightarrow> byte list \<times> nat \<times> bool" where
  "answer fs req =
     (case match_request (takeWhile (\<lambda>c. c \<noteq> CHR 0x0A) req) of
        None \<Rightarrow> (bytes_of (generate500Response ''Invalid request''), HTTP_500_COL, False)
      | Some (p, q) \<Rightarrow>
          (case site fs p of
             None \<Rightarrow> (bytes_of HTTP_404, HTTP_404_COL, False)
           | Some bs \<Rightarrow> (header_200 \<lparr>content = bs, wf_size = int (length bs)\<rparr> @ bs, HTTP_200_COL, asks_keep req)))"

text \<open>A connection is answered request by request, until an answer closes it.\<close>

fun session :: "(string \<Rightarrow> byte list \<times> nat \<times> bool) \<Rightarrow> string list \<Rightarrow> byte list \<times> nat list" where
  "session ans [] = ([], [])"
| "session ans (req # reqs) =
     (let (out, col, keep) = ans req;
          (outs, cols) = (if keep then session ans reqs else ([], []))
      in (out @ outs, col # cols))"

definition one_block :: "string \<Rightarrow> bool" where
  "one_block req \<longleftrightarrow> req \<noteq> [] \<and> length req < request_message_len \<and> CHR 0x00 \<notin> set req"

section \<open>Looking for the header\<close>

lemma strncasecmp_more: "strncasecmp_eq s pat n = Inr b \<Longrightarrow> strncasecmp_eq (s @ t) pat n = Inr b"
  by (induction s pat n rule: strncasecmp_eq.induct) (auto split: if_splits)

lemma scan_more: "scan c pat s left = Inr b \<Longrightarrow> scan c pat (s @ t) left = Inr b"
proof (induction c pat s left rule: scan.induct)
  case (2 c pat sc s left)
  show ?case
  proof (cases "left \<le> 1 \<or> tolower sc \<noteq> c")
    case True
    with 2 show ?thesis by (auto split: if_splits)
  next
    case False
    with "2.prems" obtain hit where hit: "strncasecmp_eq s (pat @ [CHR 0x00]) (length pat) = Inr hit"
      "(if hit then Inr True else scan c pat s (left - 1)) = Inr b"
      by (auto simp: sbind_eq_Inr)
    from strncasecmp_more [OF hit(1), of t] False hit 2 show ?thesis by (auto split: if_splits)
  qed
qed simp

lemma strnCaseStr_more: "strnCaseStr s pat limit = Inr b \<Longrightarrow> strnCaseStr (s @ t) pat limit = Inr b"
  by (cases pat) (simp_all add: scan_more)

lemma same_text_padded: "CHR 0x00 \<notin> set pat \<Longrightarrow> same_text pat (s @ replicate n (CHR 0x00)) = same_text pat s"
proof (induction pat arbitrary: s n)
  case (Cons d pat)
  then have d: "tolower d \<noteq> CHR 0x00" using tolower_0_iff by auto
  show ?case
  proof (cases s)
    case Nil
    have "tolower (CHR 0x00) \<noteq> tolower d" using d by (metis tolower_0_iff)
    with Nil show ?thesis by (cases n) simp_all
  next
    case (Cons c s')
    with Cons.IH Cons.prems show ?thesis by simp
  qed
qed simp

lemma block_padded:
  assumes "one_block req"
  shows "block_memory (bytes_of req) = (req @ replicate (1023 - length req) (CHR 0x00)) @ [CHR 0x00]"
proof -
  have len: "length req < 1016" using assms by (simp add: one_block_def request_message_len_def)
  have z: "char_of (0 :: nat) = CHR 0x00" by (simp add: char_of_def)
  have "block_memory (bytes_of req) = req @ replicate (1016 - length req + 8) (CHR 0x00)"
    by (simp only: block_memory_def chars_of_append replicate_add chars_of_bytes_of length_bytes_of request_message_len_def)
      (simp add: chars_of_def z)
  moreover have "1016 - length req + 8 = Suc (1023 - length req)" using len by simp
  ultimately show ?thesis by (simp add: replicate_append_same)
qed

lemma keep_alive_exact:
  assumes "one_block req"
  shows "strnCaseStr (block_memory (bytes_of req)) ''Connection: Keep-Alive'' 1016 = Inr (asks_keep req)"
proof -
  let ?p = "''Connection: Keep-Alive''" and ?z = "\<lambda>n. replicate n (CHR 0x00)"
  have len: "length req < 1016" using assms by (simp add: one_block_def request_message_len_def)
  note mem = block_padded [OF assms]
  obtain b where b: "strnCaseStr (block_memory (bytes_of req)) ?p 1016 = Inr b"
    using strnCaseStr_nul [of ?p 1016 "req @ ?z (1023 - length req)"] len unfolding mem by auto
  have all: "block_memory (bytes_of req) @ ?z 30 = req @ ?z (1054 - length req)"
  proof -
    have "1054 - length req = (1023 - length req) + (1 + 30)" using len by simp
    then show ?thesis unfolding mem by (simp only: replicate_add append_assoc) simp
  qed
  have "strnCaseStr (req @ ?z (1054 - length req)) ?p 1016 = Inr b"
    using strnCaseStr_more [OF b, of "?z 30"] unfolding all .
  then have ex: "b \<longleftrightarrow> (\<exists>i. int i + 1 < 1016 \<and> same_text ?p (drop i (req @ ?z (1054 - length req))))"
    using strnCaseStr_exact [of ?p 1016 "req @ ?z (1054 - length req)"] len by simp
  have pad: "same_text ?p (drop i (req @ ?z (1054 - length req))) \<longleftrightarrow> same_text ?p (drop i req)" for i
    using same_text_padded [of ?p "drop i req"] by simp
  have lim: "int i + 1 < 1016" if "same_text ?p (drop i req)" for i
  proof -
    have "drop i req \<noteq> []" using that by auto
    then show ?thesis using len by simp
  qed
  have "b \<longleftrightarrow> asks_keep req"
    unfolding ex pad asks_keep_def by (rule iffI; elim exE; use lim in blast)
  with b show ?thesis by simp
qed

section \<open>The handler of a connection\<close>

text \<open>
  The interface between the reading loop and what answers one request, files or servlets: the answer to a text is \<open>ans\<close>
  of it, whatever state satisfying \<open>inv\<close> the server is in.
\<close>

locale request_handler =
  fixes fs :: file_system and towa :: "towa_fun option" and ans :: "string \<Rightarrow> byte list \<times> nat \<times> bool"
    and inv :: "http_state \<Rightarrow> bool"
  assumes handles: "inv s \<Longrightarrow> one_block req \<Longrightarrow> ans req = (out, col, keep) \<Longrightarrow>
    \<exists>s'. http_processRequest fs towa (block_memory (bytes_of req)) s = Inr (keep, s') \<and>
      inv s' \<and> h_tx s' = h_tx s @ out \<and> h_thread s' = updateScreen col (h_thread s)"
begin

lemma session_answers:
  "inv s \<Longrightarrow> list_all one_block reqs \<Longrightarrow> session ans reqs = (out, cols) \<Longrightarrow>
   \<exists>s' rest. http_readData fs towa None (map (\<lambda>r. Data (bytes_of r)) reqs) s = Inr (s', rest) \<and>
     h_tx s' = h_tx s @ out \<and> h_thread s' = fold updateScreen cols (h_thread s) \<and> inv s'"
proof (induction reqs arbitrary: s out cols)
  case Nil
  then show ?case by (subst http_readData.simps) simp
next
  case (Cons req reqs)
  obtain o1 col keep where a: "ans req = (o1, col, keep)" by (cases "ans req")
  obtain s1 where s1: "http_processRequest fs towa (block_memory (bytes_of req)) s = Inr (keep, s1)"
      "inv s1" "h_tx s1 = h_tx s @ o1" "h_thread s1 = updateScreen col (h_thread s)"
    using handles [OF Cons.prems(1) _ a] Cons.prems(2) by auto
  have len: "length req < 1016" "req \<noteq> []" using Cons.prems(2) by (auto simp: one_block_def request_message_len_def)
  let ?evs = "map (\<lambda>r. Data (bytes_of r)) reqs"
  have "sock_read 1016 (Data (bytes_of req) # ?evs) = (int (length req), bytes_of req, ?evs)" using len by simp
  then have step: "http_readData fs towa None (Data (bytes_of req) # ?evs) s =
      (if keep then http_readData fs towa None ?evs s1 else Inr (s1, ?evs))"
    using len s1(1) by (subst http_readData.simps) (simp add: request_message_len_def Let_def del: sock_read.simps)
  show ?case
  proof (cases keep)
    case True
    obtain o2 cols2 where r: "session ans reqs = (o2, cols2)" by (cases "session ans reqs")
    have "out = o1 @ o2" "cols = col # cols2" using Cons.prems(3) a r True by simp_all
    moreover obtain s' rest where "http_readData fs towa None ?evs s1 = Inr (s', rest)"
        "h_tx s' = h_tx s1 @ o2" "h_thread s' = fold updateScreen cols2 (h_thread s1)" "inv s'"
      using Cons.IH [OF s1(2) _ r] Cons.prems(2) by auto
    ultimately show ?thesis using True step s1(3,4) by simp
  next
    case False
    with Cons.prems(3) a have "out = o1" "cols = [col]" by simp_all
    with False step s1 show ?thesis by simp
  qed
qed

end

section \<open>One request\<close>

lemma parse_one:
  assumes "one_block req"
  shows "HTTPRequest (block_memory (bytes_of req)) =
    Inr (case match_request (takeWhile (\<lambda>c. c \<noteq> CHR 0x0A) req) of
        None \<Rightarrow> \<lparr>req_method = ''GET'', req_path = [], req_query = [], req_valid = False, req_keep_alive = asks_keep req\<rparr>
      | Some (p, q) \<Rightarrow> \<lparr>req_method = ''GET'', req_path = p, req_query = q, req_valid = True, req_keep_alive = asks_keep req\<rparr>)"
proof -
  have n: "CHR 0x00 \<notin> set req" "length req < 1016" using assms by (auto simp: one_block_def request_message_len_def)
  obtain k where "1023 - length req = Suc k" using n(2) by (cases "1023 - length req") simp_all
  then have "cstr (block_memory (bytes_of req)) = req" using n(1) by (simp add: block_padded [OF assms])
  moreover have "p \<noteq> []" if "match_request l = Some (p, q)" for l p q
    using that by (auto simp: match_request_def Let_def split: if_splits)
  ultimately show ?thesis using keep_alive_exact [OF assms] by (auto simp: HTTPRequest_def split: option.splits)
qed

text \<open>The cache holds only what is on the disk.\<close>

definition cache_ok :: "file_system \<Rightarrow> http_state \<Rightarrow> bool" where
  "cache_ok fs s \<longleftrightarrow>
     (\<forall>path f. cache s path = Some (Some f) \<longrightarrow>
       (\<exists>st bs. fs path = Some st \<and> st_mode st AND 1 = 0 \<and> st_data st = Some bs \<and> f = \<lparr>content = bs, wf_size = int (length bs)\<rparr>))"

lemma getFile_site:
  assumes "site_ok fs" and "cache_ok fs s"
  shows "\<exists>s'. getFile fs p s = Inr (map_option (\<lambda>bs. \<lparr>content = bs, wf_size = int (length bs)\<rparr>) (site fs p), s') \<and>
    cache_ok fs s' \<and> h_tx s' = h_tx s \<and> h_thread s' = h_thread s"
proof (cases "cache s (root_dir @ p) \<in> {None, Some None}")
  case False
  then obtain f where f: "cache s (root_dir @ p) = Some (Some f)" by auto
  then obtain st bs where "fs (root_dir @ p) = Some st" "st_mode st AND 1 = 0" "st_data st = Some bs"
      "f = \<lparr>content = bs, wf_size = int (length bs)\<rparr>"
    using assms(2) unfolding cache_ok_def by blast
  then have "site fs p = Some bs" "f = \<lparr>content = bs, wf_size = int (length bs)\<rparr>" by (simp_all add: site_def served_entry_def)
  with getFile_cached [OF f] assms(2) show ?thesis by auto
next
  case True
  let ?s = "s\<lparr>cache := (cache s)(root_dir @ p \<mapsto> None)\<rparr>"
  have c: "cache_ok fs ?s" using assms(2) by (auto simp: cache_ok_def)
  let ?q = "root_dir @ p @ (if ends_with (root_dir @ p) ''/'' then index_html else ''/'' @ index_html)"
  show ?thesis
  proof (cases "served_entry fs p")
    case None
    then have "getFile fs p s = Inr (None, ?s)"
      using True by (auto simp: getFile_def served_entry_def Let_def split: option.splits if_splits)
    with None c show ?thesis by (simp add: site_def)
  next
    case (Some st)
    then have "loadable st" using assms(1) by (simp add: site_ok_def)
    then obtain bs where bs: "st_mode st AND 1 = 0" "st_data st = Some bs" "st_size st = length bs" "length bs < 2 ^ 31"
      by (auto simp: loadable_def split: option.splits)
    let ?f = "\<lparr>content = bs, wf_size = int (length bs)\<rparr>"
    obtain path where path: "fs path = Some st" "getFile fs p s = Inr (Some ?f, ?s\<lparr>h_allocs := Suc (h_allocs s), cache := (cache ?s)(path \<mapsto> Some ?f)\<rparr>)"
    proof (cases "fs (root_dir @ p)")
      case None
      with Some show ?thesis by (simp add: served_entry_def)
    next
      case e: (Some e)
      have sz: "sint (of_nat (length bs) :: u32) = int (length bs)" using bs(4) by (rule sint_of_nat_u32)
      have load: "WebFile st (int (length bs)) u = Inr (?f, u\<lparr>h_allocs := Suc (h_allocs u)\<rparr>)" for u
        using bs by (simp add: WebFile_def deposit_def)
      show ?thesis
      proof (cases "st_mode e AND 1 = 0")
        case True
        then have "e = st" using Some e by (simp add: served_entry_def)
        with e True load sz bs \<open>cache s (root_dir @ p) \<in> {None, Some None}\<close> show ?thesis
          by (intro that [of "root_dir @ p"]) (auto simp: getFile_def Let_def)
      next
        case False
        then have "fs ?q = Some st" using Some e by (simp add: served_entry_def)
        with e False load sz bs \<open>cache s (root_dir @ p) \<in> {None, Some None}\<close> show ?thesis
          by (intro that [of ?q]) (auto simp: getFile_def Let_def)
      qed
    qed
    have "cache_ok fs (?s\<lparr>h_allocs := Suc (h_allocs s), cache := (cache ?s)(path \<mapsto> Some ?f)\<rparr>)"
      using c path(1) bs by (auto simp: cache_ok_def)
    moreover have "site fs p = Some bs" using Some bs by (simp add: site_def)
    ultimately show ?thesis using path(2) by simp
  qed
qed

section \<open>The whole connection\<close>

lemma processRequest_answer:
  assumes "site_ok fs" and "cache_ok fs s" and "one_block req" and "answer fs req = (out, col, keep)"
  shows "\<exists>s'. http_processRequest fs None (block_memory (bytes_of req)) s = Inr (keep, s') \<and>
    cache_ok fs s' \<and> h_tx s' = h_tx s @ out \<and> h_thread s' = updateScreen col (h_thread s)"
proof (cases "match_request (takeWhile (\<lambda>c. c \<noteq> CHR 0x0A) req)")
  case None
  with assms(2,4) show ?thesis
    by (auto simp: http_processRequest_def parse_one [OF assms(3)] answer_def send_def http_updateScreen_def cache_ok_def)
next
  case (Some pq)
  obtain p q where pq: "pq = (p, q)" by (cases pq)
  obtain s1 where "getFile fs p s = Inr (map_option (\<lambda>bs. \<lparr>content = bs, wf_size = int (length bs)\<rparr>) (site fs p), s1)"
      "cache_ok fs s1" "h_tx s1 = h_tx s" "h_thread s1 = h_thread s"
    using getFile_site [OF assms(1,2), of p] by blast
  with Some pq assms(4) show ?thesis
    by (cases "site fs p")
      (auto simp: http_processRequest_def parse_one [OF assms(3)] answer_def respond_def Let_def send_def
        http_updateScreen_def cache_ok_def)
qed

interpretation files: request_handler fs None "answer fs" "\<lambda>s. site_ok fs \<and> cache_ok fs s" for fs
  by unfold_locales (use processRequest_answer in blast)

text \<open>
  C23: A connection to the web server on which each request arrives in one segment, is shorter than 1016 bytes and
  contains no zero byte, over a site each of whose answering entries can be read whole, has a mode without the lowest
  bit (so is not taken for a directory again) and is smaller than 2 GiB (the size is narrowed to an \<open>int\<close>), is a
  function of the requests and the files: each gets the answer the site has for it, in order, up to the first that is
  not found, not valid, or does not ask to keep the connection; and the cache, holding at the start any files of the
  site, changes none of it.
\<close>

theorem http_session_refines:
  assumes "site_ok fs" and "cache_ok fs s" and "list_all one_block reqs" and "session (answer fs) reqs = (out, cols)"
  shows "\<exists>s' rest. http_readData fs None None (map (\<lambda>r. Data (bytes_of r)) reqs) s = Inr (s', rest) \<and>
    h_tx s' = h_tx s @ out \<and> h_thread s' = fold updateScreen cols (h_thread s) \<and> cache_ok fs s'"
  using files.session_answers [OF _ assms(3,4)] assms(1,2) by blast

text \<open>A site with one file, and a client that asks for it, then for another.\<close>

definition one_file :: file_system where
  "one_file p = (if p = ''./wwwroot/a'' then Some \<lparr>st_mode = 0x81A4, st_size = 2, st_data = Some [7, 8]\<rparr> else None)"

definition two_requests :: "string list" where
  "two_requests = [''GET /a HTTP/1.1'' @ CHR 0x0A # ''Connection: keep-alive'', ''GET /b HTTP/1.1'']"

theorem http_session_refines_witness:
  "\<exists>s' rest. http_readData one_file None None (map (\<lambda>r. Data (bytes_of r)) two_requests) http_start = Inr (s', rest) \<and>
    h_tx s' = header_200 \<lparr>content = [7, 8], wf_size = 2\<rparr> @ [7, 8] @ bytes_of HTTP_404"
proof -
  have "site_ok one_file" by (auto simp: site_ok_def served_entry_def loadable_def one_file_def split: if_splits)
  moreover have "cache_ok one_file http_start" by (simp add: cache_ok_def http_start_def)
  moreover have "list_all one_block two_requests" by (simp add: two_requests_def one_block_def request_message_len_def)
  moreover have "session (answer one_file) two_requests =
      (header_200 \<lparr>content = [7, 8], wf_size = 2\<rparr> @ [7, 8] @ bytes_of HTTP_404, [HTTP_200_COL, HTTP_404_COL])"
  proof -
    have "match_request (takeWhile (\<lambda>c. c \<noteq> CHR 0x0A) (hd two_requests)) = Some (''/a'', [])"
      "match_request (takeWhile (\<lambda>c. c \<noteq> CHR 0x0A) ''GET /b HTTP/1.1'') = Some (''/b'', [])"
      by code_simp+
    moreover have "asks_keep (hd two_requests)"
      unfolding asks_keep_def by (rule exI [of _ 16]) code_simp
    moreover have "site one_file ''/a'' = Some [7, 8]" "site one_file ''/b'' = None"
      by (simp_all add: site_def served_entry_def one_file_def root_dir_def)
    ultimately show ?thesis by (simp add: two_requests_def answer_def)
  qed
  ultimately show ?thesis
    using http_session_refines [of one_file http_start two_requests] by (fastforce simp: http_start_def)
qed

end
