(* ===== verification/Http_Servlets.thy ===== *)
theory Http_Servlets
  imports Http_Session Towa_App_Pool
begin

text \<open>
  The web server with ToWa from end to end: a connection of clients, the handler of \<^verbatim>\<open>server/http_srv.cpp\<close>, the pipes of
  \<^verbatim>\<open>server/towa_ipc.cpp\<close> and the application pool of \<^verbatim>\<open>server/towa_app_pool.cpp\<close>, down to what the Java machine
  returns.
\<close>

section \<open>What a servlet sends\<close>

text \<open>
  The code and the text the application pool has for a request; nothing, where it follows a null pointer or a pointer
  that was never set.
\<close>

fun reply_of :: "jvm_result \<Rightarrow> string \<Rightarrow> (byte \<times> string) option" where
  "reply_of Class_missing c = Some (TOWA_HTTP_404, ''Cannot find '' @ c @ ''.class'')"
| "reply_of Constructor_missing c = Some (TOWA_HTTP_500, ''Cannot find contructor for class '' @ c @ ''.class'')"
| "reply_of Method_missing c =
     Some (TOWA_HTTP_500, ''Cannot find method '' @ [CHR 0x27] @ ''doGet'' @ [CHR 0x27] @ '' in class '' @ c @ ''.class'')"
| "reply_of Other_throw c = None"
| "reply_of (Servlet_exception exc) c = Some (TOWA_HTTP_500, ''<pre>'' @ GetJNIException exc [] @ ''</pre>'')"
| "reply_of (Output None behind) c = None"
| "reply_of (Output (Some bs) behind) c = Some (TOWA_HTTP_200, chars_of (takeWhile (\<lambda>b. b \<noteq> 0) (bs @ behind)))"

text \<open>
  Every class of the site answers: with an array that has a zero byte in the memory from its start on, or with an error
  the pool has a text for.
\<close>

fun answers :: "jvm_result \<Rightarrow> bool" where
  "answers Other_throw = False"
| "answers (Servlet_exception exc) = (length (GetJNIException exc []) < 2 ^ 30)"
| "answers (Output None behind) = False"
| "answers (Output (Some bs) behind) = (0 \<in> set (bs @ behind) \<and> length (bs @ behind) < 2 ^ 30)"
| "answers _ = True"

definition servlets_ok :: "jvm_fun \<Rightarrow> bool" where
  "servlets_ok jvm \<longleftrightarrow> (\<forall>v c q. answers (jvm v c q))"

text \<open>An answer with the code 404 is sent as a found page; one with 500 closes the connection.\<close>

definition servlet_answer :: "jvm_fun \<Rightarrow> string \<Rightarrow> byte list \<times> nat \<times> bool" where
  "servlet_answer jvm req =
     (case match_request (takeWhile (\<lambda>c. c \<noteq> CHR 0x0A) req) of
        None \<Rightarrow> (bytes_of (generate500Response ''Invalid request''), HTTP_500_COL, False)
      | Some (p, q) \<Rightarrow>
          (case reply_of (jvm ''GET'' (drop 1 p) (takeWhile (\<lambda>c. c \<noteq> CHR ''|'') q)) (drop 1 p) of
             None \<Rightarrow> ([], 0, False)
           | Some (code, body) \<Rightarrow>
               if code = TOWA_HTTP_500 then (bytes_of (generate500Response body), HTTP_500_COL, False)
               else (header_200 \<lparr>content = bytes_of body, wf_size = int (length body)\<rparr> @ bytes_of body, HTTP_200_COL, asks_keep req)))"

text \<open>The application pool behind its pipes; \<open>blk\<close> and \<open>blk'\<close> are fresh blocks of memory.\<close>

definition towa_backend :: "(nat \<Rightarrow> byte) \<Rightarrow> (nat \<Rightarrow> byte) \<Rightarrow> jvm_fun \<Rightarrow> towa_fun" where
  "towa_backend blk blk' jvm = pipe_sendMsg blk (pipe_listenToMsg blk' (app_processRequest jvm))"

section \<open>Through the pipes\<close>

lemma reply_of_answers:
  "answers r \<Longrightarrow> length c < 2000 \<Longrightarrow>
   \<exists>code body. reply_of r c = Some (code, body) \<and> length body < 2 ^ 30 + 2000 \<and> code \<in> {TOWA_HTTP_200, TOWA_HTTP_404, TOWA_HTTP_500}"
proof (cases "(r, c)" rule: reply_of.cases)
  case (7 bs behind c')
  moreover assume "answers r"
  ultimately have "length (takeWhile (\<lambda>b. b \<noteq> 0) (bs @ behind)) < 2 ^ 30"
    using length_takeWhile_le [of "\<lambda>b. b \<noteq> 0" "bs @ behind"] by simp
  with 7 show ?thesis by (simp add: chars_of_def)
qed simp_all

lemma app_reply:
  assumes "CHR ''|'' \<notin> set v" and "CHR ''|'' \<notin> set c" and "servlets_ok jvm"
    and "reply_of (jvm v c (takeWhile (\<lambda>c. c \<noteq> CHR ''|'') q)) c = Some (code, body)"
  shows "app_processRequest jvm \<lparr>m_content = bytes_of (request_text v c q), m_size = int (length (request_text v c q)),
      m_header = None\<rparr> = Inr (Some (Message_string (char_of (unat code) # body)))"
proof -
  let ?t = "request_text v c q"
  have str: "getString \<lparr>m_content = bytes_of ?t, m_size = int (length ?t), m_header = None\<rparr> = Inr ?t"
    by (simp add: getString_def)
  obtain rest where toks: "split_bars [] ?t = v # c # rest"
      "(if rest = [] then [] else hd rest) = takeWhile (\<lambda>c. c \<noteq> CHR ''|'') q"
    using tokens_of_request [OF assms(1,2)] by blast
  have q: "(if 3 \<le> length (v # c # rest) then (v # c # rest) ! 2 else []) = takeWhile (\<lambda>c. c \<noteq> CHR ''|'') q"
    using toks(2) by (cases rest) (simp_all add: numeral_eq_Suc)
  have "answers (jvm v c (takeWhile (\<lambda>c. c \<noteq> CHR ''|'') q))" using assms(3) by (simp add: servlets_ok_def)
  then show ?thesis
    using assms(4) unfolding app_processRequest_def str sbind_simps Let_def toks(1) q
    by (cases "(jvm v c (takeWhile (\<lambda>c. c \<noteq> CHR ''|'') q), c)" rule: reply_of.cases) (auto simp: lookup_error_def)
qed

lemma backend_reply:
  assumes "servlets_ok jvm" and "CHR ''|'' \<notin> set v" and "CHR ''|'' \<notin> set c" and "length (request_text v c q) < 2000"
    and "reply_of (jvm v c (takeWhile (\<lambda>c. c \<noteq> CHR ''|'') q)) c = Some (code, body)"
  shows "towa_backend blk blk' jvm v c q = Inr \<lparr>m_content = bytes_of body, m_size = int (length body), m_header = Some code\<rparr>"
proof -
  have "length c < 2000" using assms(4) by (simp add: request_text_def)
  then have "length body < 2 ^ 30 + 2000"
    using reply_of_answers [of "jvm v c (takeWhile (\<lambda>c. c \<noteq> CHR ''|'') q)" c] assms(1,5) by (simp add: servlets_ok_def)
  then have "length (char_of (unat code) # body) < 2 ^ 31" by simp
  moreover have "bytes_of (char_of (unat code) # body) = code # bytes_of body"
    using bytes_of_chars_of [of "[code]"] by (simp add: chars_of_def bytes_of_def)
  ultimately show ?thesis
    unfolding towa_backend_def
    using pipe_exchange [of v c q "char_of (unat code) # body" "app_processRequest jvm" blk blk'] app_reply [OF assms(2,3,1,5)] assms(4)
    by simp
qed

section \<open>The whole connection\<close>

lemma longest_query_length: "longest_query s = Some q \<Longrightarrow> length q \<le> length s"
  by (induction s arbitrary: q) (auto split: option.splits if_splits)

text \<open>What the expression of the request line takes for a path has no bar in it.\<close>

lemma match_request_parts:
  assumes "match_request l = Some (p, q)"
  shows "CHR ''|'' \<notin> set p" and "length p + length q \<le> length l"
proof -
  let ?s = "dropWhile space_char (drop 3 l)"
  have p: "p = takeWhile path_char ?s" and q: "q = [] \<or> longest_query (tl (dropWhile path_char ?s)) = Some q"
    using assms by (auto simp: match_request_def Let_def split: if_splits)
  have "\<not> path_char (CHR ''|'')" by (simp add: path_char_def word_char_def)
  then show "CHR ''|'' \<notin> set p" unfolding p using set_takeWhileD by metis
  have "length q \<le> length (dropWhile path_char ?s)"
    using q longest_query_length [of "tl (dropWhile path_char ?s)" q] by auto
  moreover have "length p + length (dropWhile path_char ?s) = length ?s"
    unfolding p by (metis length_append takeWhile_dropWhile_id)
  moreover have "length ?s \<le> length l" using length_dropWhile_le [of space_char "drop 3 l"] by simp
  ultimately show "length p + length q \<le> length l" by linarith
qed

lemma servlet_handles:
  assumes "servlets_ok jvm" and "one_block req" and "servlet_answer jvm req = (out, col, keep)"
  shows "\<exists>s'. http_processRequest fs (Some (towa_backend blk blk' jvm)) (block_memory (bytes_of req)) s = Inr (keep, s') \<and>
    h_tx s' = h_tx s @ out \<and> h_thread s' = updateScreen col (h_thread s)"
proof (cases "match_request (takeWhile (\<lambda>c. c \<noteq> CHR 0x0A) req)")
  case None
  with assms(3) show ?thesis
    by (auto simp: http_processRequest_def parse_one [OF assms(2)] servlet_answer_def send_def http_updateScreen_def)
next
  case (Some pq)
  obtain p q where pq: "match_request (takeWhile (\<lambda>c. c \<noteq> CHR 0x0A) req) = Some (p, q)" using Some by (cases pq) simp
  note parts = match_request_parts [OF pq]
  let ?r = "jvm ''GET'' (drop 1 p) (takeWhile (\<lambda>c. c \<noteq> CHR ''|'') q)"
  have len: "length p + length q < 1016"
    using parts(2) length_takeWhile_le [of "\<lambda>c. c \<noteq> CHR 0x0A" req] assms(2) by (simp add: one_block_def request_message_len_def)
  have bar: "CHR ''|'' \<notin> set (drop 1 p)" using parts(1) by (meson in_set_dropD)
  have "answers ?r" "length (drop 1 p) < 2000" using assms(1) len by (simp_all add: servlets_ok_def)
  then obtain code body where r: "reply_of ?r (drop 1 p) = Some (code, body)" "code \<in> {TOWA_HTTP_200, TOWA_HTTP_404, TOWA_HTTP_500}"
    using reply_of_answers by blast
  have reply: "towa_backend blk blk' jvm ''GET'' (drop 1 p) q =
      Inr \<lparr>m_content = bytes_of body, m_size = int (length body), m_header = Some code\<rparr>"
    using len by (intro backend_reply [OF assms(1) _ bar _ r(1)]) (simp_all add: request_text_def)
  show ?thesis
  proof (cases "code = TOWA_HTTP_500")
    case True
    with pq r(1) assms(3) reply show ?thesis
      by (auto simp: http_processRequest_def parse_one [OF assms(2)] servlet_answer_def getString_def towa_defs send_def
          http_updateScreen_def simp del: reply_of.simps)
  next
    case False
    with pq r assms(3) reply show ?thesis
      by (auto simp: http_processRequest_def parse_one [OF assms(2)] servlet_answer_def respond_def WebFile_msg_def Let_def
          send_def http_updateScreen_def simp del: reply_of.simps)
  qed
qed

interpretation servlets: request_handler fs "Some (towa_backend blk blk' jvm)" "servlet_answer jvm" "\<lambda>s. servlets_ok jvm"
  for fs blk blk' jvm
  by unfold_locales (use servlet_handles in blast)

text \<open>
  C25: With ToWa, from the bytes of the client to the Java machine and back, for a connection whose requests arrive in
  one segment each, are shorter than 1016 bytes and contain no zero byte, with no other connection using the pipes at
  the time, and for servlets that return an output with a zero byte behind it and of less than \<open>2 ^ 30\<close> bytes or fail
  with one of the exceptions the pool reports: each request of a connection runs the class its path names, with its query
  up to the first bar, and is answered with the servlet's output up to the first zero byte, in order, until an error of
  the servlet, a request that is not valid or one that does not ask to keep the connection.  A class that is not found
  is answered as a page.
\<close>

theorem servlet_session_refines:
  assumes "servlets_ok jvm" and "list_all one_block reqs" and "session (servlet_answer jvm) reqs = (out, cols)"
  shows "\<exists>s' rest. http_readData fs (Some (towa_backend blk blk' jvm)) None (map (\<lambda>r. Data (bytes_of r)) reqs) s = Inr (s', rest) \<and>
    h_tx s' = h_tx s @ out \<and> h_thread s' = fold updateScreen cols (h_thread s)"
  using servlets.session_answers [OF assms] by blast

definition echo_class :: jvm_fun where
  "echo_class m c q = Output (Some (take 1000 (bytes_of c))) [0]"

theorem servlet_session_refines_witness:
  "\<exists>s' rest. http_readData (\<lambda>p. None) (Some (towa_backend (\<lambda>i. 1) (\<lambda>i. 2) echo_class)) None
      [Data (bytes_of ''GET /Test HTTP/1.1'')] http_start = Inr (s', rest) \<and>
    h_tx s' = header_200 \<lparr>content = bytes_of ''Test'', wf_size = 4\<rparr> @ bytes_of ''Test''"
proof -
  let ?reqs = "[''GET /Test HTTP/1.1'']"
  have "servlets_ok echo_class" by (simp add: servlets_ok_def echo_class_def min_less_iff_disj)
  moreover have "list_all one_block ?reqs" by (simp add: one_block_def request_message_len_def)
  moreover have "\<exists>cols. session (servlet_answer echo_class) ?reqs =
      (header_200 \<lparr>content = bytes_of ''Test'', wf_size = 4\<rparr> @ bytes_of ''Test'', cols)"
  proof -
    have "match_request (takeWhile (\<lambda>c. c \<noteq> CHR 0x0A) ''GET /Test HTTP/1.1'') = Some (''/Test'', [])" by code_simp
    moreover have "reply_of (echo_class ''GET'' ''Test'' []) ''Test'' = Some (TOWA_HTTP_200, ''Test'')"
      by code_simp
    ultimately have "\<exists>k. servlet_answer echo_class ''GET /Test HTTP/1.1'' =
        (header_200 \<lparr>content = bytes_of ''Test'', wf_size = 4\<rparr> @ bytes_of ''Test'', HTTP_200_COL, k)"
      by (simp add: servlet_answer_def towa_defs del: reply_of.simps)
    then show ?thesis by auto
  qed
  ultimately show ?thesis
    using servlet_session_refines [of echo_class ?reqs _ _ "\<lambda>p. None" "\<lambda>i. 1" "\<lambda>i. 2" http_start]
    by (fastforce simp: http_start_def)
qed

end
