(* ===== verification/Http_Blocks.thy ===== *)
theory Http_Blocks
  imports Http_Server
begin

text \<open>
  The memory of a request (\<^verbatim>\<open>server/http_srv.cpp\<close>): the blocks \<open>request_message\<close> that \<open>readData\<close> chains, and who gives
  them back on which way out.  What the blocks hold is modelled in \<open>Http_Server\<close>.
\<close>

section \<open>Blocks\<close>

text \<open>The \<open>next\<close> pointer of every block that is allocated; \<open>new\<close> returns the block \<open>rb_fresh\<close>, all zero.\<close>

record req_heap =
  rb_next :: "nat \<rightharpoonup> nat option"
  rb_fresh :: nat

definition new_request_message :: "req_heap \<Rightarrow> nat \<times> req_heap" where
  "new_request_message h = (rb_fresh h, h\<lparr>rb_next := (rb_next h)(rb_fresh h \<mapsto> None), rb_fresh := rb_fresh h + 1\<rparr>)"

definition delete_block :: "nat \<Rightarrow> req_heap \<Rightarrow> fault + req_heap" where
  "delete_block a h = (if rb_next h a = None then Inl Use_after_free else Inr (h\<lparr>rb_next := (rb_next h)(a := None)\<rparr>))"

definition set_next :: "nat \<Rightarrow> nat \<Rightarrow> req_heap \<Rightarrow> fault + req_heap" where
  "set_next a b h = (if rb_next h a = None then Inl Use_after_free else Inr (h\<lparr>rb_next := (rb_next h)(a \<mapsto> Some b)\<rparr>))"

text \<open>The loop behind \<open>We are done reading the HTTP request\<close>.  A chain in a circle would be a block deleted twice.\<close>

partial_function (option) free_request :: "nat option \<Rightarrow> req_heap \<Rightarrow> (fault + req_heap) option" where
  "free_request req_msg h =
     (case req_msg of
        None \<Rightarrow> Some (Inr h)
      | Some a \<Rightarrow>
          (case rb_next h a of
             None \<Rightarrow> Some (Inl Use_after_free)
           | Some tmp_msg \<Rightarrow>
               (case delete_block a h of Inl f \<Rightarrow> Some (Inl f) | Inr h \<Rightarrow> free_request tmp_msg h)))"

text \<open>
  The ways through \<open>processRequest\<close>: the request is not valid, the application pool reports an error, or it is answered,
  and the result says whether the connection stays.
\<close>

datatype request_outcome = Invalid | Pool_error | Answered bool

definition process_blocks :: "request_outcome \<Rightarrow> nat \<Rightarrow> req_heap \<Rightarrow> (fault + bool \<times> req_heap) option" where
  "process_blocks w req_msg h =
     (case w of
        Answered keep \<Rightarrow> map_option (\<lambda>r. sbind r (\<lambda>h. Inr (keep, h))) (free_request (Some req_msg) h)
      | _ \<Rightarrow> Some (sbind (delete_block req_msg h) (\<lambda>h. Inr (False, h))))"

text \<open>
  What one \<open>read\<close> of \<open>readData\<close> brings: nothing more, a block that is not the last of the request, or the last one.
\<close>

datatype arrival = Closed | More | Last request_outcome

fun read_blocks :: "arrival list \<Rightarrow> nat \<Rightarrow> nat \<Rightarrow> req_heap \<Rightarrow> (fault + req_heap) option" where
  "read_blocks [] top_msg msg h = Some (delete_block top_msg h)"
| "read_blocks (Closed # evs) top_msg msg h = Some (delete_block top_msg h)"
| "read_blocks (More # evs) top_msg msg h =
     (let (tmp_msg, h) = new_request_message h
      in case set_next msg tmp_msg h of Inl f \<Rightarrow> Some (Inl f) | Inr h \<Rightarrow> read_blocks evs top_msg tmp_msg h)"
| "read_blocks (Last w # evs) top_msg msg h =
     Option.bind (process_blocks w top_msg h) (\<lambda>r.
       case r of
         Inl f \<Rightarrow> Some (Inl f)
       | Inr (keep, h) \<Rightarrow>
           if keep then (let (top_msg, h) = new_request_message h in read_blocks evs top_msg top_msg h) else Some (Inr h))"

definition readData_blocks :: "arrival list \<Rightarrow> req_heap \<Rightarrow> (fault + req_heap) option" where
  "readData_blocks evs h = (let (top_msg, h) = new_request_message h in read_blocks evs top_msg top_msg h)"

section \<open>What is lost\<close>

text \<open>The blocks still allocated when a connection is over; \<open>k\<close> blocks hold the request so far.\<close>

fun lost :: "nat \<Rightarrow> arrival list \<Rightarrow> nat" where
  "lost k (More # evs) = lost (k + 1) evs"
| "lost k (Last (Answered keep) # evs) = (if keep then lost 1 evs else 0)"
| "lost k _ = k - 1"

text \<open>The blocks \<open>bs\<close> are chained, and they and \<open>old\<close> are all that is allocated.\<close>

fun linked :: "(nat \<rightharpoonup> nat option) \<Rightarrow> nat list \<Rightarrow> bool" where
  "linked n [] \<longleftrightarrow> True"
| "linked n (a # bs) \<longleftrightarrow> n a = Some (case bs of [] \<Rightarrow> None | b # _ \<Rightarrow> Some b) \<and> linked n bs"

definition holding :: "nat set \<Rightarrow> nat list \<Rightarrow> req_heap \<Rightarrow> bool" where
  "holding old bs h \<longleftrightarrow>
     linked (rb_next h) bs \<and> distinct bs \<and> set bs \<inter> old = {} \<and> dom (rb_next h) = set bs \<union> old \<and> (\<forall>a\<in>set bs \<union> old. a < rb_fresh h)"

lemma linked_cong: "(\<And>a. a \<in> set bs \<Longrightarrow> n a = m a) \<Longrightarrow> linked n bs = linked m bs"
  by (induction bs) auto

lemma linked_snoc: "linked n (bs @ [a]) \<Longrightarrow> b \<notin> set (bs @ [a]) \<Longrightarrow> distinct (bs @ [a]) \<Longrightarrow> linked (n(b \<mapsto> None, a \<mapsto> Some b)) (bs @ [a, b])"
proof (induction bs)
  case (Cons c bs)
  then show ?case by (cases bs) auto
qed auto

lemma new_holding: "holding old [] h \<Longrightarrow> new_request_message h = (a, h') \<Longrightarrow> holding old [a] h'"
  by (force simp: new_request_message_def holding_def less_Suc_eq)

lemma free_request_ok:
  "holding old bs h \<Longrightarrow>
   \<exists>h'. free_request (case bs of [] \<Rightarrow> None | b # _ \<Rightarrow> Some b) h = Some (Inr h') \<and> holding old [] h'"
proof (induction bs arbitrary: h)
  case Nil
  then show ?case by (simp add: free_request.simps [of None])
next
  case (Cons b bs)
  let ?h = "h\<lparr>rb_next := (rb_next h)(b := None)\<rparr>"
  have "linked (rb_next ?h) bs"
    using Cons.prems by (subst linked_cong [of bs _ "rb_next h"]) (auto simp: holding_def)
  then have "holding old bs ?h" using Cons.prems by (auto simp: holding_def)
  from Cons.IH [OF this] Cons.prems show ?case
    by (simp add: free_request.simps [of "Some b"] holding_def delete_block_def)
qed

lemma delete_top:
  assumes "holding old (b # bs) h"
  shows "\<exists>h'. delete_block b h = Inr h' \<and> dom (rb_next h') = set bs \<union> old"
  using assms by (auto simp: holding_def delete_block_def)

lemma chain_new:
  assumes "holding old (b # bs) h" and "new_request_message h = (c, h')"
  shows "\<exists>h''. set_next (last (b # bs)) c h' = Inr h'' \<and> holding old (b # bs @ [c]) h''"
proof -
  obtain as a where as: "b # bs = as @ [a]" by (metis append_butlast_last_id list.distinct(1))
  have c: "c = rb_fresh h" "h' = h\<lparr>rb_next := (rb_next h)(c \<mapsto> None), rb_fresh := c + 1\<rparr>"
    using assms(2) by (auto simp: new_request_message_def)
  have hold: "linked (rb_next h) (as @ [a])" "distinct (as @ [a])" "set (as @ [a]) \<inter> old = {}"
      "dom (rb_next h) = set (as @ [a]) \<union> old" "\<forall>x\<in>set (as @ [a]) \<union> old. x < c"
    using assms(1) c(1) unfolding holding_def as by auto
  then have new: "c \<notin> set (as @ [a])" "c \<notin> old" "a \<noteq> c" by auto
  let ?h = "h'\<lparr>rb_next := (rb_next h)(c \<mapsto> None, a \<mapsto> Some c)\<rparr>"
  have "linked (rb_next ?h) (as @ [a, c])" using linked_snoc [OF hold(1) new(1) hold(2)] by simp
  moreover have "dom (rb_next ?h) = set (as @ [a, c]) \<union> old" using hold(4) by auto
  ultimately have "holding old (as @ [a, c]) ?h" using hold new c by (auto simp: holding_def less_Suc_eq)
  moreover have "set_next a c h' = Inr ?h" using hold(4) new(3) c(2) by (auto simp: set_next_def)
  moreover have "b # bs @ [c] = as @ [a, c]" using as by simp
  moreover have "last (b # bs) = a" using as by simp
  ultimately show ?thesis by metis
qed

lemma read_blocks_ok:
  assumes "holding old (b # bs) h"
  shows "\<exists>h' rest. read_blocks evs b (last (b # bs)) h = Some (Inr h') \<and>
    dom (rb_next h') = rest \<union> old \<and> rest \<inter> old = {} \<and> finite rest \<and> card rest = lost (length (b # bs)) evs"
  using assms
proof (induction evs arbitrary: b bs h)
  case Nil
  obtain h' where "delete_block b h = Inr h'" "dom (rb_next h') = set bs \<union> old" using delete_top [OF Nil] by blast
  moreover have "set bs \<inter> old = {}" "card (set bs) = length bs" using Nil by (auto simp: holding_def distinct_card)
  ultimately show ?case by (intro exI [of _ h'] exI [of _ "set bs"]) simp
next
  case (Cons e evs)
  have del: "\<exists>h' rest. delete_block b h = Inr h' \<and> dom (rb_next h') = rest \<union> old \<and> rest \<inter> old = {} \<and> finite rest \<and> card rest = length bs"
  proof -
    obtain h' where "delete_block b h = Inr h'" "dom (rb_next h') = set bs \<union> old" using delete_top [OF Cons.prems] by blast
    moreover have "set bs \<inter> old = {}" "card (set bs) = length bs" using Cons.prems by (auto simp: holding_def distinct_card)
    ultimately show ?thesis by (intro exI [of _ h'] exI [of _ "set bs"]) simp
  qed
  show ?case
  proof (cases e)
    case Closed
    with del show ?thesis by auto
  next
    case More
    obtain c h1 where new: "new_request_message h = (c, h1)" by (cases "new_request_message h")
    obtain h2 where h2: "set_next (last (b # bs)) c h1 = Inr h2" "holding old (b # bs @ [c]) h2"
      using chain_new [OF Cons.prems new] by blast
    from Cons.IH [OF h2(2)] new h2(1) More show ?thesis by simp
  next
    case (Last w)
    show ?thesis
    proof (cases w)
      case (Answered keep)
      obtain h1 where h1: "free_request (Some b) h = Some (Inr h1)" "holding old [] h1"
        using free_request_ok [OF Cons.prems] by auto
      obtain c h2 where new: "new_request_message h1 = (c, h2)" by (cases "new_request_message h1")
      from new_holding [OF h1(2) new] Cons.IH [of c "[]" h2] h1 new Last Answered show ?thesis
        by (cases keep) (auto simp: process_blocks_def holding_def)
    qed (use del Last in \<open>auto simp: process_blocks_def\<close>)
  qed
qed

text \<open>
  C24: No block of a request is used or given back twice, however a connection goes; and exactly these are never given
  back: of a request that is not valid, that the application pool reports an error for, or that the connection
  ends in, all blocks but the first.
\<close>

theorem request_blocks_exact:
  assumes "dom (rb_next h) = old" and "\<forall>a\<in>old. a < rb_fresh h"
  shows "\<exists>h' rest. readData_blocks evs h = Some (Inr h') \<and>
    dom (rb_next h') = rest \<union> old \<and> rest \<inter> old = {} \<and> finite rest \<and> card rest = lost 1 evs"
proof -
  obtain b h1 where new: "new_request_message h = (b, h1)" by (cases "new_request_message h")
  have "holding old [] h" using assms by (simp add: holding_def)
  from read_blocks_ok [OF new_holding [OF this new], of evs] new show ?thesis by (simp add: readData_blocks_def)
qed

text \<open>A client that sends blocks ending in an empty line, and then leaves.\<close>

theorem request_blocks_exact_witness:
  "\<exists>h'. readData_blocks (replicate 100 More) \<lparr>rb_next = Map.empty, rb_fresh = 0\<rparr> = Some (Inr h') \<and> card (dom (rb_next h')) = 100"
proof -
  have "lost k (replicate n More) = k + n - 1" for k n by (induction n arbitrary: k) simp_all
  then show ?thesis using request_blocks_exact [of "\<lparr>rb_next = Map.empty, rb_fresh = 0\<rparr>" "{}" "replicate 100 More"] by auto
qed

text \<open>Requests of one block lose nothing.\<close>

lemma one_block_requests_lose_nothing: "More \<notin> set evs \<Longrightarrow> lost 1 evs = 0"
proof (induction evs)
  case (Cons e evs)
  then show ?case by (cases "(1 :: nat, e # evs)" rule: lost.cases) auto
qed simp

section \<open>Which way a connection goes\<close>

text \<open>The way of one request through \<open>processRequest\<close>, and the ways of a connection, as the loop of \<open>http_readData\<close> takes them.\<close>

definition outcome_of :: "towa_fun option \<Rightarrow> string \<Rightarrow> bool \<Rightarrow> request_outcome" where
  "outcome_of towa memory keep =
     (case HTTPRequest memory of
        Inl e \<Rightarrow> Invalid
      | Inr request \<Rightarrow>
          if \<not> req_valid request then Invalid
          else
            (case towa of
               None \<Rightarrow> Answered keep
             | Some sendMsg \<Rightarrow>
                 (case sendMsg (req_method request) (drop 1 (req_path request)) (req_query request) of
                    Inl e \<Rightarrow> Pool_error
                  | Inr msg_in \<Rightarrow>
                      if m_header msg_in = Some TOWA_HTTP_200 \<or> m_header msg_in = Some TOWA_HTTP_404 then Answered keep
                      else Pool_error)))"

function arrivals :: "file_system \<Rightarrow> towa_fun option \<Rightarrow> byte list option \<Rightarrow> byte rx list \<Rightarrow> http_state \<Rightarrow> arrival list" where
  "arrivals fs towa top_msg evs s =
     (let (n, got, evs1) = sock_read request_message_len evs
      in if n \<le> 0 then [Closed]
         else if n < int request_message_len \<or> drop (request_message_len - 4) got \<noteq> blank_line then
           (let (memory, s) = (case top_msg of
                  None \<Rightarrow> (block_memory got, s)
                | Some full \<Rightarrow> (chained_memory (h_junk s (h_allocs s)) full, s\<lparr>h_allocs := Suc (h_allocs s)\<rparr>))
            in (case http_processRequest fs towa memory s of
                  Inl e \<Rightarrow> []
                | Inr (keep, s1) \<Rightarrow> Last (outcome_of towa memory keep) # (if keep then arrivals fs towa None evs1 s1 else [])))
         else More # arrivals fs towa (Some (case top_msg of None \<Rightarrow> got | Some full \<Rightarrow> full)) evs1 s)"
  by pat_completeness auto
termination
  by (relation "measure (\<lambda>(fs, towa, top_msg, evs, s). rx_size evs)") (auto dest: sock_read_progress [OF sym])

declare arrivals.simps [simp del]

text \<open>
  A client that sends \<open>n\<close> times the 1016 bytes of a block that ends in an empty line, and then leaves, gets no answer,
  and takes \<open>n\<close> blocks of memory with it.
\<close>

lemma silent_client_takes_memory:
  assumes "length full = request_message_len" and "drop (request_message_len - 4) full = blank_line"
  shows "http_readData fs towa None (replicate n (Data full)) s = Inr (s, [])"
    and "\<exists>h'. readData_blocks (arrivals fs towa None (replicate n (Data full)) s) \<lparr>rb_next = Map.empty, rb_fresh = 0\<rparr> = Some (Inr h') \<and>
      card (dom (rb_next h')) = n"
proof -
  have read: "sock_read request_message_len (Data full # evs) = (int request_message_len, full, evs)" for evs using assms(1) by simp
  have pos: "\<not> int request_message_len \<le> 0" by (simp add: request_message_len_def)
  have "http_readData fs towa top (replicate n (Data full)) s = Inr (s, [])" for top
  proof (induction n arbitrary: top)
    case 0
    then show ?case by (subst http_readData.simps) simp
  next
    case (Suc n)
    then show ?case using assms(2) pos
      by (subst http_readData.simps) (simp add: read Let_def del: sock_read.simps)
  qed
  then show "http_readData fs towa None (replicate n (Data full)) s = Inr (s, [])" .
  have "arrivals fs towa top (replicate n (Data full)) s = replicate n More @ [Closed]" for top
  proof (induction n arbitrary: top)
    case 0
    then show ?case by (subst arrivals.simps) simp
  next
    case (Suc n)
    then show ?case using assms(2) pos
      by (subst arrivals.simps) (simp add: read Let_def del: sock_read.simps)
  qed
  moreover have "lost k (replicate n More @ [Closed]) = k + n - 1" for k by (induction n arbitrary: k) simp_all
  moreover have "holding {} [] \<lparr>rb_next = Map.empty, rb_fresh = 0\<rparr>" by (simp add: holding_def)
  ultimately show "\<exists>h'. readData_blocks (arrivals fs towa None (replicate n (Data full)) s) \<lparr>rb_next = Map.empty, rb_fresh = 0\<rparr> = Some (Inr h') \<and>
      card (dom (rb_next h')) = n"
    using read_blocks_ok [OF new_holding, of "{}" "\<lparr>rb_next = Map.empty, rb_fresh = 0\<rparr>" 0 _ "replicate n More @ [Closed]"]
    by (auto simp: readData_blocks_def new_request_message_def)
qed

end
