(* ===== verification/Ramdisk.thy ===== *)
theory Ramdisk
  imports Prelude
begin

text \<open>
  \<^verbatim>\<open>ramdisk.c\<close>: the request function of a disk in memory that the driver can be built with
  instead of its own (the build does not do it).  The requests the kernel fetches from the queue are an argument.
\<close>

section \<open>State\<close>

text \<open>
  A request: whether it is one of the file system, its direction, and its chunks, of which there is at least one.
  A chunk is what \<open>blk_rq_pos\<close>, \<open>blk_rq_cur_sectors\<close> and \<open>req->buffer\<close> say when it is the current one.
\<close>

type_synonym chunk = "64 word \<times> 64 word \<times> byte list"

record rd_request =
  rd_fs :: bool
  rd_write :: bool
  rd_chunk :: chunk
  rd_more :: "chunk list"

text \<open>\<open>nb_sectors\<close>, and what the global \<open>data\<close> points to (\<open>None\<close>: the null pointer it is initialised with).\<close>

record ramdisk =
  rd_sectors :: u32
  rd_data :: "byte list option"

section \<open>The operations\<close>

text \<open>
  The sum and the products of \<open>offset\<close> and \<open>nbytes\<close> are \<open>unsigned long\<close>, the product of \<open>nb_sectors\<close> is one of
  32 bits.  A write dumps the first 32 bytes of the buffer to the log first.  The result is the
  buffer and the disk; a range behind the end leaves both alone.
\<close>

definition ramdisk_transfer ::
  "64 word \<Rightarrow> 64 word \<Rightarrow> byte list \<Rightarrow> bool \<Rightarrow> ramdisk \<Rightarrow> fault + byte list \<times> ramdisk"
where
  "ramdisk_transfer sector nsect buffer is_write d =
     (let offset = sector * 512; nbytes = nsect * 512
      in if ucast (rd_sectors d * 512) < offset + nbytes then Inr (buffer, d)
         else if is_write \<and> length buffer < 32 then Inl Overread
         else if nbytes = 0 then Inr (buffer, d)
         else
           (case rd_data d of
              None \<Rightarrow> Inl Null_deref
            | Some bytes \<Rightarrow>
                if is_write then
                  (if length buffer < unat nbytes then Inl Overread
                   else if length bytes < unat offset + unat nbytes then Inl Overwrite
                   else Inr (buffer, d\<lparr>rd_data := Some (overwrite (unat offset) (take (unat nbytes) buffer) bytes)\<rparr>))
                else
                  (if length bytes < unat offset + unat nbytes then Inl Overread
                   else if length buffer < unat nbytes then Inl Overwrite
                   else Inr (overwrite 0 (take (unat nbytes) (drop (unat offset) bytes)) buffer, d))))"

text \<open>
  The loop of \<open>ramdisk_request\<close>, with the requests still in the queue; it collects the buffers of the chunks it has
  ended.  A request that is not of the file system is ended as a whole, and \<open>continue\<close> goes back to the
  test of its type, which reads a request that has been given back to the kernel.
\<close>

function ramdisk_loop ::
  "rd_request option \<Rightarrow> rd_request list \<Rightarrow> byte list list \<Rightarrow> ramdisk \<Rightarrow> fault + byte list list \<times> ramdisk"
where
  "ramdisk_loop None q out d = Inr (out, d)"
| "ramdisk_loop (Some req) q out d =
     (if \<not> rd_fs req then Inl Use_after_free
      else
        (case rd_chunk req of
           (sector, nsect, buffer) \<Rightarrow>
             (case ramdisk_transfer sector nsect buffer (rd_write req) d of
                Inl e \<Rightarrow> Inl e
              | Inr (buf, d') \<Rightarrow>
                  (case rd_more req of
                     c # cs \<Rightarrow> ramdisk_loop (Some (req\<lparr>rd_chunk := c, rd_more := cs\<rparr>)) q (out @ [buf]) d'
                   | [] \<Rightarrow>
                       (case q of
                          [] \<Rightarrow> ramdisk_loop None [] (out @ [buf]) d'
                        | req' # q' \<Rightarrow> ramdisk_loop (Some req') q' (out @ [buf]) d')))))"
  by pat_completeness auto
termination
  by (relation "measure (\<lambda>(req, q, out, d). (case req of None \<Rightarrow> 0 | Some r \<Rightarrow> Suc (length (rd_more r))) +
      (\<Sum>r \<leftarrow> q. Suc (length (rd_more r))))") auto

declare ramdisk_loop.simps(2) [simp del]

definition ramdisk_request :: "rd_request list \<Rightarrow> ramdisk \<Rightarrow> fault + byte list list \<times> ramdisk" where
  "ramdisk_request q d =
     (case q of [] \<Rightarrow> ramdisk_loop None [] [] d | req # q \<Rightarrow> ramdisk_loop (Some req) q [] d)"

section \<open>The disk as a list of bytes\<close>

text \<open>
  What a sequence of transfers (direction, first sector, buffer) should make of the buffers and of the disk; one that does
  not fit is passed over.
\<close>

fun disk_run :: "(bool \<times> nat \<times> byte list) list \<Rightarrow> byte list \<Rightarrow> byte list list \<times> byte list" where
  "disk_run [] bytes = ([], bytes)"
| "disk_run ((w, sector, buffer) # ts) bytes =
     (let fits = (512 * sector + length buffer \<le> length bytes);
          buffer' = (if fits \<and> \<not> w then take (length buffer) (drop (512 * sector) bytes) else buffer);
          bytes' = (if fits \<and> w then overwrite (512 * sector) buffer bytes else bytes);
          (bufs, final) = disk_run ts bytes'
      in (buffer' # bufs, final))"

definition transfers_of :: "rd_request \<Rightarrow> (bool \<times> nat \<times> byte list) list" where
  "transfers_of r = map (\<lambda>(sector, nsect, buffer). (rd_write r, unat sector, buffer)) (rd_chunk r # rd_more r)"

text \<open>What the kernel promises of a chunk: sectors that are there, and a buffer of their size.\<close>

definition chunk_ok :: "chunk \<Rightarrow> bool" where
  "chunk_ok = (\<lambda>(sector, nsect, buffer). 0 < unat nsect \<and> unat sector + unat nsect < 2 ^ 54 \<and> length buffer = 512 * unat nsect)"

definition request_ok :: "rd_request \<Rightarrow> bool" where
  "request_ok r \<longleftrightarrow> list_all chunk_ok (rd_chunk r # rd_more r)"

definition disk_of :: "u32 \<Rightarrow> byte list \<Rightarrow> ramdisk" where
  "disk_of n bytes = \<lparr>rd_sectors = n, rd_data = Some bytes\<rparr>"

lemma unat_sectors64: "unat (x :: 64 word) < 2 ^ 54 \<Longrightarrow> unat (x * 512) = 512 * unat x"
  by (simp add: unat_word_ariths mult.commute)

lemma transfer_step:
  assumes "chunk_ok (sector, nsect, buffer)" and "length bytes = 512 * unat n" and "512 * unat n < 2 ^ 32"
  shows "\<exists>buf bytes'. ramdisk_transfer sector nsect buffer w (disk_of n bytes) = Inr (buf, disk_of n bytes') \<and>
    length bytes' = length bytes \<and>
    disk_run ((w, unat sector, buffer) # ts) bytes = (buf # fst (disk_run ts bytes'), snd (disk_run ts bytes'))"
proof -
  have ok: "0 < unat nsect" "unat sector + unat nsect < 2 ^ 54" "length buffer = 512 * unat nsect"
    using assms(1) by (simp_all add: chunk_ok_def)
  have off: "unat (sector * 512) = 512 * unat sector" and nb: "unat (nsect * 512) = 512 * unat nsect"
    using ok(2) by (simp_all add: unat_sectors64)
  have sum: "unat (sector * 512 + nsect * 512) = 512 * unat sector + 512 * unat nsect"
    using ok(2) off nb by (simp add: unat_word_ariths)
  have cap: "unat (ucast (n * 512) :: 64 word) = 512 * unat n"
    using assms(3) by (simp add: unsigned_ucast_eq take_bit_eq_mod unat_word_ariths mult.commute)
  have nz: "nsect * 512 \<noteq> 0" using ok(1) nb by (metis mult_is_0 not_less_zero unat_0 zero_neq_numeral)
  have beyond: "ucast (n * 512) < sector * 512 + nsect * 512 \<longleftrightarrow> 512 * unat n < 512 * unat sector + 512 * unat nsect"
    using sum cap by (simp add: word_less_nat_alt)
  show ?thesis
  proof (cases "512 * unat n < 512 * unat sector + 512 * unat nsect")
    case True
    then show ?thesis
      using beyond ok assms(2)
      by (intro exI [of _ buffer] exI [of _ bytes])
        (simp add: ramdisk_transfer_def disk_of_def Let_def case_prod_beta)
  next
    case fits: False
    let ?buf = "if w then buffer else take (length buffer) (drop (512 * unat sector) bytes)"
    let ?bytes = "if w then overwrite (512 * unat sector) buffer bytes else bytes"
    have "ramdisk_transfer sector nsect buffer w (disk_of n bytes) = Inr (?buf, disk_of n ?bytes)"
      using fits beyond ok assms(2) off nb nz
      by (simp add: ramdisk_transfer_def disk_of_def Let_def overwrite_def)
    moreover have "length ?bytes = length bytes" using fits ok assms(2) by simp
    ultimately show ?thesis
      using fits ok(3) assms(2)
      by (intro exI [of _ ?buf] exI [of _ ?bytes]) (simp add: Let_def case_prod_beta)
  qed
qed

lemma ramdisk_loop_run:
  assumes "length bytes = 512 * unat n" and "512 * unat n < 2 ^ 32" and "list_all request_ok (req # q)"
  shows "ramdisk_loop (Some req) q out (disk_of n bytes) =
    (if list_all rd_fs (req # q)
     then (let (bufs, bytes') = disk_run (concat (map transfers_of (req # q))) bytes in Inr (out @ bufs, disk_of n bytes'))
     else Inl Use_after_free)"
  using assms
proof (induction "length (rd_more req) + (\<Sum>r \<leftarrow> q. Suc (length (rd_more r)))" arbitrary: req q out bytes rule: less_induct)
  case less
  obtain sector nsect buffer where c: "rd_chunk req = (sector, nsect, buffer)" by (cases "rd_chunk req")
  show ?case
  proof (cases "rd_fs req")
    case False
    then show ?thesis by (subst ramdisk_loop.simps) simp
  next
    case True
    have ok: "chunk_ok (sector, nsect, buffer)" using less.prems(3) c by (simp add: request_ok_def)
    let ?rest = "map (\<lambda>(sector, nsect, buffer). (rd_write req, unat sector, buffer)) (rd_more req) @ concat (map transfers_of q)"
    obtain buf bytes' where t: "ramdisk_transfer sector nsect buffer (rd_write req) (disk_of n bytes) = Inr (buf, disk_of n bytes')"
        "length bytes' = length bytes"
        "disk_run ((rd_write req, unat sector, buffer) # ?rest) bytes = (buf # fst (disk_run ?rest bytes'), snd (disk_run ?rest bytes'))"
      using transfer_step [OF ok less.prems(1,2), of "rd_write req" ?rest] by blast
    have all: "concat (map transfers_of (req # q)) = (rd_write req, unat sector, buffer) # ?rest"
      by (simp add: transfers_of_def c)
    have step: "ramdisk_loop (Some req) q out (disk_of n bytes) =
        (case rd_more req of
           c # cs \<Rightarrow> ramdisk_loop (Some (req\<lparr>rd_chunk := c, rd_more := cs\<rparr>)) q (out @ [buf]) (disk_of n bytes')
         | [] \<Rightarrow> (case q of [] \<Rightarrow> ramdisk_loop None [] (out @ [buf]) (disk_of n bytes')
            | req' # q' \<Rightarrow> ramdisk_loop (Some req') q' (out @ [buf]) (disk_of n bytes')))"
      using True c t(1) by (subst ramdisk_loop.simps) simp
    have len: "length bytes' = 512 * unat n" using t(2) less.prems(1) by simp
    show ?thesis
    proof (cases "rd_more req")
      case (Cons c' cs)
      let ?req = "req\<lparr>rd_chunk := c', rd_more := cs\<rparr>"
      have "list_all request_ok (?req # q)" using less.prems(3) Cons by (simp add: request_ok_def)
      from less.hyps [OF _ len less.prems(2) this, of "out @ [buf]"] Cons
      have "ramdisk_loop (Some ?req) q (out @ [buf]) (disk_of n bytes') =
          (if list_all rd_fs (?req # q)
           then (let (bufs, bytes'') = disk_run (concat (map transfers_of (?req # q))) bytes' in Inr ((out @ [buf]) @ bufs, disk_of n bytes''))
           else Inl Use_after_free)" by simp
      moreover have "concat (map transfers_of (?req # q)) = ?rest" by (simp add: transfers_of_def Cons)
      ultimately show ?thesis
        unfolding step all t(3) using Cons True by (simp add: case_prod_beta Let_def)
    next
      case Nil
      show ?thesis
      proof (cases q)
        case Nil2: Nil
        then show ?thesis unfolding step all t(3) using Nil True by simp
      next
        case (Cons req' q')
        have "list_all request_ok (req' # q')" using less.prems(3) Cons by simp
        from less.hyps [OF _ len less.prems(2) this, of "out @ [buf]"] Cons Nil
        have "ramdisk_loop (Some req') q' (out @ [buf]) (disk_of n bytes') =
            (if list_all rd_fs (req' # q')
             then (let (bufs, bytes'') = disk_run (concat (map transfers_of (req' # q'))) bytes' in Inr ((out @ [buf]) @ bufs, disk_of n bytes''))
             else Inl Use_after_free)" by simp
        moreover have "concat (map transfers_of (req' # q')) = ?rest" using Cons Nil by simp
        ultimately show ?thesis
          unfolding step all t(3) using Cons Nil True by (simp add: case_prod_beta Let_def)
      qed
    qed
  qed
qed

text \<open>
  C29: For a RAM disk whose memory holds its sectors (fewer than \<open>2 ^ 32\<close> bytes of them) and requests whose chunks come
  with buffers of their size: the request function returns for every queue of file-system requests, and has transferred
  each chunk once, in order, between its buffer and the disk, a chunk that does not fit behind the end being passed
  over with its buffer as it was (and its request ended as a success); with a request of another kind in the queue it
  comes to use that request after it was ended.
\<close>

theorem ramdisk_request_result:
  assumes "length bytes = 512 * unat n" and "512 * unat n < 2 ^ 32" and "list_all request_ok q"
  shows "ramdisk_request q (disk_of n bytes) =
    (if list_all rd_fs q
     then (let (bufs, bytes') = disk_run (concat (map transfers_of q)) bytes in Inr (bufs, disk_of n bytes'))
     else Inl Use_after_free)"
proof (cases q)
  case Nil
  then show ?thesis by (simp add: ramdisk_request_def)
next
  case (Cons req q')
  with ramdisk_loop_run [of bytes n req q' "[]"] assms show ?thesis by (simp add: ramdisk_request_def)
qed

text \<open>A write of a sector, a read of it, and a read behind the end, on a disk of two sectors.\<close>

definition three_requests :: "rd_request list" where
  "three_requests =
     [\<lparr>rd_fs = True, rd_write = True, rd_chunk = (1, 1, replicate 512 7), rd_more = []\<rparr>,
      \<lparr>rd_fs = True, rd_write = False, rd_chunk = (1, 1, replicate 512 0), rd_more = [(2, 1, replicate 512 9)]\<rparr>]"

theorem ramdisk_request_result_witness:
  "ramdisk_request three_requests (disk_of 2 (replicate 1024 0)) =
     Inr ([replicate 512 7, replicate 512 7, replicate 512 9], disk_of 2 (replicate 512 0 @ replicate 512 7)) \<and>
   ramdisk_request (three_requests @ [hd three_requests\<lparr>rd_fs := False\<rparr>]) (disk_of 2 (replicate 1024 0)) =
     Inl Use_after_free"
proof -
  have "list_all request_ok three_requests" "list_all request_ok (three_requests @ [hd three_requests\<lparr>rd_fs := False\<rparr>])"
    by (simp_all add: three_requests_def request_ok_def chunk_ok_def)
  then show ?thesis
    using ramdisk_request_result [of "replicate 1024 0" 2 three_requests]
      ramdisk_request_result [of "replicate 1024 0" 2 "three_requests @ [hd three_requests\<lparr>rd_fs := False\<rparr>]"]
    by (simp add: three_requests_def transfers_of_def Let_def overwrite_def)
qed

text \<open>The code never sets \<open>data\<close>: with the null pointer the first transfer in range is a fault.\<close>

lemma ramdisk_never_allocated:
  assumes "chunk_ok (sector, nsect, buffer)" and "unat sector + unat nsect \<le> unat n" and "512 * unat n < 2 ^ 32"
  shows "ramdisk_transfer sector nsect buffer w \<lparr>rd_sectors = n, rd_data = None\<rparr> = Inl Null_deref"
proof -
  have ok: "0 < unat nsect" "unat sector + unat nsect < 2 ^ 54" "length buffer = 512 * unat nsect"
    using assms(1) by (simp_all add: chunk_ok_def)
  have off: "unat (sector * 512) = 512 * unat sector" and nb: "unat (nsect * 512) = 512 * unat nsect"
    using ok(2) by (simp_all add: unat_sectors64)
  have "unat (sector * 512 + nsect * 512) = 512 * unat sector + 512 * unat nsect"
    using ok(2) off nb by (simp add: unat_word_ariths)
  moreover have "unat (ucast (n * 512) :: 64 word) = 512 * unat n"
    using assms(3) by (simp add: unsigned_ucast_eq take_bit_eq_mod unat_word_ariths mult.commute)
  ultimately have "\<not> ucast (n * 512) < sector * 512 + nsect * 512"
    using assms(2) by (simp add: word_less_nat_alt)
  moreover have "nsect * 512 \<noteq> 0" using ok(1) nb by (metis mult_is_0 not_less_zero unat_0 zero_neq_numeral)
  ultimately show ?thesis using ok by (simp add: ramdisk_transfer_def Let_def)
qed

end
